(* ===== verification/Go_Prelude.thy ===== *)
theory Go_Prelude
  imports Main "HOL-Library.Word"
begin

text \<open>
  What every component of the model shares: the machine types, the outcome of a Go call (a value,
  an error value, or a run-time panic), the state-passing composition of calls, and Go slices with
  their length and capacity.

  A call is a function from the state to an outcome and the state it leaves, because a Go call that
  returns an error or panics keeps the changes it made before.
\<close>

section \<open>Machine types\<close>

unbundle bit_operations_syntax

type_synonym u8 = "8 word"
type_synonym u16 = "16 word"
type_synonym u32 = "32 word"
type_synonym u64 = "64 word"
type_synonym i32 = "32 word"
type_synonym bytes = "u8 list"

named_theorems go_simps \<open>unfolding of calls and their composition\<close>
named_theorems word_bits \<open>bitwise facts about words of the widths the code uses\<close>

section \<open>Errors and outcomes\<close>

text \<open>
  Error values. \<open>ErrNew\<close> stands for \<open>errors.New\<close> and \<open>errors.Errorf\<close> (the message is the source's
  text without the formatted operands); \<open>Wrap\<close> for \<open>errors.Wrap\<close>, whose \<open>cause\<close> is the innermost
  error, as \<open>errors.Cause\<close> finds it.
\<close>

datatype error =
    ErrEOF                 \<comment> \<open>\<open>io.EOF\<close>\<close>
  | ErrUnexpectedEOF       \<comment> \<open>\<open>io.ErrUnexpectedEOF\<close>\<close>
  | ErrNetClosed           \<comment> \<open>use of a closed network connection\<close>
  | ErrIO string           \<comment> \<open>any other error of the network\<close>
  | ErrNew string
  | Wrap string error

primrec cause :: "error \<Rightarrow> error" where
  "cause ErrEOF = ErrEOF"
| "cause ErrUnexpectedEOF = ErrUnexpectedEOF"
| "cause ErrNetClosed = ErrNetClosed"
| "cause (ErrIO m) = ErrIO m"
| "cause (ErrNew m) = ErrNew m"
| "cause (Wrap m e) = cause e"

datatype panic = IndexOutOfRange | SliceOutOfRange | NilDereference | DivideByZero | Explicit string

datatype 'a res = Ok 'a | Err error | Panic panic

type_synonym ('s, 'a) go = "'s \<Rightarrow> 'a res \<times> 's"

definition go_return :: "'a \<Rightarrow> ('s, 'a) go" where
  "go_return a s = (Ok a, s)"

definition go_fail :: "error \<Rightarrow> ('s, 'a) go" where
  "go_fail e s = (Err e, s)"

definition go_panic :: "panic \<Rightarrow> ('s, 'a) go" where
  "go_panic p s = (Panic p, s)"

definition go_modify :: "('s \<Rightarrow> 's) \<Rightarrow> ('s, unit) go" where
  "go_modify f s = (Ok (), f s)"

text \<open>\<open>x, err := m(); if err != nil { return err }; f(x)\<close>\<close>

definition go_bind :: "('s, 'a) go \<Rightarrow> ('a \<Rightarrow> ('s, 'b) go) \<Rightarrow> ('s, 'b) go" where
  "go_bind m f s =
     (case m s of
        (Ok a, s1) \<Rightarrow> f a s1
      | (Err e, s1) \<Rightarrow> (Err e, s1)
      | (Panic p, s1) \<Rightarrow> (Panic p, s1))"

text \<open>\<open>if err != nil { return errors.Wrap(err, msg) }\<close>\<close>

fun wrap_res :: "string \<Rightarrow> 'a res \<Rightarrow> 'a res" where
  "wrap_res msg (Ok a) = Ok a"
| "wrap_res msg (Err e) = Err (Wrap msg e)"
| "wrap_res msg (Panic p) = Panic p"

definition go_wrap :: "string \<Rightarrow> ('s, 'a) go \<Rightarrow> ('s, 'a) go" where
  "go_wrap msg m s = (case m s of (r, s1) \<Rightarrow> (wrap_res msg r, s1))"

declare go_return_def [go_simps] go_fail_def [go_simps] go_panic_def [go_simps]
  go_modify_def [go_simps]

lemma go_bind_Ok [go_simps]: "m s = (Ok a, s1) \<Longrightarrow> go_bind m f s = f a s1"
  by (simp add: go_bind_def)

lemma go_bind_Err [go_simps]: "m s = (Err e, s1) \<Longrightarrow> go_bind m f s = (Err e, s1)"
  by (simp add: go_bind_def)

lemma go_bind_Panic [go_simps]: "m s = (Panic p, s1) \<Longrightarrow> go_bind m f s = (Panic p, s1)"
  by (simp add: go_bind_def)

text \<open>Calls that keep no state, and such a call among calls that do.\<close>

definition res_bind :: "'a res \<Rightarrow> ('a \<Rightarrow> 'b res) \<Rightarrow> 'b res" where
  "res_bind r f = (case r of Ok a \<Rightarrow> f a | Err e \<Rightarrow> Err e | Panic p \<Rightarrow> Panic p)"

definition go_lift :: "'a res \<Rightarrow> ('s, 'a) go" where
  "go_lift r s = (r, s)"

lemma res_bind_simps [simp]:
  "res_bind (Ok a) f = f a" "res_bind (Err e) f = Err e" "res_bind (Panic p) f = Panic p"
  by (simp_all add: res_bind_def)

lemma go_bind_lift [simp]: "go_bind (go_lift (Ok a)) f = f a"
  by (rule ext) (simp add: go_bind_def go_lift_def)

lemma go_bind_OkE:
  assumes "go_bind m f s = (Ok b, t)"
  obtains a s1 where "m s = (Ok a, s1)" and "f a s1 = (Ok b, t)"
  using assms by (auto simp: go_bind_def split: prod.splits res.splits)

lemma go_bind_PanicE:
  assumes "go_bind m f s = (Panic p, t)"
  obtains (first) "m s = (Panic p, t)"
  | (second) a s1 where "m s = (Ok a, s1)" and "f a s1 = (Panic p, t)"
  using assms by (auto simp: go_bind_def split: prod.splits res.splits)

lemma wrap_res_eq_Ok [simp]: "wrap_res msg r = Ok a \<longleftrightarrow> r = Ok a"
  by (cases r) auto

lemma wrap_res_eq_Panic [simp]: "wrap_res msg r = Panic p \<longleftrightarrow> r = Panic p"
  by (cases r) auto

lemma go_wrap_Ok [simp]: "go_wrap msg m s = (Ok a, t) \<longleftrightarrow> m s = (Ok a, t)"
  by (auto simp: go_wrap_def split: prod.splits)

lemma go_wrap_Panic [simp]: "go_wrap msg m s = (Panic p, t) \<longleftrightarrow> m s = (Panic p, t)"
  by (auto simp: go_wrap_def split: prod.splits)

lemma go_wrap_Err [go_simps]: "m s = (Err e, t) \<Longrightarrow> go_wrap msg m s = (Err (Wrap msg e), t)"
  by (simp add: go_wrap_def)

lemma go_wrap_OkI [go_simps]: "m s = (Ok a, t) \<Longrightarrow> go_wrap msg m s = (Ok a, t)"
  by simp

text \<open>A property of the state that every call keeps, whatever the outcome.\<close>

definition go_keeps :: "('s \<Rightarrow> bool) \<Rightarrow> ('s, 'a) go \<Rightarrow> bool" where
  "go_keeps P m \<longleftrightarrow> (\<forall>s. P s \<longrightarrow> P (snd (m s)))"

lemma go_keepsD: "go_keeps P m \<Longrightarrow> P s \<Longrightarrow> P (snd (m s))"
  by (simp add: go_keeps_def)

lemma go_keepsI: "(\<And>s. P s \<Longrightarrow> P (snd (m s))) \<Longrightarrow> go_keeps P m"
  by (simp add: go_keeps_def)

lemma go_keeps_return [intro, simp]: "go_keeps P (go_return a)"
  by (simp add: go_keeps_def go_return_def)

lemma go_keeps_fail [intro, simp]: "go_keeps P (go_fail e)"
  by (simp add: go_keeps_def go_fail_def)

lemma go_keeps_panic [intro, simp]: "go_keeps P (go_panic p)"
  by (simp add: go_keeps_def go_panic_def)

lemma go_keeps_bind [intro]:
  assumes "go_keeps P m" and "\<And>a. go_keeps P (f a)"
  shows "go_keeps P (go_bind m f)"
proof (rule go_keepsI)
  fix s assume "P s"
  with assms(1) have "P (snd (m s))" by (rule go_keepsD)
  with assms(2) show "P (snd (go_bind m f s))"
    by (auto simp: go_bind_def go_keeps_def split: prod.splits res.splits)
qed

lemma go_keeps_wrap [intro]: "go_keeps P m \<Longrightarrow> go_keeps P (go_wrap msg m)"
  by (auto simp: go_keeps_def go_wrap_def split: prod.splits)

section \<open>Slices\<close>

text \<open>
  A Go slice over a byte array: the array from the slice's start to the end of its capacity, and the
  slice's length. Indexing is bounded by the length, re-slicing by the capacity.
\<close>

record gslice =
  sl_arr :: bytes
  sl_len :: nat

definition sl_cap :: "gslice \<Rightarrow> nat" where
  "sl_cap p = length (sl_arr p)"

definition sl_ok :: "gslice \<Rightarrow> bool" where
  "sl_ok p \<longleftrightarrow> sl_len p \<le> sl_cap p"

definition sl_bytes :: "gslice \<Rightarrow> bytes" where
  "sl_bytes p = take (sl_len p) (sl_arr p)"

text \<open>\<open>make([]byte, n)\<close>, and a slice over the whole of some bytes.\<close>

definition sl_of :: "bytes \<Rightarrow> gslice" where
  "sl_of bs = \<lparr>sl_arr = bs, sl_len = length bs\<rparr>"

definition sl_make :: "nat \<Rightarrow> gslice" where
  "sl_make n = sl_of (replicate n 0)"

text \<open>\<open>p[i] = v\<close>\<close>

definition sl_set :: "nat \<Rightarrow> u8 \<Rightarrow> (gslice, unit) go" where
  "sl_set i v p =
     (if i < sl_len p then (Ok (), p\<lparr>sl_arr := (sl_arr p)[i := v]\<rparr>)
      else (Panic IndexOutOfRange, p))"

text \<open>A function that rewrites the bytes of \<open>p[lo:hi]\<close> in place.\<close>

definition sl_sub :: "nat \<Rightarrow> nat \<Rightarrow> (bytes \<Rightarrow> bytes) \<Rightarrow> (gslice, unit) go" where
  "sl_sub lo hi f p =
     (if lo \<le> hi \<and> hi \<le> sl_cap p
      then (Ok (), p\<lparr>sl_arr := take lo (sl_arr p) @ f (take (hi - lo) (drop lo (sl_arr p)))
                               @ drop hi (sl_arr p)\<rparr>)
      else (Panic SliceOutOfRange, p))"

text \<open>A call on the slice \<open>p[lo:]\<close>, whose writes show through in \<open>p\<close>.\<close>

definition sl_from :: "nat \<Rightarrow> (gslice, 'a) go \<Rightarrow> (gslice, 'a) go" where
  "sl_from lo m p =
     (if lo \<le> sl_len p
      then (case m \<lparr>sl_arr = drop lo (sl_arr p), sl_len = sl_len p - lo\<rparr> of
              (r, q) \<Rightarrow> (r, p\<lparr>sl_arr := take lo (sl_arr p) @ sl_arr q\<rparr>))
      else (Panic SliceOutOfRange, p))"

text \<open>\<open>p[:n]\<close>\<close>

definition sl_prefix :: "nat \<Rightarrow> gslice \<Rightarrow> gslice" where
  "sl_prefix n p = p\<lparr>sl_len := n\<rparr>"

lemma sl_of_simps [simp]:
  "sl_bytes (sl_of bs) = bs" "sl_len (sl_of bs) = length bs" "sl_arr (sl_of bs) = bs"
  "sl_cap (sl_of bs) = length bs" "sl_ok (sl_of bs)"
  by (simp_all add: sl_bytes_def sl_of_def sl_cap_def sl_ok_def)

lemma sl_make_simps [simp]: "sl_len (sl_make n) = n" "sl_cap (sl_make n) = n" "sl_ok (sl_make n)"
  by (simp_all add: sl_make_def)

text \<open>Rewriting the middle of an array whose parts are known.\<close>

lemma sl_sub_append:
  "lo = length pre \<Longrightarrow> hi = length pre + length mid \<Longrightarrow> sl_arr p = pre @ mid @ post \<Longrightarrow>
    sl_sub lo hi f p = (Ok (), p\<lparr>sl_arr := pre @ f mid @ post\<rparr>)"
  by (simp add: sl_sub_def sl_cap_def)

section \<open>Lists and words\<close>

text \<open>An array with at least \<open>n\<close> elements, cut into a head of exactly \<open>n\<close> and the rest.\<close>

lemma split_length:
  assumes "n \<le> length xs"
  obtains ys zs where "xs = ys @ zs" and "length ys = n"
proof
  show "xs = take n xs @ drop n xs" by simp
  show "length (take n xs) = n" using assms by simp
qed

text \<open>A loop that fills a buffer by index has written a prefix.\<close>

lemma map_upt_update:
  "k < length buf \<Longrightarrow> (map f [0..<k] @ drop k buf)[k := f k] = map f [0..<Suc k] @ drop (Suc k) buf"
  by (simp add: list_update_append Cons_nth_drop_Suc [symmetric])

lemma take_length_append [simp]: "length xs = n \<Longrightarrow> take n (xs @ ys) = xs"
  by simp

lemma drop_length_append [simp]: "length xs = n \<Longrightarrow> drop n (xs @ ys) = ys"
  by simp

end
