(* ===== verification/Common.thy ===== *)
theory Common
  imports Go_Prelude
begin

text \<open>
  The byte conversions of \<open>pkg/rtmp/common/common.go\<close>: a 32-bit value to and from the bytes of a
  buffer in either byte order, and the table of message-header sizes. Buffers keep their length; a
  longer buffer than four bytes is padded, a shorter one truncates the value.
\<close>

section \<open>Definitions\<close>

text \<open>One iteration of the loop: the state is \<open>val\<close> and the buffer.\<close>

definition UintAsBytes_step :: "nat \<Rightarrow> bool \<Rightarrow> nat \<Rightarrow> u32 \<times> bytes \<Rightarrow> u32 \<times> bytes" where
  "UintAsBytes_step n bigEndian i s =
     (case s of (val, buffer) \<Rightarrow>
        if bigEndian then
          (let v = drop_bit (8 * (n - i - 1)) val
           in (val, buffer[i := ucast v AND 0xff]))
        else (drop_bit 8 val, buffer[i := ucast val AND 0xff]))"

definition UintAsBytes :: "u32 \<Rightarrow> bytes \<Rightarrow> bool \<Rightarrow> bytes" where
  "UintAsBytes val buffer bigEndian =
     (let n = length buffer
      in snd (fold (UintAsBytes_step n bigEndian) [0..<n] (val, buffer)))"

definition BytesAsUint32_step :: "bytes \<Rightarrow> bool \<Rightarrow> nat \<Rightarrow> u32 \<Rightarrow> u32" where
  "BytesAsUint32_step buffer bigEndian i ret =
     (if bigEndian then push_bit 8 ret + ucast (buffer ! i)
      else ret + push_bit (i * 8) (ucast (buffer ! i)))"

definition BytesAsUint32 :: "bytes \<Rightarrow> bool \<Rightarrow> u32" where
  "BytesAsUint32 buffer bigEndian =
     fold (BytesAsUint32_step buffer bigEndian) [0..<length buffer] 0"

text \<open>\<open>r.Read(buffer)\<close> is the reader's operation, an argument.\<close>

definition ReadBytesAsUint32 :: "(nat \<Rightarrow> ('s, bytes) go) \<Rightarrow> nat \<Rightarrow> bool \<Rightarrow> ('s, u32) go" where
  "ReadBytesAsUint32 read n bigEndian =
     go_bind (read n) (\<lambda>buffer. go_return (BytesAsUint32 buffer bigEndian))"

definition FmtToMessageHdrSize :: "nat list" where
  "FmtToMessageHdrSize = [11, 7, 3, 0]"

section \<open>Closed forms\<close>

definition be_byte :: "nat \<Rightarrow> u32 \<Rightarrow> nat \<Rightarrow> u8" where
  "be_byte n v i = ucast (drop_bit (8 * (n - i - 1)) v)"

definition le_byte :: "u32 \<Rightarrow> nat \<Rightarrow> u8" where
  "le_byte v i = ucast (drop_bit (8 * i) v)"

lemma ucast_and_ff [simp]: "(w :: u8) AND 0xff = w"
proof -
  have "(0xff :: u8) = - 1" by simp
  then show ?thesis by (simp only: and.right_neutral)
qed

lemma UintAsBytes_step_be:
  "UintAsBytes_step n True k (v, b) = (v, b[k := be_byte n v k])"
  by (simp add: UintAsBytes_step_def be_byte_def Let_def)

lemma UintAsBytes_step_le:
  "UintAsBytes_step n False k (drop_bit (8 * k) v, b) = (drop_bit (8 * Suc k) v, b[k := le_byte v k])"
  by (simp add: UintAsBytes_step_def le_byte_def add.commute)

lemma UintAsBytes_be_fold:
  "k \<le> length buf \<Longrightarrow>
    fold (UintAsBytes_step n True) [0..<k] (v, buf) = (v, map (be_byte n v) [0..<k] @ drop k buf)"
proof (induction k)
  case (Suc k)
  then show ?case
    using map_upt_update [of k buf "be_byte n v"] by (simp add: UintAsBytes_step_be)
qed simp

lemma UintAsBytes_le_fold:
  "k \<le> length buf \<Longrightarrow>
    fold (UintAsBytes_step n False) [0..<k] (v, buf)
      = (drop_bit (8 * k) v, map (le_byte v) [0..<k] @ drop k buf)"
proof (induction k)
  case (Suc k)
  then show ?case
    using map_upt_update [of k buf "le_byte v"] by (simp add: UintAsBytes_step_le del: mult_Suc_right)
qed simp

lemma UintAsBytes_be: "UintAsBytes v buf True = map (be_byte (length buf) v) [0..<length buf]"
  by (simp add: UintAsBytes_def UintAsBytes_be_fold Let_def)

lemma UintAsBytes_le: "UintAsBytes v buf False = map (le_byte v) [0..<length buf]"
  by (simp add: UintAsBytes_def UintAsBytes_le_fold Let_def)

lemma length_UintAsBytes [simp]: "length (UintAsBytes v buf be) = length buf"
  by (cases be) (simp_all add: UintAsBytes_be UintAsBytes_le)

section \<open>Reading back what was written\<close>

lemma ucast_u8_u32: "(ucast (ucast (w :: u32) :: u8) :: u32) = take_bit 8 w"
  by (rule bit_word_eqI) (simp add: bit_simps)

lemma byte_below_drop:
  "push_bit 8 (drop_bit (8 + j) w) + take_bit 8 (drop_bit j w) = drop_bit j (w :: u32)"
  using bits_ident [of 8 "drop_bit j w"] by (simp add: add.commute)

lemma byte_above_take:
  "take_bit j w + push_bit j (take_bit 8 (drop_bit j w)) = take_bit (j + 8) (w :: u32)"
proof -
  have "drop_bit j (take_bit (j + 8) w) = take_bit 8 (drop_bit j w)"
    by (simp add: drop_bit_take_bit)
  moreover have "take_bit j (take_bit (j + 8) w) = take_bit j w"
    by (simp add: min_def)
  ultimately show ?thesis
    using bits_ident [of j "take_bit (j + 8) w"] by (simp add: add.commute)
qed

lemma be_byte_value:
  "i < n \<Longrightarrow> (ucast (be_byte n v i) :: u32)
     = take_bit 8 (drop_bit (8 * (n - i - 1)) (take_bit (8 * n) v))"
proof -
  assume "i < n"
  then have "8 \<le> 8 * n - 8 * (n - i - 1)" by arith
  then show ?thesis
    by (simp add: be_byte_def ucast_u8_u32 drop_bit_take_bit min_def)
qed

lemma BytesAsUint32_be_fold:
  "k \<le> n \<Longrightarrow>
    fold (BytesAsUint32_step (map (be_byte n v) [0..<n]) True) [0..<k] 0
      = drop_bit (8 * (n - k)) (take_bit (8 * n) v)"
proof (induction k)
  case 0
  have "drop_bit (8 * n) (take_bit (8 * n) v) = 0"
    by (simp add: drop_bit_take_bit)
  then show ?case by simp
next
  case (Suc k)
  have j: "8 * (n - k) = 8 + 8 * (n - Suc k)" using Suc.prems by arith
  from Suc show ?case
    by (simp add: BytesAsUint32_step_def be_byte_value j byte_below_drop)
qed

lemma BytesAsUint32_le_fold:
  "k \<le> n \<Longrightarrow>
    fold (BytesAsUint32_step (map (le_byte v) [0..<n]) False) [0..<k] 0 = take_bit (8 * k) v"
proof (induction k)
  case (Suc k)
  have "take_bit (8 * Suc k) v = take_bit (8 * k) v + push_bit (8 * k) (take_bit 8 (drop_bit (8 * k) v))"
    by (simp only: byte_above_take mult_Suc_right add.commute)
  with Suc show ?case
    by (simp add: BytesAsUint32_step_def le_byte_def ucast_u8_u32 mult.commute del: mult_Suc_right)
qed simp

lemma BytesAsUint32_UintAsBytes [simp]:
  "BytesAsUint32 (UintAsBytes v buf be) be = take_bit (8 * length buf) v"
proof (cases be)
  case True
  then show ?thesis
    using BytesAsUint32_be_fold [of "length buf" "length buf" v]
    by (simp add: UintAsBytes_be BytesAsUint32_def)
next
  case False
  then show ?thesis
    using BytesAsUint32_le_fold [of "length buf" "length buf" v]
    by (simp add: UintAsBytes_le BytesAsUint32_def)
qed

section \<open>Writing back what was read\<close>

lemma BytesAsUint32_be_snoc:
  "BytesAsUint32 (bs @ [b]) True = push_bit 8 (BytesAsUint32 bs True) + ucast b"
proof -
  have "fold (BytesAsUint32_step (bs @ [b]) True) [0..<length bs] 0
      = fold (BytesAsUint32_step bs True) [0..<length bs] 0"
    by (rule fold_cong) (auto simp: BytesAsUint32_step_def nth_append)
  then show ?thesis
    by (simp add: BytesAsUint32_def) (simp add: BytesAsUint32_step_def)
qed

lemma BytesAsUint32_le_snoc:
  "BytesAsUint32 (bs @ [b]) False = BytesAsUint32 bs False + push_bit (8 * length bs) (ucast b)"
proof -
  have "fold (BytesAsUint32_step (bs @ [b]) False) [0..<length bs] 0
      = fold (BytesAsUint32_step bs False) [0..<length bs] 0"
    by (rule fold_cong) (auto simp: BytesAsUint32_step_def nth_append)
  then show ?thesis
    by (simp add: BytesAsUint32_def) (simp add: BytesAsUint32_step_def mult.commute)
qed

text \<open>The value of \<open>n\<close> bytes fits in \<open>8 * n\<close> bits, and appending a byte is a disjoint sum.\<close>

lemma bit_byte_high: "8 \<le> m \<Longrightarrow> \<not> bit (b :: u8) m"
  by (rule impossible_bit) simp

lemma be_snoc_or: "push_bit 8 d + ucast (b :: u8) = push_bit 8 (d :: u32) OR ucast b"
  by (rule disjunctive_add_eq_or, rule bit_word_eqI) (auto simp: bit_simps bit_byte_high)

lemma le_snoc_or:
  "take_bit k d = d \<Longrightarrow> d + push_bit k (ucast (b :: u8)) = (d :: u32) OR push_bit k (ucast b)"
proof (rule disjunctive_add_eq_or, rule bit_word_eqI)
  fix m assume "take_bit k d = d" "m < LENGTH(32)"
  then have "bit d m \<Longrightarrow> m < k" by (metis bit_take_bit_iff)
  then show "bit (d AND push_bit k (ucast b)) m = bit 0 m"
    by (auto simp: bit_simps)
qed

lemma BytesAsUint32_be_fits: "take_bit (8 * length bs) (BytesAsUint32 bs True) = BytesAsUint32 bs True"
proof (induction bs rule: rev_induct)
  case Nil
  show ?case by (simp add: BytesAsUint32_def)
next
  case (snoc b bs)
  define d where "d = BytesAsUint32 bs True"
  have d: "bit d m \<Longrightarrow> m < 8 * length bs" for m
    using snoc by (metis bit_take_bit_iff d_def)
  have "take_bit (8 * Suc (length bs)) (push_bit 8 d OR ucast b) = push_bit 8 d OR ucast b"
    by (rule bit_word_eqI) (auto simp: bit_simps dest: d bit_imp_le_length)
  then show ?case by (simp add: BytesAsUint32_be_snoc be_snoc_or d_def)
qed

lemma BytesAsUint32_le_fits:
  "take_bit (8 * length bs) (BytesAsUint32 bs False) = BytesAsUint32 bs False"
proof (induction bs rule: rev_induct)
  case Nil
  show ?case by (simp add: BytesAsUint32_def)
next
  case (snoc b bs)
  define d where "d = BytesAsUint32 bs False"
  have d: "bit d m \<Longrightarrow> m < 8 * length bs" for m
    using snoc by (metis bit_take_bit_iff d_def)
  have "take_bit (8 * Suc (length bs)) (d OR push_bit (8 * length bs) (ucast b))
      = d OR push_bit (8 * length bs) (ucast b)"
    by (rule bit_word_eqI) (auto simp: bit_simps dest: d bit_imp_le_length)
  then show ?case using snoc by (simp add: BytesAsUint32_le_snoc le_snoc_or d_def)
qed

lemma be_byte_snoc_last: "be_byte (Suc n) (push_bit 8 d + ucast b) n = b"
  by (rule bit_word_eqI) (auto simp: be_byte_def be_snoc_or bit_simps)

lemma be_byte_snoc_init:
  fixes b :: u8
  assumes "i < n" "n \<le> 3" "take_bit (8 * n) d = d"
  shows "be_byte (Suc n) (push_bit 8 d + ucast b) i = be_byte n d i"
proof (rule bit_word_eqI)
  fix m assume m: "m < LENGTH(8)"
  have d: "k < 24" if "bit d k" for k
  proof -
    from that assms(3) have "k < 8 * n" by (metis bit_take_bit_iff)
    with assms(2) show ?thesis by arith
  qed
  define k where "k = 8 * (n - i - 1) + m"
  have j: "8 * (Suc n - i - 1) + m = 8 + k" using assms(1) by (simp add: k_def)
  have "8 + k < 32" using m assms(1,2) by (simp add: k_def)
  then have "bit (push_bit 8 d + ucast b) (8 + k) = bit d k"
    using d [of k] bit_byte_high [of "8 + k" b] by (auto simp: be_snoc_or bit_simps)
  with m j show "bit (be_byte (Suc n) (push_bit 8 d + ucast b) i) m = bit (be_byte n d i) m"
    by (auto simp: be_byte_def bit_simps k_def add.assoc simp del: One_nat_def)
qed

lemma le_byte_snoc_last:
  fixes b :: u8
  assumes "n \<le> 3" "take_bit (8 * n) d = d"
  shows "le_byte (d + push_bit (8 * n) (ucast b)) n = b"
proof (rule bit_word_eqI)
  fix m assume m: "m < LENGTH(8)"
  have "\<not> bit d (8 * n + m)"
    using assms(2) by (metis bit_take_bit_iff not_add_less1)
  with m assms show "bit (le_byte (d + push_bit (8 * n) (ucast b)) n) m = bit b m"
    by (auto simp: le_byte_def le_snoc_or bit_simps)
qed

lemma le_byte_snoc_init:
  fixes b :: u8
  assumes "i < n" "take_bit (8 * n) d = d"
  shows "le_byte (d + push_bit (8 * n) (ucast b)) i = le_byte d i"
proof (rule bit_word_eqI)
  fix m assume m: "m < LENGTH(8)"
  with assms(1) have "8 * i + m < 8 * n" by simp
  with m assms show "bit (le_byte (d + push_bit (8 * n) (ucast b)) i) m = bit (le_byte d i) m"
    by (auto simp: le_byte_def le_snoc_or bit_simps)
qed

lemma UintAsBytes_BytesAsUint32:
  "length bs \<le> 4 \<Longrightarrow> length buf = length bs \<Longrightarrow> UintAsBytes (BytesAsUint32 bs be) buf be = bs"
proof (induction bs arbitrary: buf rule: rev_induct)
  case Nil
  then show ?case by (cases be) (simp_all add: UintAsBytes_be UintAsBytes_le)
next
  case (snoc b bs)
  then have n: "length bs \<le> 3" and IH: "UintAsBytes (BytesAsUint32 bs be) bs be = bs" by auto
  show ?case
  proof (cases be)
    case True
    define d where "d = BytesAsUint32 bs True"
    have "map (be_byte (Suc (length bs)) (push_bit 8 d + ucast b)) [0..<length bs]
        = map (be_byte (length bs) d) [0..<length bs]"
      using n by (simp add: be_byte_snoc_init d_def BytesAsUint32_be_fits)
    with IH snoc.prems n True show ?thesis
      by (simp add: UintAsBytes_be BytesAsUint32_be_snoc be_byte_snoc_last d_def)
  next
    case False
    define d where "d = BytesAsUint32 bs False"
    have "map (le_byte (d + push_bit (8 * length bs) (ucast b))) [0..<length bs]
        = map (le_byte d) [0..<length bs]"
      by (simp add: le_byte_snoc_init d_def BytesAsUint32_le_fits)
    with IH snoc.prems n False show ?thesis
      by (simp add: UintAsBytes_le BytesAsUint32_le_snoc le_byte_snoc_last d_def
          BytesAsUint32_le_fits)
  qed
qed

section \<open>Written bytes as values\<close>

definition be_bytes :: "nat \<Rightarrow> u32 \<Rightarrow> bytes" where
  "be_bytes n v = map (be_byte n v) [0..<n]"

definition le_bytes :: "nat \<Rightarrow> u32 \<Rightarrow> bytes" where
  "le_bytes n v = map (le_byte v) [0..<n]"

lemma UintAsBytes_True [simp]: "UintAsBytes v buf True = be_bytes (length buf) v"
  by (simp add: UintAsBytes_be be_bytes_def)

lemma UintAsBytes_False [simp]: "UintAsBytes v buf False = le_bytes (length buf) v"
  by (simp add: UintAsBytes_le le_bytes_def)

lemma length_be_bytes [simp]: "length (be_bytes n v) = n"
  by (simp add: be_bytes_def)

lemma length_le_bytes [simp]: "length (le_bytes n v) = n"
  by (simp add: le_bytes_def)

lemma BytesAsUint32_be_bytes [simp]: "BytesAsUint32 (be_bytes n v) True = take_bit (8 * n) v"
  using BytesAsUint32_UintAsBytes [of v "replicate n 0" True] by simp

lemma BytesAsUint32_le_bytes [simp]: "BytesAsUint32 (le_bytes n v) False = take_bit (8 * n) v"
  using BytesAsUint32_UintAsBytes [of v "replicate n 0" False] by simp

end
