(* ===== verification/Chunk_Header.thy ===== *)
theory Chunk_Header
  imports Common
begin

text \<open>
  The chunk headers of \<open>pkg/rtmp/chunk\<close>: message type ids (\<open>consts.go\<close>), the basic header
  (\<open>basic_header.go\<close>), the message header (\<open>message_header.go\<close>) and the header that embeds both
  (\<open>header.go\<close>), each with its functional options, its constructor's checks and its encoder.

  The encoders write into a buffer of the header pool, a slice whose length can be smaller than its
  capacity, so each indexing and re-slicing is an operation of \<open>Go_Prelude\<close> that can panic. The
  closed forms \<open>basic_bytes\<close>, \<open>message_bytes\<close> and \<open>header_bytes\<close> say what an encoder writes.
\<close>

section \<open>Message type ids\<close>

type_synonym RtmpMessageTypeID = u32

definition MsgSetChunkSize :: RtmpMessageTypeID where "MsgSetChunkSize = 1"
definition MsgAbortMessage :: RtmpMessageTypeID where "MsgAbortMessage = 2"
definition MsgAcknowledgement :: RtmpMessageTypeID where "MsgAcknowledgement = 3"
definition MsgUserControlMessage :: RtmpMessageTypeID where "MsgUserControlMessage = 4"
definition MsgWindowAcknowledgementSize :: RtmpMessageTypeID where
  "MsgWindowAcknowledgementSize = 5"
definition MsgSetPeerBandwidth :: RtmpMessageTypeID where "MsgSetPeerBandwidth = 6"
definition MsgEdgeAndOriginServerCommand :: RtmpMessageTypeID where
  "MsgEdgeAndOriginServerCommand = 7"
definition MsgAudioMessage :: RtmpMessageTypeID where "MsgAudioMessage = 8"
definition MsgVideoMessage :: RtmpMessageTypeID where "MsgVideoMessage = 9"
definition MsgAMF3DataMessage :: RtmpMessageTypeID where "MsgAMF3DataMessage = 15"
definition MsgAMF3SharedObject :: RtmpMessageTypeID where "MsgAMF3SharedObject = 16"
definition MsgAMF3CommandMessage :: RtmpMessageTypeID where "MsgAMF3CommandMessage = 17"
definition MSGAMF0DataMessage :: RtmpMessageTypeID where "MSGAMF0DataMessage = 18"
definition MSGAMF0SharedObject :: RtmpMessageTypeID where "MSGAMF0SharedObject = 19"
definition MsgAMF0CommandMessage :: RtmpMessageTypeID where "MsgAMF0CommandMessage = 20"
definition MsgAggregateMessage :: RtmpMessageTypeID where "MsgAggregateMessage = 22"

named_theorems msg_ids \<open>values of the message type ids\<close>

declare MsgSetChunkSize_def [msg_ids] MsgAbortMessage_def [msg_ids]
  MsgAcknowledgement_def [msg_ids] MsgUserControlMessage_def [msg_ids]
  MsgWindowAcknowledgementSize_def [msg_ids] MsgSetPeerBandwidth_def [msg_ids]
  MsgEdgeAndOriginServerCommand_def [msg_ids] MsgAudioMessage_def [msg_ids]
  MsgVideoMessage_def [msg_ids] MsgAMF3DataMessage_def [msg_ids]
  MsgAMF3SharedObject_def [msg_ids] MsgAMF3CommandMessage_def [msg_ids]
  MSGAMF0DataMessage_def [msg_ids] MSGAMF0SharedObject_def [msg_ids]
  MsgAMF0CommandMessage_def [msg_ids] MsgAggregateMessage_def [msg_ids]

section \<open>Structs\<close>

record basicHeader =
  Fmt :: u8
  Csid :: u32

record messageHeader =
  Timestamp :: u32
  MessageLength :: u32
  MessageTypeID :: RtmpMessageTypeID
  MessageStreamID :: u32

record header =
  basic_header :: basicHeader
  message_header :: messageHeader
  ExtendedTimestamp :: u32

definition zero_basicHeader :: basicHeader where
  "zero_basicHeader = \<lparr>Fmt = 0, Csid = 0\<rparr>"

definition zero_messageHeader :: messageHeader where
  "zero_messageHeader =
     \<lparr>Timestamp = 0, MessageLength = 0, MessageTypeID = 0, MessageStreamID = 0\<rparr>"

definition zero_header :: header where
  "zero_header = \<lparr>basic_header = zero_basicHeader, message_header = zero_messageHeader,
     ExtendedTimestamp = 0\<rparr>"

section \<open>The basic header\<close>

definition errFmt :: error where
  "errFmt = ErrNew ''fmt must in [0,1,2,3]''"

definition errCsid :: error where
  "errCsid = ErrNew ''fmt must range from 2 to 65559''"

definition WithChunkBasicHeaderFmt :: "u8 \<Rightarrow> basicHeader \<Rightarrow> basicHeader" where
  "WithChunkBasicHeaderFmt f bh = bh\<lparr>Fmt := f\<rparr>"

definition WithChunkBasicHeaderCsid :: "u32 \<Rightarrow> basicHeader \<Rightarrow> basicHeader" where
  "WithChunkBasicHeaderCsid csid bh = bh\<lparr>Csid := csid\<rparr>"

definition basicHeader_loadOptions ::
  "(basicHeader \<Rightarrow> basicHeader) list \<Rightarrow> basicHeader \<Rightarrow> basicHeader res" where
  "basicHeader_loadOptions opts bh0 =
     (let bh = fold (\<lambda>opt b. opt b) opts bh0
      in if Fmt bh > 3 then Err errFmt
         else if Csid bh < 2 \<or> Csid bh > 65559 then Err errCsid
         else Ok bh)"

definition NewBasicHeader :: "(basicHeader \<Rightarrow> basicHeader) list \<Rightarrow> basicHeader res" where
  "NewBasicHeader opts = basicHeader_loadOptions opts zero_basicHeader"

definition basicHeader_encode :: "basicHeader \<Rightarrow> (gslice, nat) go" where
  "basicHeader_encode bh =
     (let b1 = push_bit 6 (Fmt bh); csid = Csid bh
      in if csid < 2 then go_fail errCsid
         else if csid < 64 then
           go_bind (sl_set 0 (b1 OR ucast csid)) (\<lambda>_. go_return 1)
         else if csid < 320 then
           go_bind (sl_set 0 (b1 OR 0)) (\<lambda>_.
           go_bind (sl_set 1 (ucast (csid - 64))) (\<lambda>_. go_return 2))
         else if csid \<le> 65599 then
           go_bind (sl_set 0 (b1 OR 1)) (\<lambda>_.
           go_bind (sl_sub 1 3 (\<lambda>b. UintAsBytes (csid - 64) b False)) (\<lambda>_. go_return 3))
         else go_fail errCsid)"

section \<open>The message header\<close>

definition WithChunkMessageHeaderTimestamp :: "u32 \<Rightarrow> messageHeader \<Rightarrow> messageHeader" where
  "WithChunkMessageHeaderTimestamp t mh = mh\<lparr>Timestamp := t\<rparr>"

definition WithChunkMessageHeaderMessageLength :: "u32 \<Rightarrow> messageHeader \<Rightarrow> messageHeader" where
  "WithChunkMessageHeaderMessageLength n mh = mh\<lparr>MessageLength := n\<rparr>"

definition WithChunkMessageHeaderMessageTypeID ::
  "RtmpMessageTypeID \<Rightarrow> messageHeader \<Rightarrow> messageHeader" where
  "WithChunkMessageHeaderMessageTypeID i mh = mh\<lparr>MessageTypeID := i\<rparr>"

definition WithChunkMessageHeaderMessageStreamID :: "u32 \<Rightarrow> messageHeader \<Rightarrow> messageHeader" where
  "WithChunkMessageHeaderMessageStreamID i mh = mh\<lparr>MessageStreamID := i\<rparr>"

definition messageHeader_loadOptions ::
  "(messageHeader \<Rightarrow> messageHeader) list \<Rightarrow> messageHeader \<Rightarrow> messageHeader res" where
  "messageHeader_loadOptions opts mh0 =
     (let mh = fold (\<lambda>opt m. opt m) opts mh0
      in Ok (if Timestamp mh > 0xffffff then mh\<lparr>Timestamp := 0xffffff\<rparr> else mh))"

definition NewMessageHeader :: "(messageHeader \<Rightarrow> messageHeader) list \<Rightarrow> messageHeader res" where
  "NewMessageHeader opts = messageHeader_loadOptions opts zero_messageHeader"

definition messageHeader_encode :: "messageHeader \<Rightarrow> u8 \<Rightarrow> (gslice, nat) go" where
  "messageHeader_encode mh f =
     (if f > 3 then go_fail errFmt
      else if f = 3 then go_return 0
      else
        (let size = FmtToMessageHdrSize ! unat f
         in if f \<le> 2 then
              go_bind (sl_sub 0 3 (\<lambda>b. if Timestamp mh \<ge> 0xffffff
                                      then UintAsBytes 0xffffff b True
                                      else UintAsBytes (Timestamp mh) b True)) (\<lambda>_.
              if f \<le> 1 then
                go_bind (sl_sub 3 6 (\<lambda>b. UintAsBytes (MessageLength mh) b True)) (\<lambda>_.
                go_bind (sl_sub 6 7 (\<lambda>b. UintAsBytes (MessageTypeID mh) b True)) (\<lambda>_.
                if f = 0 then
                  go_bind (sl_sub 7 11 (\<lambda>b. UintAsBytes (MessageStreamID mh) b False)) (\<lambda>_.
                  go_return size)
                else go_return size))
              else go_return size)
            else go_return size))"

section \<open>The header\<close>

definition WithHeaderBasicHeader :: "basicHeader \<Rightarrow> header \<Rightarrow> header" where
  "WithHeaderBasicHeader bh h = h\<lparr>basic_header := bh\<rparr>"

definition WithHeaderMessageHeader :: "messageHeader \<Rightarrow> header \<Rightarrow> header" where
  "WithHeaderMessageHeader mh h = h\<lparr>message_header := mh\<rparr>"

definition WithHeaderExtendedTimestamp :: "u32 \<Rightarrow> header \<Rightarrow> header" where
  "WithHeaderExtendedTimestamp t h = h\<lparr>ExtendedTimestamp := t\<rparr>"

definition header_loadOptions :: "(header \<Rightarrow> header) list \<Rightarrow> header \<Rightarrow> header res" where
  "header_loadOptions opts h = Ok (fold (\<lambda>opt x. opt x) opts h)"

definition NewHeader :: "(header \<Rightarrow> header) list \<Rightarrow> header res" where
  "NewHeader opts = header_loadOptions opts zero_header"

definition header_Encode :: "header \<Rightarrow> (gslice, nat) go" where
  "header_Encode h =
     go_bind (go_wrap ''encode basic header'' (basicHeader_encode (basic_header h)))
       (\<lambda>basicHdrSize.
     go_bind (go_wrap ''encode message header''
         (sl_from basicHdrSize (messageHeader_encode (message_header h) (Fmt (basic_header h)))))
       (\<lambda>messageHdrSize.
     go_return (basicHdrSize + messageHdrSize)))"

section \<open>What the encoders write\<close>

definition basic_bytes :: "basicHeader \<Rightarrow> bytes" where
  "basic_bytes bh =
     (let b1 = push_bit 6 (Fmt bh); csid = Csid bh
      in if csid < 64 then [b1 OR ucast csid]
         else if csid < 320 then [b1, ucast (csid - 64)]
         else (b1 OR 1) # le_bytes 2 (csid - 64))"

definition message_bytes :: "messageHeader \<Rightarrow> u8 \<Rightarrow> bytes" where
  "message_bytes mh f =
     (if f \<le> 2 then be_bytes 3 (min (Timestamp mh) 0xffffff) else [])
     @ (if f \<le> 1 then be_bytes 3 (MessageLength mh) @ be_bytes 1 (MessageTypeID mh) else [])
     @ (if f = 0 then le_bytes 4 (MessageStreamID mh) else [])"

definition header_bytes :: "header \<Rightarrow> bytes" where
  "header_bytes h = basic_bytes (basic_header h)
     @ message_bytes (message_header h) (Fmt (basic_header h))"

definition basicHeader_valid :: "basicHeader \<Rightarrow> bool" where
  "basicHeader_valid bh \<longleftrightarrow> Fmt bh \<le> 3 \<and> 2 \<le> Csid bh \<and> Csid bh \<le> 65599"

lemma u8_le_3_cases:
  assumes "(f :: u8) \<le> 3"
  obtains "f = 0" | "f = 1" | "f = 2" | "f = 3"
proof -
  have "unat f \<le> 3" using assms by (simp add: word_le_nat_alt)
  then have "unat f \<in> {0, 1, 2, 3}" by auto
  then have "f \<in> {0, 1, 2, 3}" by (auto simp: word_unat_eq_iff)
  then show ?thesis using that by blast
qed

lemma length_basic_bytes:
  "length (basic_bytes bh) = (if Csid bh < 64 then 1 else if Csid bh < 320 then 2 else 3)"
  by (simp add: basic_bytes_def Let_def)

lemma length_message_bytes:
  "f \<le> 3 \<Longrightarrow> length (message_bytes mh f) = FmtToMessageHdrSize ! unat f"
  by (erule u8_le_3_cases) (simp_all add: message_bytes_def FmtToMessageHdrSize_def word_le_nat_alt)

lemma basicHeader_encode_ok:
  assumes "2 \<le> Csid bh" "Csid bh \<le> 65599" "length (basic_bytes bh) \<le> sl_len p" "sl_ok p"
  shows "basicHeader_encode bh p = (Ok (length (basic_bytes bh)),
    p\<lparr>sl_arr := basic_bytes bh @ drop (length (basic_bytes bh)) (sl_arr p)\<rparr>)"
proof -
  have cap: "length (basic_bytes bh) \<le> length (sl_arr p)"
    using assms(3,4) by (simp add: sl_ok_def sl_cap_def)
  then obtain ys zs where arr: "sl_arr p = ys @ zs" and ys: "length ys = length (basic_bytes bh)"
    by (rule split_length)
  consider "Csid bh < 64" | "64 \<le> Csid bh" "Csid bh < 320" | "64 \<le> Csid bh" "320 \<le> Csid bh"
    by fastforce
  then show ?thesis
  proof cases
    case 1
    then obtain a where "ys = [a]" using ys by (auto simp: length_basic_bytes length_Suc_conv)
    with 1 assms arr show ?thesis
      by (simp add: basicHeader_encode_def basic_bytes_def Let_def go_bind_def go_return_def
          sl_set_def not_less [symmetric])
  next
    case 2
    then obtain a b where "ys = [a, b]"
      using ys by (auto simp: length_basic_bytes length_Suc_conv numeral_2_eq_2 not_less [symmetric])
    with 2 assms arr show ?thesis
      by (simp add: basicHeader_encode_def basic_bytes_def Let_def go_bind_def go_return_def
          sl_set_def not_less [symmetric])
  next
    case 3
    then obtain a b c where "ys = [a, b, c]"
      using ys by (auto simp: length_basic_bytes length_Suc_conv numeral_3_eq_3 not_less [symmetric])
    with 3 assms arr show ?thesis
      by (simp add: basicHeader_encode_def basic_bytes_def Let_def go_bind_def go_return_def
          sl_set_def sl_sub_def sl_cap_def not_less [symmetric] numeral_2_eq_2)
  qed
qed

lemma min_timestamp: "min (t :: u32) c = (if c \<le> t then c else t)"
  by (auto simp: min_def)

lemma messageHeader_encode_ok:
  assumes "f \<le> 3" "length (message_bytes mh f) \<le> sl_cap p"
  shows "messageHeader_encode mh f p = (Ok (length (message_bytes mh f)),
    p\<lparr>sl_arr := message_bytes mh f @ drop (length (message_bytes mh f)) (sl_arr p)\<rparr>)"
proof -
  have cap: "length (message_bytes mh f) \<le> length (sl_arr p)"
    using assms(2) by (simp add: sl_cap_def)
  then obtain ys zs where arr: "sl_arr p = ys @ zs" and ys: "length ys = length (message_bytes mh f)"
    by (rule split_length)
  note enc = messageHeader_encode_def go_bind_def go_return_def message_bytes_def
    FmtToMessageHdrSize_def word_le_nat_alt word_less_nat_alt sl_sub_def sl_cap_def
  show ?thesis
  proof (cases rule: u8_le_3_cases [OF assms(1)])
    case 1
    then have "length ys = 11" using ys by (simp add: message_bytes_def)
    with 1 arr show ?thesis by (simp add: enc min_timestamp)
  next
    case 2
    then have "length ys = 7" using ys by (simp add: message_bytes_def word_le_nat_alt)
    with 2 arr show ?thesis by (simp add: enc min_timestamp)
  next
    case 3
    then have "length ys = 3" using ys by (simp add: message_bytes_def word_le_nat_alt)
    with 3 arr show ?thesis by (simp add: enc min_timestamp)
  next
    case 4
    with arr show ?thesis by (simp add: enc)
  qed
qed

text \<open>
  A header that is valid is written whole, and nothing else of the buffer changes, when the buffer's
  length holds the basic header and its capacity the whole header.
\<close>

lemma header_Encode_ok:
  assumes "basicHeader_valid (basic_header h)" "sl_ok p"
    "length (basic_bytes (basic_header h)) \<le> sl_len p" "length (header_bytes h) \<le> sl_cap p"
  shows "header_Encode h p = (Ok (length (header_bytes h)),
    p\<lparr>sl_arr := header_bytes h @ drop (length (header_bytes h)) (sl_arr p)\<rparr>)"
proof -
  let ?bh = "basic_header h" and ?mh = "message_header h"
  let ?n = "length (basic_bytes ?bh)"
  let ?p1 = "p\<lparr>sl_arr := basic_bytes ?bh @ drop ?n (sl_arr p)\<rparr>"
  let ?q = "\<lparr>sl_arr = drop ?n (sl_arr p), sl_len = sl_len p - ?n\<rparr>"
  have b: "basicHeader_encode ?bh p = (Ok ?n, ?p1)"
    using assms by (intro basicHeader_encode_ok) (auto simp: basicHeader_valid_def)
  have "length (message_bytes ?mh (Fmt ?bh)) \<le> sl_cap ?q"
    using assms(4) by (simp add: header_bytes_def sl_cap_def)
  then have m: "messageHeader_encode ?mh (Fmt ?bh) ?q
      = (Ok (length (message_bytes ?mh (Fmt ?bh))), ?q\<lparr>sl_arr := message_bytes ?mh (Fmt ?bh)
          @ drop (length (message_bytes ?mh (Fmt ?bh))) (sl_arr ?q)\<rparr>)"
    using assms(1) by (intro messageHeader_encode_ok) (auto simp: basicHeader_valid_def)
  have "length (basic_bytes ?bh) \<le> length (sl_arr p)"
    using assms(2,3) by (simp add: sl_ok_def sl_cap_def)
  then have "sl_from ?n (messageHeader_encode ?mh (Fmt ?bh)) ?p1
      = (Ok (length (message_bytes ?mh (Fmt ?bh))),
         p\<lparr>sl_arr := header_bytes h @ drop (length (header_bytes h)) (sl_arr p)\<rparr>)"
    using m assms(3) by (simp add: sl_from_def header_bytes_def add.commute)
  with b show ?thesis
    by (simp add: header_Encode_def go_bind_def go_wrap_def go_return_def header_bytes_def)
qed

text \<open>
  The other direction: a buffer that is shorter than the basic header makes the encoder panic. The
  message header may reach past the slice's length (it is re-sliced up to the capacity), the basic
  header may not.
\<close>

lemma basicHeader_encode_short:
  assumes "2 \<le> Csid bh" "Csid bh \<le> 65599" "sl_len p < length (basic_bytes bh)" "3 \<le> sl_cap p"
  shows "(\<exists>q. basicHeader_encode bh p = (Panic IndexOutOfRange, q))
    \<or> (320 \<le> Csid bh \<and> 0 < sl_len p \<and> (\<exists>q. basicHeader_encode bh p = (Ok 3, q) \<and> sl_len q = sl_len p))"
proof -
  consider "Csid bh < 64" | "64 \<le> Csid bh" "Csid bh < 320" | "64 \<le> Csid bh" "320 \<le> Csid bh"
    by fastforce
  then show ?thesis
    using assms
    by cases (auto simp: basicHeader_encode_def length_basic_bytes Let_def go_bind_def
        go_return_def sl_set_def sl_sub_def sl_cap_def not_less [symmetric])
qed

lemma header_Encode_short:
  assumes "basicHeader_valid (basic_header h)" "3 \<le> sl_cap p"
    "sl_len p < length (basic_bytes (basic_header h))"
  shows "\<exists>e q. header_Encode h p = (Panic e, q)"
  using basicHeader_encode_short [OF _ _ assms(3,2)] assms
  by (auto simp: header_Encode_def basicHeader_valid_def go_bind_def go_wrap_def sl_from_def
      length_basic_bytes split: if_splits)

lemma header_Encode_csid:
  "Csid (basic_header h) < 2 \<or> 65599 < Csid (basic_header h) \<Longrightarrow>
    header_Encode h p = (Err (Wrap ''encode basic header'' errCsid), p)"
  by (auto simp: header_Encode_def basicHeader_encode_def Let_def go_bind_def go_wrap_def
      go_fail_def word_le_nat_alt word_less_nat_alt not_le)

end
