(* ===== verification/Chunk_Message.thy ===== *)
theory Chunk_Message
  imports Chunk_Header
begin

text \<open>
  \<open>pkg/rtmp/chunk\<close>: chunks (\<open>chunk.go\<close>), chunk streams (\<open>stream.go\<close>) and the constructors of the
  messages the server sends (\<open>message.go\<close>). A \<open>Stream\<close> embeds a \<open>Chunk\<close>, so \<open>stream\<close> extends the
  record \<open>chunk\<close>; the fields Go promotes from the embedded headers are reached by the getters.

  Chunk data is the list of its bytes: the slices the code stores there come from \<open>make\<close>, from a
  filled buffer or from cutting a prefix off, and are used up to their length.
\<close>

section \<open>Chunks\<close>

record chunk =
  hdr :: header
  ChunkData :: bytes

definition zero_chunk :: chunk where
  "zero_chunk = \<lparr>hdr = zero_header, ChunkData = []\<rparr>"

definition chunk_loadOptions :: "(chunk \<Rightarrow> chunk) list \<Rightarrow> chunk \<Rightarrow> chunk" where
  "chunk_loadOptions opts c = fold (\<lambda>opt x. opt x) opts c"

definition New :: "(chunk \<Rightarrow> chunk) list \<Rightarrow> chunk" where
  "New opts = chunk_loadOptions opts zero_chunk"

definition GetChunkFmt :: "'a chunk_scheme \<Rightarrow> u8" where
  "GetChunkFmt c = Fmt (basic_header (hdr c))"

definition GetChunkCsid :: "'a chunk_scheme \<Rightarrow> u32" where
  "GetChunkCsid c = Csid (basic_header (hdr c))"

definition GetChunkTimestamp :: "'a chunk_scheme \<Rightarrow> u32" where
  "GetChunkTimestamp c = Timestamp (message_header (hdr c))"

definition GetChunkMessageLength :: "'a chunk_scheme \<Rightarrow> u32" where
  "GetChunkMessageLength c = MessageLength (message_header (hdr c))"

definition GetChunkMessageTypeID :: "'a chunk_scheme \<Rightarrow> RtmpMessageTypeID" where
  "GetChunkMessageTypeID c = MessageTypeID (message_header (hdr c))"

definition GetChunkMessageStreamID :: "'a chunk_scheme \<Rightarrow> u32" where
  "GetChunkMessageStreamID c = MessageStreamID (message_header (hdr c))"

definition GetChunkExtendTimestamp :: "'a chunk_scheme \<Rightarrow> u32" where
  "GetChunkExtendTimestamp c = ExtendedTimestamp (hdr c)"

definition GetChunkHeader :: "'a chunk_scheme \<Rightarrow> header" where
  "GetChunkHeader c = hdr c"

definition GetChunkData :: "'a chunk_scheme \<Rightarrow> bytes" where
  "GetChunkData c = ChunkData c"

definition WithChunkFmt :: "u8 \<Rightarrow> chunk \<Rightarrow> chunk" where
  "WithChunkFmt f = hdr_update (basic_header_update (Fmt_update (\<lambda>_. f)))"

definition WithChunkCsid :: "u32 \<Rightarrow> chunk \<Rightarrow> chunk" where
  "WithChunkCsid csid = hdr_update (basic_header_update (Csid_update (\<lambda>_. csid)))"

definition WithChunkTimestamp :: "u32 \<Rightarrow> chunk \<Rightarrow> chunk" where
  "WithChunkTimestamp t = hdr_update (message_header_update (Timestamp_update (\<lambda>_. t)))"

definition WithChunkMessageLength :: "u32 \<Rightarrow> chunk \<Rightarrow> chunk" where
  "WithChunkMessageLength n = hdr_update (message_header_update (MessageLength_update (\<lambda>_. n)))"

definition WithChunkMessageTypeID :: "RtmpMessageTypeID \<Rightarrow> chunk \<Rightarrow> chunk" where
  "WithChunkMessageTypeID i = hdr_update (message_header_update (MessageTypeID_update (\<lambda>_. i)))"

definition WithChunkMessageStreamID :: "u32 \<Rightarrow> chunk \<Rightarrow> chunk" where
  "WithChunkMessageStreamID i =
     hdr_update (message_header_update (MessageStreamID_update (\<lambda>_. i)))"

definition WithChunkExtendedTimestamp :: "u32 \<Rightarrow> chunk \<Rightarrow> chunk" where
  "WithChunkExtendedTimestamp t = hdr_update (ExtendedTimestamp_update (\<lambda>_. t))"

definition WithChunkData :: "bytes \<Rightarrow> chunk \<Rightarrow> chunk" where
  "WithChunkData d = ChunkData_update (\<lambda>_. d)"

lemmas chunk_getters = GetChunkFmt_def GetChunkCsid_def GetChunkTimestamp_def
  GetChunkMessageLength_def GetChunkMessageTypeID_def GetChunkMessageStreamID_def
  GetChunkExtendTimestamp_def GetChunkHeader_def GetChunkData_def

lemmas chunk_options = WithChunkFmt_def WithChunkCsid_def WithChunkTimestamp_def
  WithChunkMessageLength_def WithChunkMessageTypeID_def WithChunkMessageStreamID_def
  WithChunkExtendedTimestamp_def WithChunkData_def

section \<open>Chunk streams\<close>

record stream = chunk +
  FirstChunk :: bool
  HasRead :: u32
  IsIntergral :: bool
  TimestampDelta :: u32
  IsExtendedTimestamp :: bool

definition zero_stream :: stream where
  "zero_stream = \<lparr>hdr = zero_header, ChunkData = [], FirstChunk = False, HasRead = 0,
     IsIntergral = False, TimestampDelta = 0, IsExtendedTimestamp = False\<rparr>"

definition WithChunkStreamFmt :: "u8 \<Rightarrow> stream \<Rightarrow> stream" where
  "WithChunkStreamFmt f = hdr_update (basic_header_update (Fmt_update (\<lambda>_. f)))"

definition WithChunkStreamCsid :: "u32 \<Rightarrow> stream \<Rightarrow> stream" where
  "WithChunkStreamCsid csid = hdr_update (basic_header_update (Csid_update (\<lambda>_. csid)))"

definition WithChunkStreamTimeStamp :: "u32 \<Rightarrow> stream \<Rightarrow> stream" where
  "WithChunkStreamTimeStamp t = hdr_update (message_header_update (Timestamp_update (\<lambda>_. t)))"

definition WithChunkStreamMessageLength :: "u32 \<Rightarrow> stream \<Rightarrow> stream" where
  "WithChunkStreamMessageLength n =
     hdr_update (message_header_update (MessageLength_update (\<lambda>_. n)))"

definition WithChunkStreamMessageTypeID :: "RtmpMessageTypeID \<Rightarrow> stream \<Rightarrow> stream" where
  "WithChunkStreamMessageTypeID i =
     hdr_update (message_header_update (MessageTypeID_update (\<lambda>_. i)))"

definition WithChunkStreamMessageStreamID :: "u32 \<Rightarrow> stream \<Rightarrow> stream" where
  "WithChunkStreamMessageStreamID i =
     hdr_update (message_header_update (MessageStreamID_update (\<lambda>_. i)))"

definition WithChunkStreamExtendedTimestamp :: "u32 \<Rightarrow> stream \<Rightarrow> stream" where
  "WithChunkStreamExtendedTimestamp t = hdr_update (ExtendedTimestamp_update (\<lambda>_. t))"

definition WithChunkStreamFirstChunk :: "bool \<Rightarrow> stream \<Rightarrow> stream" where
  "WithChunkStreamFirstChunk b = FirstChunk_update (\<lambda>_. b)"

lemmas stream_options = WithChunkStreamFmt_def WithChunkStreamCsid_def
  WithChunkStreamTimeStamp_def WithChunkStreamMessageLength_def WithChunkStreamMessageTypeID_def
  WithChunkStreamMessageStreamID_def WithChunkStreamExtendedTimestamp_def
  WithChunkStreamFirstChunk_def

definition stream_loadOptions :: "(stream \<Rightarrow> stream) list \<Rightarrow> stream \<Rightarrow> stream res" where
  "stream_loadOptions opts s0 =
     (let s = fold (\<lambda>opt x. opt x) opts s0
      in if Fmt (basic_header (hdr s)) > 3 then Err errFmt
         else if Csid (basic_header (hdr s)) < 2 \<or> Csid (basic_header (hdr s)) > 65559
         then Err errCsid
         else Ok s)"

definition NewStream :: "(stream \<Rightarrow> stream) list \<Rightarrow> stream res" where
  "NewStream opts = stream_loadOptions opts zero_stream"

definition stream_Reset :: "stream \<Rightarrow> stream" where
  "stream_Reset s = s\<lparr>HasRead := 0, IsIntergral := False\<rparr>"

section \<open>Messages\<close>

definition errProcotolControlMessageLength :: error where
  "errProcotolControlMessageLength =
     ErrNew ''incorrect protocol control message length, require at least 4''"

definition errUserControlMessageLength :: error where
  "errUserControlMessageLength =
     ErrNew ''incorrect user control message length, require at least 6''"

definition errProcotolControlMessageTypeID :: error where
  "errProcotolControlMessageTypeID = ErrNew ''incorrect protocol message type id''"

text \<open>\<open>common.UintAsBytes(value, data[lo:hi], true)\<close> on the data of a chunk that is long enough.\<close>

definition put_be :: "nat \<Rightarrow> nat \<Rightarrow> u32 \<Rightarrow> bytes \<Rightarrow> bytes" where
  "put_be lo hi v d = take lo d @ UintAsBytes v (take (hi - lo) (drop lo d)) True @ drop hi d"

definition NewProcotolControlMessage :: "RtmpMessageTypeID \<Rightarrow> u32 \<Rightarrow> u32 \<Rightarrow> chunk res" where
  "NewProcotolControlMessage typeId len val =
     (if len < 4 then Err errProcotolControlMessageLength
      else if typeId = MsgSetChunkSize \<or> typeId = MsgAbortMessage
           \<or> typeId = MsgAcknowledgement \<or> typeId = MsgWindowAcknowledgementSize
           \<or> typeId = MsgSetPeerBandwidth
      then
        (let msg = New [WithChunkFmt 0, WithChunkCsid 2, WithChunkTimestamp 0,
                        WithChunkMessageLength len, WithChunkMessageTypeID typeId,
                        WithChunkMessageStreamID 0, WithChunkData (replicate (unat len) 0)]
         in Ok (msg\<lparr>ChunkData := put_be 0 4 val (ChunkData msg)\<rparr>))
      else Err errProcotolControlMessageTypeID)"

definition NewlUserControlMessage :: "u32 \<Rightarrow> u32 \<Rightarrow> chunk res" where
  "NewlUserControlMessage eventType buflen =
     (if buflen < 6 then Err errUserControlMessageLength
      else
        (let msg = New [WithChunkFmt 0, WithChunkCsid 2, WithChunkTimestamp 0,
                        WithChunkMessageLength buflen, WithChunkMessageTypeID MsgUserControlMessage,
                        WithChunkMessageStreamID 1, WithChunkData (replicate (unat buflen) 0)];
             d1 = (ChunkData msg)[0 := ucast (drop_bit 8 eventType AND 0xff)];
             d2 = d1[1 := ucast (eventType AND 0xff)]
         in Ok (msg\<lparr>ChunkData := put_be 2 6 1 d2\<rparr>)))"

text \<open>
  The AMF0 encoder is an argument: it appends the encoding of one value to the buffer or fails.
\<close>

fun encode_args :: "('v \<Rightarrow> error + bytes) \<Rightarrow> 'v list \<Rightarrow> bytes \<Rightarrow> bytes res" where
  "encode_args amfEncode [] buffer = Ok buffer"
| "encode_args amfEncode (v # vs) buffer =
     (case amfEncode v of
        Inl e \<Rightarrow> Err (Wrap ''amf encode value'' e)
      | Inr bs \<Rightarrow> encode_args amfEncode vs (buffer @ bs))"

definition NewCommandMessage ::
  "('v \<Rightarrow> error + bytes) \<Rightarrow> u32 \<Rightarrow> u32 \<Rightarrow> 'v list \<Rightarrow> chunk res" where
  "NewCommandMessage amfEncode csid streamId args =
     (case encode_args amfEncode args [] of
        Err e \<Rightarrow> Err e
      | Panic p \<Rightarrow> Panic p
      | Ok data \<Rightarrow> Ok (New [WithChunkFmt 0, WithChunkCsid csid, WithChunkTimestamp 0,
                        WithChunkMessageLength (of_nat (length data)),
                        WithChunkMessageTypeID MsgAMF0CommandMessage,
                        WithChunkMessageStreamID streamId, WithChunkData data]))"

section \<open>What the constructors build\<close>

definition message_ok :: "'a chunk_scheme \<Rightarrow> bool" where
  "message_ok m \<longleftrightarrow> unat (GetChunkMessageLength m) = length (ChunkData m)"

lemma New_fields [simp]:
  "New [WithChunkFmt f, WithChunkCsid csid, WithChunkTimestamp t, WithChunkMessageLength n,
        WithChunkMessageTypeID i, WithChunkMessageStreamID sid, WithChunkData d]
   = \<lparr>hdr = \<lparr>basic_header = \<lparr>Fmt = f, Csid = csid\<rparr>,
            message_header = \<lparr>Timestamp = t, MessageLength = n, MessageTypeID = i,
                              MessageStreamID = sid\<rparr>,
            ExtendedTimestamp = 0\<rparr>, ChunkData = d\<rparr>"
  by (simp add: New_def chunk_loadOptions_def chunk_options zero_chunk_def zero_header_def
      zero_basicHeader_def zero_messageHeader_def)

lemma length_put_be [simp]: "hi \<le> length d \<Longrightarrow> lo \<le> hi \<Longrightarrow> length (put_be lo hi v d) = length d"
  by (simp add: put_be_def)

lemma NewProcotolControlMessage_ok:
  "NewProcotolControlMessage typeId len v = Ok m \<Longrightarrow>
     message_ok m \<and> take 4 (ChunkData m) = be_bytes 4 v \<and> GetChunkCsid m = 2
     \<and> GetChunkMessageTypeID m = typeId \<and> GetChunkMessageLength m = len
     \<and> (\<forall>b \<in> set (drop 4 (ChunkData m)). b = 0)"
  by (auto simp: NewProcotolControlMessage_def message_ok_def chunk_getters put_be_def
      word_less_nat_alt not_less in_set_conv_nth split: if_splits)

end
