(* ===== verification/Conn_State.thy ===== *)
theory Conn_State
  imports Chunk_Message
begin

text \<open>
  The state of a connection (\<open>pkg/rtmp/connection/connection.go\<close>, \<open>ack_window.go\<close>) and its input and
  output: \<open>Init\<close>, \<open>Read\<close>, \<open>Write\<close>, \<open>Flush\<close>, \<open>Close\<close>, \<open>Peek\<close>, \<open>Discard\<close>.

  The network is modelled by what the code can observe of it: the bytes the peer sends that are not
  read yet (\<open>rd_pending\<close>, the buffered reader included), the error a read meets after them
  (\<open>rd_end\<close>), whether our side was closed, and the bytes written so far (\<open>wire_out\<close>). How a write
  ends is an argument of \<open>Flush\<close>. \<open>sync.Pool\<close>s hold the buffers put into them; which buffer a \<open>Get\<close>
  returns is an argument of the operations that call it.
\<close>

record ackWindowSize =
  WindowSize :: u32
  NBytes :: u32
  SequenceNumber :: u32

record connection =
  Rwc_set :: bool                  \<comment> \<open>\<open>c.Rwc != nil\<close>\<close>
  DecodeHdrPool_set :: bool
  EncodeHdrPool_set :: bool
  NewChunkPool_set :: bool
  rd_pending :: bytes
  rd_end :: error
  rwc_closed :: bool
  wire_out :: bytes
  ReadBufSize :: int
  reader_size :: int
  RemoteChunkSize :: u32
  InAckSize :: ackWindowSize
  LocalChunkSize :: u32
  OutAckSize :: ackWindowSize
  writeBuf :: "gslice list"
  TransactionID :: int
  messages :: "u32 \<Rightarrow> stream option option"   \<comment> \<open>\<open>Some None\<close>: the key is bound to a nil pointer\<close>
  EncodeHdrPool :: "gslice list"

section \<open>Initialisation\<close>

definition errRawConnection :: error where
  "errRawConnection = ErrNew ''raw connection required''"
definition errReadHdrPoll :: error where
  "errReadHdrPoll = ErrNew ''read header pool required''"
definition errChunkEncodePool :: error where
  "errChunkEncodePool = ErrNew ''chunk encode pool required''"
definition errNewChunkPool :: error where
  "errNewChunkPool = ErrNew ''new chunk pool required''"

definition conn_Init :: "(connection, unit) go" where
  "conn_Init c =
     (if \<not> Rwc_set c then (Err errRawConnection, c)
      else if \<not> DecodeHdrPool_set c then (Err errReadHdrPoll, c)
      else if \<not> EncodeHdrPool_set c then (Err errChunkEncodePool, c)
      else if \<not> NewChunkPool_set c then (Err errNewChunkPool, c)
      else
        (let c = (if ReadBufSize c > 0 then c\<lparr>reader_size := max 16 (ReadBufSize c)\<rparr>
                  else c\<lparr>reader_size := 4096\<rparr>);
             c = (if RemoteChunkSize c < 128 then c\<lparr>RemoteChunkSize := 128\<rparr> else c);
             c = (if LocalChunkSize c \<le> 128 then c\<lparr>LocalChunkSize := 4096\<rparr> else c);
             c = (if WindowSize (OutAckSize c) \<le> 0
                  then c\<lparr>OutAckSize := (OutAckSize c)\<lparr>WindowSize := 2500000\<rparr>\<rparr> else c);
             c = c\<lparr>writeBuf := []\<rparr>
         in (Ok (), c\<lparr>messages := Map.empty\<rparr>)))"

section \<open>Input\<close>

text \<open>The error of a read that finds no more bytes.\<close>

definition read_error :: "connection \<Rightarrow> error" where
  "read_error c = (if rwc_closed c then ErrNetClosed else rd_end c)"

text \<open>
  \<open>io.ReadAtLeast(c.Reader, p, len(p))\<close> for a buffer of \<open>n\<close> bytes: all of them, or an error that is
  \<open>io.EOF\<close> only if no byte was read.
\<close>

definition conn_Read :: "nat \<Rightarrow> (connection, bytes) go" where
  "conn_Read n c =
     (if n \<le> length (rd_pending c)
      then (Ok (take n (rd_pending c)), c\<lparr>rd_pending := drop n (rd_pending c)\<rparr>)
      else
        (let e = (if read_error c = ErrEOF \<and> rd_pending c \<noteq> [] then ErrUnexpectedEOF
                  else read_error c);
             c1 = c\<lparr>rd_pending := []\<rparr>
         in (Err e, if e = ErrEOF then c1\<lparr>rwc_closed := True\<rparr> else c1)))"

definition conn_Peek :: "nat \<Rightarrow> (connection, bytes) go" where
  "conn_Peek n c =
     (if n \<le> length (rd_pending c) then (Ok (take n (rd_pending c)), c)
      else (Err (read_error c), c))"

definition conn_Discard :: "nat \<Rightarrow> (connection, nat) go" where
  "conn_Discard n c =
     (if n \<le> length (rd_pending c) then (Ok n, c\<lparr>rd_pending := drop n (rd_pending c)\<rparr>)
      else (Err (read_error c), c\<lparr>rd_pending := []\<rparr>))"

definition conn_Close :: "(connection, unit) go" where
  "conn_Close c = (if rwc_closed c then (Err ErrNetClosed, c) else (Ok (), c\<lparr>rwc_closed := True\<rparr>))"

section \<open>Output\<close>

definition conn_Write :: "gslice \<Rightarrow> (connection, nat) go" where
  "conn_Write p c = (Ok (sl_len p), c\<lparr>writeBuf := writeBuf c @ [p]\<rparr>)"

text \<open>The entries at even positions: header, body, header, body, ...\<close>

fun even_entries :: "'a list \<Rightarrow> 'a list" where
  "even_entries [] = []"
| "even_entries [h] = [h]"
| "even_entries (h # b # rest) = h # even_entries rest"

text \<open>\<open>net.Buffers\<close> drops what was written from the front.\<close>

fun buffers_consume :: "nat \<Rightarrow> gslice list \<Rightarrow> gslice list" where
  "buffers_consume n [] = []"
| "buffers_consume n (p # ps) =
     (if sl_len p > n then p\<lparr>sl_arr := drop n (sl_arr p), sl_len := sl_len p - n\<rparr> # ps
      else buffers_consume (n - sl_len p) ps)"

definition buffers_bytes :: "gslice list \<Rightarrow> bytes" where
  "buffers_bytes ps = concat (map sl_bytes ps)"

text \<open>
  \<open>Flush\<close>. \<open>fault = None\<close>: the network takes everything; \<open>Some (k, e)\<close>: it takes \<open>k\<close> bytes and
  fails with \<open>e\<close>. \<open>small_cap\<close>: the capacity left in \<open>c.writeBuf\<close> is below 64.
\<close>

definition conn_Flush :: "(nat \<times> error) option \<Rightarrow> bool \<Rightarrow> (connection, nat) go" where
  "conn_Flush fault small_cap c =
     (if writeBuf c = [] then (Ok 0, c)
      else
        (let hdrs = even_entries (writeBuf c);
             out = buffers_bytes (writeBuf c);
             nw = (case fault of None \<Rightarrow> length out | Some (k, e) \<Rightarrow> min k (length out));
             c1 = c\<lparr>wire_out := wire_out c @ take nw out,
                    writeBuf := buffers_consume nw (writeBuf c)\<rparr>;
             c2 = (if small_cap then c1\<lparr>writeBuf := []\<rparr> else c1);
             c3 = c2\<lparr>EncodeHdrPool := EncodeHdrPool c2 @ rev hdrs\<rparr>
         in (case fault of None \<Rightarrow> (Ok nw, c3) | Some (k, e) \<Rightarrow> (Err e, c3))))"

section \<open>Protocol control messages\<close>

definition ResponseAcknowledgementMessage :: "(connection, unit) go" where
  "ResponseAcknowledgementMessage = go_return ()"

definition HandleSetChunkSizeMessage :: "'a chunk_scheme \<Rightarrow> connection \<Rightarrow> connection" where
  "HandleSetChunkSizeMessage msg c = c\<lparr>RemoteChunkSize := BytesAsUint32 (ChunkData msg) True\<rparr>"

definition HandleAcknowledgementMessage :: "'a chunk_scheme \<Rightarrow> connection \<Rightarrow> connection" where
  "HandleAcknowledgementMessage msg c = c"

definition HandleWindowAcknowledgementSizeMessage :: "'a chunk_scheme \<Rightarrow> connection \<Rightarrow> connection" where
  "HandleWindowAcknowledgementSizeMessage msg c = c"

section \<open>The reader interface\<close>

text \<open>
  What the readers of this code rely on: a read of \<open>n\<close> bytes gives the next \<open>n\<close> pending bytes when
  there are that many, and an error otherwise; it never panics.
\<close>

locale byte_reader =
  fixes read :: "nat \<Rightarrow> 's \<Rightarrow> bytes res \<times> 's"
    and pending :: "'s \<Rightarrow> bytes"
    and set_pending :: "bytes \<Rightarrow> 's \<Rightarrow> 's"
  assumes read_enough:
      "n \<le> length (pending s) \<Longrightarrow>
        read n s = (Ok (take n (pending s)), set_pending (drop n (pending s)) s)"
    and read_short: "length (pending s) < n \<Longrightarrow> \<exists>e s1. read n s = (Err e, s1) \<and> pending s1 = []"
    and pending_set: "pending (set_pending bs s) = bs"
begin

lemma read_append:
  "pending s = bs @ rest \<Longrightarrow> read (length bs) s = (Ok bs, set_pending rest s)"
  by (simp add: read_enough)

lemma read_uint_enough:
  "pending s = bs @ rest \<Longrightarrow> n = length bs \<Longrightarrow>
    ReadBytesAsUint32 read n be s = (Ok (BytesAsUint32 bs be), set_pending rest s)"
  by (simp add: ReadBytesAsUint32_def go_bind_def go_return_def read_append)

lemma read_uint_short:
  "length (pending s) < n \<Longrightarrow> \<exists>e s1. ReadBytesAsUint32 read n be s = (Err e, s1) \<and> pending s1 = []"
  using read_short [of s n] by (auto simp: ReadBytesAsUint32_def go_bind_def)

text \<open>Reading an integer another side wrote gives that integer back, and consumes just its bytes.\<close>

lemma read_written_be:
  "pending s = be_bytes n v @ rest \<Longrightarrow>
    ReadBytesAsUint32 read n True s = (Ok (take_bit (8 * n) v), set_pending rest s)"
  by (simp add: read_uint_enough)

lemma read_written_le:
  "pending s = le_bytes n v @ rest \<Longrightarrow>
    ReadBytesAsUint32 read n False s = (Ok (take_bit (8 * n) v), set_pending rest s)"
  by (simp add: read_uint_enough)

lemma read_uint_pending:
  assumes "ReadBytesAsUint32 read n be s = (r, s1)"
  shows "(\<exists>v. r = Ok v \<and> n \<le> length (pending s) \<and> s1 = set_pending (drop n (pending s)) s)
    \<or> (\<exists>e. r = Err e \<and> pending s1 = [] \<and> length (pending s) < n)"
proof (cases "n \<le> length (pending s)")
  case True
  then have "ReadBytesAsUint32 read n be s
      = (Ok (BytesAsUint32 (take n (pending s)) be), set_pending (drop n (pending s)) s)"
    by (simp add: ReadBytesAsUint32_def go_bind_def go_return_def read_enough)
  with assms True show ?thesis by auto
next
  case False
  with read_uint_short [of s n be] assms show ?thesis by auto
qed

end

interpretation conn_rd: byte_reader conn_Read rd_pending "\<lambda>bs. rd_pending_update (\<lambda>_. bs)"
  by unfold_locales (auto simp: conn_Read_def Let_def)

section \<open>Facts about the buffers\<close>

lemma buffers_consume_all: "buffers_consume (length (buffers_bytes ps)) ps = []"
  if "\<forall>p \<in> set ps. sl_ok p"
  using that
  by (induction ps) (auto simp: buffers_bytes_def sl_bytes_def sl_ok_def sl_cap_def)

lemma conn_Init_bounds:
  "conn_Init c = (Ok (), c1) \<Longrightarrow>
    128 \<le> RemoteChunkSize c1 \<and> 128 < LocalChunkSize c1 \<and> 0 < WindowSize (OutAckSize c1)
    \<and> messages c1 = Map.empty \<and> writeBuf c1 = []"
  by (auto simp: conn_Init_def Let_def not_less not_le word_gt_0 split: if_splits)

text \<open>A connection to try things on.\<close>

definition sample_conn :: "bytes \<Rightarrow> connection" where
  "sample_conn input = \<lparr>Rwc_set = True, DecodeHdrPool_set = True, EncodeHdrPool_set = True,
     NewChunkPool_set = True, rd_pending = input, rd_end = ErrEOF, rwc_closed = False, wire_out = [],
     ReadBufSize = 8192, reader_size = 8192, RemoteChunkSize = 128,
     InAckSize = \<lparr>WindowSize = 0, NBytes = 0, SequenceNumber = 0\<rparr>, LocalChunkSize = 128,
     OutAckSize = \<lparr>WindowSize = 2500000, NBytes = 0, SequenceNumber = 0\<rparr>, writeBuf = [],
     TransactionID = 0, messages = Map.empty, EncodeHdrPool = []\<rparr>"

end
