(* ===== verification/Conn_Recv.thy ===== *)
theory Conn_Recv
  imports Conn_State
begin

text \<open>
  Receiving (\<open>RecvIntegralMessage\<close> and its three readers in \<open>pkg/rtmp/connection/connection.go\<close>).

  A chunk stream is a pointer in \<open>c.messages\<close> that the readers mutate in place: they run on the pair
  of the connection and the stream (\<open>rcv\<close>), and \<open>with_stream\<close> writes the stream back under its key
  whatever the outcome. The receive loop is total: every iteration that does not end it has consumed
  at least the first byte of a basic header.
\<close>

type_synonym rcv = "connection \<times> stream"

section \<open>The basic header\<close>

definition readChunkBasicHeader :: "(connection, u8 \<times> u32) go" where
  "readChunkBasicHeader =
     go_bind (go_wrap ''read the 1st byte of chunk basic header''
                (ReadBytesAsUint32 conn_Read 1 True)) (\<lambda>h.
     let f = ucast (drop_bit 6 h); csid = h AND 0x3f
     in if csid = 0 \<or> csid = 1 then
          go_bind (go_wrap ''read the next bytes of chunk basic header''
                     (ReadBytesAsUint32 conn_Read (1 + unat csid) False)) (\<lambda>id.
          go_return (f, id + 64))
        else go_return (f, csid))"

section \<open>The message header\<close>

definition on_conn :: "(connection, 'a) go \<Rightarrow> (rcv, 'a) go" where
  "on_conn m s = (case s of (c, msg) \<Rightarrow> (case m c of (r, c1) \<Rightarrow> (r, (c1, msg))))"

definition upd_msg :: "(stream \<Rightarrow> stream) \<Rightarrow> (rcv, unit) go" where
  "upd_msg f s = (case s of (c, msg) \<Rightarrow> (Ok (), (c, f msg)))"

text \<open>The timestamp (or its delta) of a header of format 0, 1 or 2.\<close>

definition read_timestamp :: "u8 \<Rightarrow> bytes \<Rightarrow> stream \<Rightarrow> stream" where
  "read_timestamp tmpFmt buf msg =
     (let timestamp = BytesAsUint32 (take 3 buf) True;
          msg = msg\<lparr>TimestampDelta := timestamp\<rparr>;
          msg = (if timestamp \<ge> 0xffffff then msg\<lparr>IsExtendedTimestamp := True\<rparr> else msg)
      in if \<not> IsExtendedTimestamp msg then
           (if tmpFmt = 0 then WithChunkStreamTimeStamp timestamp msg
            else WithChunkStreamTimeStamp (GetChunkTimestamp msg + timestamp) msg)
         else msg)"

text \<open>Length, type and (format 0) stream id.\<close>

definition read_length_type :: "u8 \<Rightarrow> bytes \<Rightarrow> (rcv, unit) go" where
  "read_length_type tmpFmt buf s =
     (case s of (c, msg) \<Rightarrow>
        (let payloadLength = BytesAsUint32 (take 3 (drop 3 buf)) True
         in if HasRead msg > 0 \<and> GetChunkMessageLength msg \<noteq> payloadLength
            then (Err (ErrNew ''message length mismatch while read partial chunk message''), s)
            else
              (let msg = WithChunkStreamMessageLength payloadLength msg;
                   msg = WithChunkStreamMessageTypeID (BytesAsUint32 (take 1 (drop 6 buf)) True) msg;
                   msg = (if tmpFmt = 0
                          then WithChunkStreamMessageStreamID
                                 (BytesAsUint32 (take 4 (drop 7 buf)) False) msg
                          else msg)
               in (Ok (), (c, msg)))))"

definition parse_message_header :: "u8 \<Rightarrow> bytes \<Rightarrow> (rcv, unit) go" where
  "parse_message_header tmpFmt buf =
     (if tmpFmt \<le> 2 then
        go_bind (upd_msg (read_timestamp tmpFmt buf)) (\<lambda>_.
        if tmpFmt \<le> 1 then read_length_type tmpFmt buf else go_return ())
      else
        upd_msg (\<lambda>msg. if FirstChunk msg \<and> \<not> IsExtendedTimestamp msg
                       then WithChunkStreamTimeStamp (GetChunkTimestamp msg + TimestampDelta msg) msg
                       else msg))"

definition read_extended_timestamp :: "(rcv, unit) go" where
  "read_extended_timestamp s =
     (case s of (c, msg) \<Rightarrow>
        if IsExtendedTimestamp msg then
          go_bind (go_wrap ''peek 4 bytes'' (on_conn (conn_Peek 4))) (\<lambda>buffer.
          let extendedTimestamp = BytesAsUint32 buffer True AND 0x7fffffff;
              chunkTimestamp = GetChunkTimestamp msg
          in if \<not> FirstChunk msg \<and> chunkTimestamp > 0 \<and> chunkTimestamp \<noteq> extendedTimestamp
             then go_return ()
             else go_bind (on_conn (conn_Discard 4)) (\<lambda>_.
                  upd_msg (WithChunkStreamTimeStamp extendedTimestamp))) s
        else (Ok (), s))"

text \<open>
  The end of the function: the masked timestamp goes into an option that is built and not applied,
  then the first-chunk mark is cleared.
\<close>

definition finish_message_header :: "stream \<Rightarrow> stream" where
  "finish_message_header msg =
     (let timestamp = GetChunkTimestamp msg AND 0x7fffffff;
          unused = WithChunkStreamTimeStamp timestamp
      in msg\<lparr>FirstChunk := False\<rparr>)"

definition readChunkMessageHeader :: "u8 \<Rightarrow> (rcv, unit) go" where
  "readChunkMessageHeader tmpFmt s =
     (case s of (c, msg) \<Rightarrow>
        if FirstChunk msg \<and> tmpFmt > 0 \<and> \<not> (GetChunkCsid msg = 2 \<and> tmpFmt = 1)
        then (Err (ErrNew ''init chunk stream now, fmt 1 required''), s)
        else if HasRead msg > 0 \<and> tmpFmt = 0
        then (Err (ErrNew ''previous chunk message not integral, but fmt=0''), s)
        else
          go_bind (go_wrap ''read message header''
                     (on_conn (conn_Read (FmtToMessageHdrSize ! unat tmpFmt)))) (\<lambda>buf.
          go_bind (parse_message_header tmpFmt buf) (\<lambda>_.
          go_bind read_extended_timestamp (\<lambda>_.
          upd_msg finish_message_header))) s)"

section \<open>The body\<close>

text \<open>Bytes written at a position of the chunk data, as many as there are.\<close>

definition fill :: "nat \<Rightarrow> bytes \<Rightarrow> bytes \<Rightarrow> bytes" where
  "fill lo bs d = take lo d @ bs @ drop (lo + length bs) d"

text \<open>How much of the message this chunk carries; the buffer of a message at its first chunk.\<close>

definition body_size :: "connection \<Rightarrow> stream \<Rightarrow> u32" where
  "body_size c msg =
     (let sz = GetChunkMessageLength msg - HasRead msg
      in if sz > RemoteChunkSize c then RemoteChunkSize c else sz)"

definition body_alloc :: "stream \<Rightarrow> stream" where
  "body_alloc msg =
     (if HasRead msg = 0
      then msg\<lparr>ChunkData := replicate (unat (GetChunkMessageLength msg)) 0\<rparr> else msg)"

text \<open>After \<open>size\<close> bytes were read into the buffer: count them, and mark the complete message.\<close>

definition body_advance :: "u32 \<Rightarrow> bytes \<Rightarrow> stream \<Rightarrow> stream" where
  "body_advance sz buf msg =
     (let msg = msg\<lparr>ChunkData := fill (unat (HasRead msg)) buf (ChunkData msg),
                    HasRead := HasRead msg + sz\<rparr>
      in if HasRead msg = GetChunkMessageLength msg then msg\<lparr>IsIntergral := True\<rparr> else msg)"

definition read_payload :: "u32 \<Rightarrow> (rcv, unit) go" where
  "read_payload sz s =
     (case s of (c, msg) \<Rightarrow>
        (let lo = unat (HasRead msg); hi = unat (HasRead msg + sz)
         in if \<not> (lo \<le> hi \<and> hi \<le> length (ChunkData msg)) then (Panic SliceOutOfRange, s)
            else
              (case conn_Read (hi - lo) c of
                 (Err e, c1) \<Rightarrow>
                   (Err (Wrap ''read bytes chunk body'' e),
                    (c1, msg\<lparr>ChunkData := fill lo (rd_pending c) (ChunkData msg)\<rparr>))
               | (Panic p, c1) \<Rightarrow> (Panic p, (c1, msg))
               | (Ok buf, c1) \<Rightarrow> (Ok (), (c1, body_advance sz buf msg)))))"

definition readChunkMessageBody :: "(rcv, unit) go" where
  "readChunkMessageBody s =
     (case s of (c, msg) \<Rightarrow>
        if GetChunkMessageLength msg = 0 then (Ok (), (c, msg\<lparr>HasRead := 0, ChunkData := []\<rparr>))
        else read_payload (body_size c msg) (c, body_alloc msg))"

section \<open>The loop\<close>

text \<open>The stream of a chunk stream id, created at its first chunk; a failed \<open>NewStream\<close> stores nil.\<close>

definition lookup_stream :: "u8 \<Rightarrow> u32 \<Rightarrow> (connection, unit) go" where
  "lookup_stream tmpFmt csid c =
     (case messages c csid of
        Some p \<Rightarrow> (Ok (), c)
      | None \<Rightarrow>
          (let msg = (case NewStream [WithChunkStreamFmt tmpFmt, WithChunkStreamCsid csid,
                                      WithChunkStreamFirstChunk True] of
                        Ok s \<Rightarrow> Some s | Err e \<Rightarrow> None | Panic p \<Rightarrow> None)
           in (Ok (), c\<lparr>messages := (messages c)(csid \<mapsto> msg)\<rparr>)))"

definition with_stream :: "u32 \<Rightarrow> (rcv, 'a) go \<Rightarrow> (connection, 'a) go" where
  "with_stream csid m c =
     (case messages c csid of
        Some (Some msg) \<Rightarrow>
          (case m (c, msg) of
             (r, (c1, msg1)) \<Rightarrow> (r, c1\<lparr>messages := (messages c1)(csid \<mapsto> Some msg1)\<rparr>))
      | _ \<Rightarrow> (Panic NilDereference, c))"

text \<open>One iteration: the message if it is complete now.\<close>

definition recv_chunk_body :: "u8 \<Rightarrow> (rcv, stream option) go" where
  "recv_chunk_body tmpFmt =
     go_bind (go_wrap ''read chunk message header'' (readChunkMessageHeader tmpFmt)) (\<lambda>_.
     go_bind (go_wrap ''read chunk message body'' readChunkMessageBody) (\<lambda>_ s.
     (Ok (if IsIntergral (snd s) then Some (snd s) else None), s)))"

definition recv_chunk :: "(connection, stream option) go" where
  "recv_chunk =
     go_bind (go_wrap ''read chunk basic header'' readChunkBasicHeader) (\<lambda>(tmpFmt, csid).
     go_bind (lookup_stream tmpFmt csid) (\<lambda>_.
     with_stream csid (recv_chunk_body tmpFmt)))"

subsection \<open>Every iteration consumes input\<close>

definition shrinks :: "('s \<Rightarrow> bytes) \<Rightarrow> ('s, 'a) go \<Rightarrow> bool" where
  "shrinks pend m \<longleftrightarrow> (\<forall>s. length (pend (snd (m s))) \<le> length (pend s))"

lemma shrinksD: "shrinks pend m \<Longrightarrow> m s = (r, t) \<Longrightarrow> length (pend t) \<le> length (pend s)"
  unfolding shrinks_def by (metis snd_conv)

lemma shrinks_bind [intro]:
  "shrinks pend m \<Longrightarrow> (\<And>a. shrinks pend (f a)) \<Longrightarrow> shrinks pend (go_bind m f)"
  unfolding shrinks_def go_bind_def
  by (auto split: prod.splits res.splits) (metis order_trans snd_conv)+

lemma shrinks_wrap [intro]: "shrinks pend m \<Longrightarrow> shrinks pend (go_wrap msg m)"
  by (auto simp: shrinks_def go_wrap_def split: prod.splits) (metis snd_conv)

lemma shrinks_return [intro, simp]: "shrinks pend (go_return a)"
  by (simp add: shrinks_def go_return_def)

lemma shrinks_conn_Read: "shrinks rd_pending (conn_Read n)"
  by (auto simp: shrinks_def conn_Read_def Let_def)

lemma shrinks_read_uint: "shrinks rd_pending (ReadBytesAsUint32 conn_Read n be)"
  unfolding ReadBytesAsUint32_def by (intro shrinks_bind shrinks_conn_Read shrinks_return)

lemma shrinks_on_conn: "shrinks rd_pending m \<Longrightarrow> shrinks (rd_pending \<circ> fst) (on_conn m)"
  by (auto simp: shrinks_def on_conn_def split: prod.splits) (metis snd_conv)

lemma shrinks_upd_msg: "shrinks (rd_pending \<circ> fst) (upd_msg f)"
  by (auto simp: shrinks_def upd_msg_def)

lemma shrinks_parse: "shrinks (rd_pending \<circ> fst) (parse_message_header f buf)"
proof -
  have "shrinks (rd_pending \<circ> fst) (read_length_type f buf)"
    by (auto simp: shrinks_def read_length_type_def Let_def)
  then show ?thesis
    by (auto simp: parse_message_header_def intro!: shrinks_bind shrinks_upd_msg)
qed

lemma shrinks_extended: "shrinks (rd_pending \<circ> fst) read_extended_timestamp"
proof -
  have "shrinks rd_pending (conn_Peek 4)" "shrinks rd_pending (conn_Discard 4)"
    by (auto simp: shrinks_def conn_Peek_def conn_Discard_def)
  then have p: "shrinks (rd_pending \<circ> fst) (on_conn (conn_Peek 4))"
    and d: "shrinks (rd_pending \<circ> fst) (on_conn (conn_Discard 4))"
    by (auto intro: shrinks_on_conn)
  have "shrinks (rd_pending \<circ> fst) (go_bind (go_wrap ''peek 4 bytes'' (on_conn (conn_Peek 4)))
      (\<lambda>buffer. if P buffer then go_return () else go_bind (on_conn (conn_Discard 4))
        (\<lambda>_. upd_msg (f buffer))))" for P f
    using p d by (auto intro!: shrinks_bind shrinks_wrap shrinks_upd_msg)
  then show ?thesis
    by (simp add: shrinks_def read_extended_timestamp_def Let_def split: prod.splits)
qed

lemma shrinks_message_header: "shrinks (rd_pending \<circ> fst) (readChunkMessageHeader f)"
proof -
  have "shrinks (rd_pending \<circ> fst)
     (go_bind (go_wrap ''read message header'' (on_conn (conn_Read (FmtToMessageHdrSize ! unat f))))
        (\<lambda>buf. go_bind (parse_message_header f buf) (\<lambda>_.
          go_bind read_extended_timestamp (\<lambda>_. upd_msg finish_message_header))))"
    by (intro shrinks_bind shrinks_wrap shrinks_on_conn shrinks_conn_Read shrinks_parse
        shrinks_extended shrinks_upd_msg)
  then show ?thesis
    by (simp add: shrinks_def readChunkMessageHeader_def split: prod.splits)
qed

lemma shrinks_body: "shrinks (rd_pending \<circ> fst) readChunkMessageBody"
proof -
  have "shrinks (rd_pending \<circ> fst) (read_payload sz)" for sz
    by (auto simp: shrinks_def read_payload_def Let_def split: prod.splits res.splits
        dest: shrinksD [OF shrinks_conn_Read])
  then show ?thesis
    by (auto simp: shrinks_def readChunkMessageBody_def split: prod.splits)
qed

lemma shrinks_with_stream:
  assumes "shrinks (rd_pending \<circ> fst) m"
  shows "shrinks rd_pending (with_stream csid m)"
proof -
  have "length (rd_pending c1) \<le> length (rd_pending c)" if "m (c, msg) = (r, (c1, msg1))" for c msg r c1 msg1
    using shrinksD [OF assms that] by simp
  then show ?thesis
    by (auto simp: shrinks_def with_stream_def split: option.splits prod.splits)
qed

lemma shrinks_recv_body: "shrinks (rd_pending \<circ> fst) (recv_chunk_body f)"
proof -
  have "shrinks (rd_pending \<circ> fst)
    (\<lambda>s. (Ok (if IsIntergral (snd s) then Some (snd s) else None), s :: rcv))"
    by (simp add: shrinks_def)
  then show ?thesis
    unfolding recv_chunk_body_def
    by (intro shrinks_bind shrinks_wrap shrinks_message_header shrinks_body)
qed

lemma readChunkBasicHeader_consumes:
  assumes "readChunkBasicHeader c = (Ok x, c1)"
  shows "length (rd_pending c1) < length (rd_pending c)"
proof -
  from assms obtain h c0 where h: "ReadBytesAsUint32 conn_Read 1 True c = (Ok h, c0)"
    and rest: "(let f = ucast (drop_bit 6 h); csid = h AND 0x3f
     in if csid = 0 \<or> csid = 1 then
          go_bind (go_wrap ''read the next bytes of chunk basic header''
                     (ReadBytesAsUint32 conn_Read (1 + unat csid) False)) (\<lambda>id.
          go_return (f, id + 64))
        else go_return (f, csid)) c0 = (Ok x, c1)"
    unfolding readChunkBasicHeader_def by (auto elim!: go_bind_OkE)
  from conn_rd.read_uint_pending [OF h] have "length (rd_pending c0) < length (rd_pending c)"
    by auto
  moreover have "length (rd_pending c1) \<le> length (rd_pending c0)"
    using rest shrinksD [OF shrinks_read_uint]
    by (auto simp: Let_def go_return_def elim!: go_bind_OkE split: if_splits)
  ultimately show ?thesis by simp
qed

lemma recv_chunk_consumes:
  assumes "recv_chunk c = (Ok x, c1)"
  shows "length (rd_pending c1) < length (rd_pending c)"
proof -
  from assms obtain tmpFmt csid c0 c' u where b: "readChunkBasicHeader c = (Ok (tmpFmt, csid), c0)"
    and l: "lookup_stream tmpFmt csid c0 = (Ok u, c')"
    and w: "with_stream csid (recv_chunk_body tmpFmt) c' = (Ok x, c1)"
    unfolding recv_chunk_def by (auto elim!: go_bind_OkE)
  have "rd_pending c' = rd_pending c0"
    using l by (auto simp: lookup_stream_def Let_def split: option.splits)
  with readChunkBasicHeader_consumes [OF b] shrinksD [OF shrinks_with_stream [OF shrinks_recv_body] w]
  show ?thesis by simp
qed

function RecvIntegralMessage :: "(connection, stream) go" where
  "RecvIntegralMessage c =
     (case recv_chunk c of
        (Ok (Some msg), c1) \<Rightarrow> (Ok msg, c1)
      | (Ok None, c1) \<Rightarrow> RecvIntegralMessage c1
      | (Err e, c1) \<Rightarrow> (Err e, c1)
      | (Panic p, c1) \<Rightarrow> (Panic p, c1))"
  by pat_completeness auto
termination
  by (relation "measure (\<lambda>c. length (rd_pending c))") (auto dest: recv_chunk_consumes [OF sym])

declare RecvIntegralMessage.simps [simp del]

section \<open>The invariant of the stream table\<close>

text \<open>
  A stream sits under its own chunk stream id, has read at most its message, and while a message is
  partly read its buffer has the message's length; a stream marked complete has read all of it. Keys
  bound to nil are the ids \<open>NewStream\<close> refuses.
\<close>

definition stream_inv :: "u32 \<Rightarrow> stream \<Rightarrow> bool" where
  "stream_inv csid s \<longleftrightarrow> GetChunkCsid s = csid \<and> 2 \<le> csid \<and> csid \<le> 65559
     \<and> HasRead s \<le> GetChunkMessageLength s
     \<and> (HasRead s > 0 \<longrightarrow> length (ChunkData s) = unat (GetChunkMessageLength s))
     \<and> (IsIntergral s \<longrightarrow> HasRead s = GetChunkMessageLength s \<and> 0 < HasRead s)"

definition messages_inv :: "(u32 \<Rightarrow> stream option option) \<Rightarrow> bool" where
  "messages_inv M \<longleftrightarrow> (\<forall>csid p. M csid = Some p \<longrightarrow>
     (case p of Some s \<Rightarrow> stream_inv csid s | None \<Rightarrow> csid < 2 \<or> 65559 < csid))"

definition conn_inv :: "connection \<Rightarrow> bool" where
  "conn_inv c \<longleftrightarrow> messages_inv (messages c)"

text \<open>What the readers keep while they run on one stream: its invariant, and the table.\<close>

definition rcv_inv :: "u32 \<Rightarrow> (u32 \<Rightarrow> stream option option) \<Rightarrow> rcv \<Rightarrow> bool" where
  "rcv_inv csid M s \<longleftrightarrow> messages (fst s) = M \<and> stream_inv csid (snd s)"

lemma conn_Read_messages: "conn_Read n c = (r, c1) \<Longrightarrow> messages c1 = messages c"
  by (auto simp: conn_Read_def Let_def split: if_splits)

lemma conn_Read_no_panic: "conn_Read n c \<noteq> (Panic p, c1)"
  by (simp add: conn_Read_def Let_def)

lemma rcv_inv_on_conn:
  "(\<And>c. messages (snd (m c)) = messages c) \<Longrightarrow> go_keeps (rcv_inv csid M) (on_conn m)"
  by (auto simp: go_keeps_def on_conn_def rcv_inv_def split: prod.splits) (metis snd_conv)

lemma rcv_inv_upd:
  "(\<And>s. stream_inv csid s \<Longrightarrow> stream_inv csid (f s)) \<Longrightarrow> go_keeps (rcv_inv csid M) (upd_msg f)"
  by (auto simp: go_keeps_def upd_msg_def rcv_inv_def)

lemma stream_inv_timestamp:
  "stream_inv csid (WithChunkStreamTimeStamp t s) = stream_inv csid s"
  by (simp add: stream_inv_def stream_options chunk_getters)

lemma stream_inv_read_timestamp: "stream_inv csid s \<Longrightarrow> stream_inv csid (read_timestamp f buf s)"
  by (simp add: read_timestamp_def Let_def stream_inv_timestamp)
    (auto simp: stream_inv_def chunk_getters)

lemma rcv_inv_length_type: "go_keeps (rcv_inv csid M) (read_length_type f buf)"
  by (auto simp: go_keeps_def read_length_type_def rcv_inv_def stream_inv_def Let_def
      stream_options chunk_getters word_gt_0)

lemma rcv_inv_parse: "go_keeps (rcv_inv csid M) (parse_message_header f buf)"
  by (auto simp: parse_message_header_def stream_inv_timestamp stream_inv_read_timestamp
      intro!: go_keeps_bind rcv_inv_upd rcv_inv_length_type)

lemma rcv_inv_extended: "go_keeps (rcv_inv csid M) read_extended_timestamp"
proof -
  have "messages (snd (conn_Peek n c)) = messages c" "messages (snd (conn_Discard n c)) = messages c"
    for n c by (simp_all add: conn_Peek_def conn_Discard_def)
  then have "go_keeps (rcv_inv csid M) (go_bind (go_wrap ''peek 4 bytes'' (on_conn (conn_Peek 4)))
      (\<lambda>buffer. if P buffer then go_return () else go_bind (on_conn (conn_Discard 4))
        (\<lambda>_. upd_msg (WithChunkStreamTimeStamp (t buffer)))))" for P t
    by (auto simp: stream_inv_timestamp
        intro!: go_keeps_bind go_keeps_wrap rcv_inv_on_conn rcv_inv_upd)
  then show ?thesis
    by (simp add: go_keeps_def read_extended_timestamp_def Let_def split: prod.splits)
qed

lemma rcv_inv_header: "go_keeps (rcv_inv csid M) (readChunkMessageHeader f)"
proof -
  have "messages (snd (conn_Read n c)) = messages c" for n c
    by (metis conn_Read_messages prod.collapse)
  moreover have "stream_inv csid (finish_message_header s)" if "stream_inv csid s" for s
    using that by (auto simp: finish_message_header_def Let_def stream_inv_def chunk_getters)
  ultimately have "go_keeps (rcv_inv csid M)
     (go_bind (go_wrap ''read message header'' (on_conn (conn_Read (FmtToMessageHdrSize ! unat f))))
        (\<lambda>buf. go_bind (parse_message_header f buf) (\<lambda>_.
          go_bind read_extended_timestamp (\<lambda>_. upd_msg finish_message_header))))"
    by (intro go_keeps_bind go_keeps_wrap rcv_inv_on_conn rcv_inv_parse rcv_inv_extended rcv_inv_upd)
  then show ?thesis
    by (simp add: go_keeps_def readChunkMessageHeader_def split: prod.splits)
qed

subsection \<open>The body\<close>

lemma length_fill [simp]: "lo + length bs \<le> length d \<Longrightarrow> length (fill lo bs d) = length d"
  by (simp add: fill_def)

lemma body_size_le: "HasRead s \<le> GetChunkMessageLength s \<Longrightarrow>
    unat (body_size c s) \<le> unat (GetChunkMessageLength s) - unat (HasRead s)"
  by (auto simp: body_size_def Let_def word_le_nat_alt unat_sub word_less_nat_alt)

lemma unat_read_end:
  "HasRead s \<le> GetChunkMessageLength s \<Longrightarrow>
    unat (HasRead s + body_size c s) = unat (HasRead s) + unat (body_size c s)
    \<and> unat (HasRead s) + unat (body_size c s) \<le> unat (GetChunkMessageLength s)"
proof -
  assume a: "HasRead s \<le> GetChunkMessageLength s"
  from body_size_le [OF a, of c] a
  have b: "unat (HasRead s) + unat (body_size c s) \<le> unat (GetChunkMessageLength s)"
    by (simp add: word_le_nat_alt)
  also have "\<dots> < 2 ^ 32" using unsigned_less [of "GetChunkMessageLength s"] by simp
  finally show ?thesis using b by (simp add: unat_word_ariths)
qed

text \<open>The body reader on a stream that keeps the invariant, all outcomes.\<close>

lemma body_alloc_inv:
  assumes "stream_inv csid s"
  shows "HasRead (body_alloc s) = HasRead s" "GetChunkMessageLength (body_alloc s) = GetChunkMessageLength s"
    "length (ChunkData (body_alloc s)) = unat (GetChunkMessageLength s)"
    "IsIntergral (body_alloc s) = IsIntergral s"
  using assms by (auto simp: body_alloc_def chunk_getters stream_inv_def word_gt_0)

lemma readChunkMessageBody_cases:
  fixes c :: connection
  assumes inv: "stream_inv csid s" and len: "GetChunkMessageLength s \<noteq> 0"
  defines "lo \<equiv> unat (HasRead s)" and "k \<equiv> unat (body_size c s)"
  shows "readChunkMessageBody (c, s) =
    (if k \<le> length (rd_pending c)
     then (Ok (), (c\<lparr>rd_pending := drop k (rd_pending c)\<rparr>,
            body_advance (body_size c s) (take k (rd_pending c)) (body_alloc s)))
     else (Err (Wrap ''read bytes chunk body'' (if read_error c = ErrEOF \<and> rd_pending c \<noteq> []
                 then ErrUnexpectedEOF else read_error c)),
           (snd (conn_Read k c),
            (body_alloc s)\<lparr>ChunkData := fill lo (rd_pending c) (ChunkData (body_alloc s))\<rparr>)))"
proof -
  have h: "HasRead s \<le> GetChunkMessageLength s" using inv by (simp add: stream_inv_def)
  note e = unat_read_end [OF h, of c]
  note al = body_alloc_inv [OF inv]
  show ?thesis
    using len e al
    by (simp add: readChunkMessageBody_def read_payload_def Let_def lo_def k_def conn_Read_def)
qed

lemma body_advance_fields [simp]:
  "HasRead (body_advance sz buf s) = HasRead s + sz"
  "GetChunkMessageLength (body_advance sz buf s) = GetChunkMessageLength s"
  "GetChunkCsid (body_advance sz buf s) = GetChunkCsid s"
  "ChunkData (body_advance sz buf s) = fill (unat (HasRead s)) buf (ChunkData s)"
  "hdr (body_advance sz buf s) = hdr s"
  by (simp_all add: body_advance_def Let_def chunk_getters)

lemma body_alloc_csid [simp]: "GetChunkCsid (body_alloc s) = GetChunkCsid s" "hdr (body_alloc s) = hdr s"
  by (simp_all add: body_alloc_def chunk_getters)

lemma stream_inv_advance:
  assumes inv: "stream_inv csid s" and buf: "length buf = unat (body_size c s)"
    and len: "GetChunkMessageLength s \<noteq> 0"
  shows "stream_inv csid (body_advance (body_size c s) buf (body_alloc s))"
proof -
  have h: "HasRead s \<le> GetChunkMessageLength s" using inv by (simp add: stream_inv_def)
  have "length (fill (unat (HasRead s)) buf (ChunkData (body_alloc s)))
      = unat (GetChunkMessageLength s)"
    using buf unat_read_end [OF h, of c] body_alloc_inv [OF inv] by simp
  moreover have "HasRead s + body_size c s \<le> GetChunkMessageLength s"
    using unat_read_end [OF h, of c] by (simp add: word_le_nat_alt)
  moreover have "HasRead s + body_size c s = GetChunkMessageLength s"
    if "IsIntergral (body_advance (body_size c s) buf (body_alloc s))"
  proof (cases "IsIntergral s")
    case True
    with inv have "HasRead s = GetChunkMessageLength s" by (simp add: stream_inv_def)
    then show ?thesis by (simp add: body_size_def)
  next
    case False
    with that body_alloc_inv [OF inv] show ?thesis
      by (simp add: body_advance_def body_alloc_def Let_def chunk_getters split: if_splits)
  qed
  ultimately show ?thesis
    using inv len body_alloc_inv [OF inv] by (simp add: stream_inv_def word_gt_0)
qed

lemma stream_inv_partial:
  assumes inv: "stream_inv csid s" and buf: "length buf < unat (body_size c s)"
  shows "stream_inv csid ((body_alloc s)
    \<lparr>ChunkData := fill (unat (HasRead s)) buf (ChunkData (body_alloc s))\<rparr>)"
proof -
  have h: "HasRead s \<le> GetChunkMessageLength s" using inv by (simp add: stream_inv_def)
  have "length (fill (unat (HasRead s)) buf (ChunkData (body_alloc s)))
      = unat (GetChunkMessageLength s)"
    using buf unat_read_end [OF h, of c] body_alloc_inv [OF inv] by simp
  then show ?thesis
    using inv body_alloc_inv [OF inv] by (auto simp: stream_inv_def chunk_getters)
qed

lemma rcv_inv_body: "go_keeps (rcv_inv csid M) readChunkMessageBody"
proof (rule go_keepsI)
  fix s :: rcv assume s: "rcv_inv csid M s"
  obtain c msg where cm: "s = (c, msg)" by (cases s)
  from s cm have M: "messages c = M" and inv: "stream_inv csid msg" by (auto simp: rcv_inv_def)
  have r: "messages (snd (conn_Read n c)) = M" for n
    using M by (metis conn_Read_messages prod.collapse)
  show "rcv_inv csid M (snd (readChunkMessageBody s))"
  proof (cases "GetChunkMessageLength msg = 0")
    case True
    with cm M inv show ?thesis
      by (auto simp: readChunkMessageBody_def rcv_inv_def stream_inv_def chunk_getters)
  next
    case False
    show ?thesis
      using cm M r stream_inv_advance [OF inv _ False] stream_inv_partial [OF inv]
      by (simp add: readChunkMessageBody_cases [OF inv False] rcv_inv_def not_le)
  qed
qed

lemma rcv_inv_recv_body: "go_keeps (rcv_inv csid M) (recv_chunk_body f)"
  unfolding recv_chunk_body_def
  by (intro go_keeps_bind go_keeps_wrap rcv_inv_header rcv_inv_body) (simp add: go_keeps_def)

subsection \<open>No panic but for the nil streams\<close>

definition no_panic :: "('s \<Rightarrow> bool) \<Rightarrow> ('s, 'a) go \<Rightarrow> bool" where
  "no_panic P m \<longleftrightarrow> (\<forall>s p t. P s \<longrightarrow> m s \<noteq> (Panic p, t))"

lemma no_panicI: "(\<And>s p t. P s \<Longrightarrow> m s = (Panic p, t) \<Longrightarrow> False) \<Longrightarrow> no_panic P m"
  by (auto simp: no_panic_def)

lemma no_panic_bind:
  assumes "no_panic P m" "go_keeps P m" "\<And>a. no_panic P (f a)"
  shows "no_panic P (go_bind m f)"
proof (rule no_panicI)
  fix s p t assume P: "P s" and "go_bind m f s = (Panic p, t)"
  from this(2) show False
  proof (cases rule: go_bind_PanicE)
    case first with P assms(1) show ?thesis by (auto simp: no_panic_def)
  next
    case (second a s1)
    with P assms(2) have "P s1" by (metis go_keepsD snd_conv)
    with second assms(3) show ?thesis by (auto simp: no_panic_def)
  qed
qed

lemma no_panic_wrap: "no_panic P m \<Longrightarrow> no_panic P (go_wrap msg m)"
  by (auto simp: no_panic_def)

lemma no_panic_on_conn: "(\<And>c p t. m c \<noteq> (Panic p, t)) \<Longrightarrow> no_panic P (on_conn m)"
  by (auto simp: no_panic_def on_conn_def split: prod.splits)

lemma no_panic_upd: "no_panic P (upd_msg f)"
  by (auto simp: no_panic_def upd_msg_def split: prod.splits)

lemma no_panic_return: "no_panic P (go_return a)"
  by (simp add: no_panic_def go_return_def)

lemma no_panic_parse: "no_panic (rcv_inv csid M) (parse_message_header f buf)"
proof -
  have "no_panic (rcv_inv csid M) (read_length_type f buf)"
    by (auto simp: no_panic_def read_length_type_def Let_def split: prod.splits if_splits)
  then show ?thesis
    by (auto simp: parse_message_header_def stream_inv_read_timestamp
        intro!: no_panic_bind no_panic_upd no_panic_return rcv_inv_upd)
qed

lemma no_panic_extended: "no_panic (rcv_inv csid M) read_extended_timestamp"
proof -
  have p: "conn_Peek n c \<noteq> (Panic e, t)" "conn_Discard n c \<noteq> (Panic e, t)" for n c e t
    by (simp_all add: conn_Peek_def conn_Discard_def)
  have m: "messages (snd (conn_Peek n c)) = messages c" "messages (snd (conn_Discard n c)) = messages c"
    for n c by (simp_all add: conn_Peek_def conn_Discard_def)
  have "no_panic (rcv_inv csid M) (go_bind (go_wrap ''peek 4 bytes'' (on_conn (conn_Peek 4)))
      (\<lambda>buffer. if P buffer then go_return () else go_bind (on_conn (conn_Discard 4))
        (\<lambda>_. upd_msg (WithChunkStreamTimeStamp (t buffer)))))" for P t
    using p m
    by (auto intro!: no_panic_bind no_panic_wrap no_panic_on_conn no_panic_upd no_panic_return
        go_keeps_wrap rcv_inv_on_conn)
  then show ?thesis
    by (simp add: no_panic_def read_extended_timestamp_def Let_def split: prod.splits)
qed

lemma no_panic_header: "no_panic (rcv_inv csid M) (readChunkMessageHeader f)"
proof -
  have m: "messages (snd (conn_Read n c)) = messages c" for n c
    by (metis conn_Read_messages prod.collapse)
  have "no_panic (rcv_inv csid M)
     (go_bind (go_wrap ''read message header'' (on_conn (conn_Read (FmtToMessageHdrSize ! unat f))))
        (\<lambda>buf. go_bind (parse_message_header f buf) (\<lambda>_.
          go_bind read_extended_timestamp (\<lambda>_. upd_msg finish_message_header))))"
    using conn_Read_no_panic m
    by (intro no_panic_bind no_panic_wrap no_panic_on_conn no_panic_parse no_panic_extended
        no_panic_upd go_keeps_wrap rcv_inv_on_conn rcv_inv_parse rcv_inv_extended) auto
  then show ?thesis
    by (simp add: no_panic_def readChunkMessageHeader_def split: prod.splits)
qed

lemma no_panic_body: "no_panic (rcv_inv csid M) readChunkMessageBody"
proof (rule no_panicI)
  fix s :: rcv and p t
  assume s: "rcv_inv csid M s" and b: "readChunkMessageBody s = (Panic p, t)"
  obtain c msg where cm: "s = (c, msg)" by (cases s)
  from s cm have inv: "stream_inv csid msg" by (simp add: rcv_inv_def)
  show False
  proof (cases "GetChunkMessageLength msg = 0")
    case True
    with b cm show ?thesis by (simp add: readChunkMessageBody_def)
  next
    case False
    with b cm show ?thesis by (simp add: readChunkMessageBody_cases [OF inv False] split: if_splits)
  qed
qed

lemma no_panic_recv_body: "no_panic (rcv_inv csid M) (recv_chunk_body f)"
  unfolding recv_chunk_body_def
  by (intro no_panic_bind no_panic_wrap no_panic_header no_panic_body go_keeps_wrap
      rcv_inv_header rcv_inv_body) (simp add: no_panic_def)

subsection \<open>The basic header read\<close>

lemma read_uint_messages:
  "ReadBytesAsUint32 conn_Read n be c = (r, c1) \<Longrightarrow> messages c1 = messages c"
  by (auto simp: ReadBytesAsUint32_def go_bind_def go_return_def split: prod.splits res.splits
      dest: conn_Read_messages)

lemma readChunkBasicHeader_messages:
  "readChunkBasicHeader c = (r, c1) \<Longrightarrow> messages c1 = messages c"
  by (auto simp: readChunkBasicHeader_def go_bind_def go_wrap_def go_return_def Let_def
      split: prod.splits res.splits if_splits dest!: read_uint_messages)

lemma read_uint_no_panic: "ReadBytesAsUint32 conn_Read n be c \<noteq> (Panic p, c1)"
  by (auto simp: ReadBytesAsUint32_def go_bind_def go_return_def conn_Read_def Let_def
      split: prod.splits res.splits if_splits)

lemma readChunkBasicHeader_no_panic: "readChunkBasicHeader c \<noteq> (Panic p, c1)"
  using read_uint_no_panic
  by (auto simp: readChunkBasicHeader_def go_return_def Let_def elim!: go_bind_PanicE
      split: if_splits)

lemma take_bit_fits_le:
  "take_bit k (w :: u32) = w \<Longrightarrow> k < 32 \<Longrightarrow> unat w < 2 ^ k"
  by (metis take_bit_nat_less_exp unsigned_take_bit_eq)

lemma csid_6_bits: "unat ((h :: u32) AND 0x3f) < 64"
proof -
  have "h AND 0x3f = take_bit 6 h" by (simp add: take_bit_eq_mask mask_eq_exp_minus_1)
  then show ?thesis using take_bit_nat_less_exp [of 6 "unat h"] by (simp add: unsigned_take_bit_eq)
qed

lemma read_csid_le:
  assumes "ReadBytesAsUint32 conn_Read n False c = (Ok i, c1)" "n = 1 \<or> n = 2"
  shows "unat i < 65536"
proof -
  have "n \<le> length (rd_pending c)"
    using conn_rd.read_uint_pending [OF assms(1)] by auto
  then have "i = BytesAsUint32 (take n (rd_pending c)) False" "length (take n (rd_pending c)) = n"
    using assms(1) by (auto simp: ReadBytesAsUint32_def go_bind_def go_return_def conn_Read_def)
  then have "take_bit (8 * n) i = i"
    by (metis BytesAsUint32_le_fits)
  then have "unat i < 2 ^ (8 * n)" using assms(2) by (intro take_bit_fits_le) auto
  with assms(2) show ?thesis by auto
qed

lemma readChunkBasicHeader_csid:
  assumes "readChunkBasicHeader c = (Ok (f, csid), c1)"
  shows "2 \<le> unat csid \<and> unat csid \<le> 65599"
proof -
  from assms obtain h c0 where
    rest: "(let f = ucast (drop_bit 6 h); csid = h AND 0x3f
     in if csid = 0 \<or> csid = 1 then
          go_bind (go_wrap ''read the next bytes of chunk basic header''
                     (ReadBytesAsUint32 conn_Read (1 + unat csid) False)) (\<lambda>i.
          go_return (f, i + 64))
        else go_return (f, csid)) c0 = (Ok (f, csid), c1)"
    unfolding readChunkBasicHeader_def by (auto elim!: go_bind_OkE)
  show ?thesis
  proof (cases "h AND 0x3f = 0 \<or> h AND 0x3f = 1")
    case True
    with rest obtain i c' where "ReadBytesAsUint32 conn_Read (1 + unat (h AND 0x3f)) False c0 = (Ok i, c')"
      and csid: "csid = i + 64"
      by (auto simp: Let_def go_return_def elim!: go_bind_OkE)
    moreover have "1 + unat (h AND 0x3f) = 1 \<or> 1 + unat (h AND 0x3f) = 2" using True by auto
    ultimately have "unat i < 65536" using read_csid_le by blast
    with csid show ?thesis by (simp add: unat_word_ariths)
  next
    case False
    with rest have "csid = h AND 0x3f" by (auto simp: Let_def go_return_def)
    moreover have "unat (h AND 0x3f) \<noteq> 0 \<and> unat (h AND 0x3f) \<noteq> 1"
      using False by (metis unat_1 unat_eq_zero unsigned_word_eqI)
    ultimately show ?thesis using csid_6_bits [of h] by simp
  qed
qed

lemma readChunkBasicHeader_fmt:
  assumes "readChunkBasicHeader c = (Ok (f, csid), c1)"
  shows "f \<le> 3"
proof -
  from assms obtain h c0 where h: "ReadBytesAsUint32 conn_Read 1 True c = (Ok h, c0)"
    and f: "f = ucast (drop_bit 6 h)"
    unfolding readChunkBasicHeader_def
    by (auto simp: Let_def go_return_def elim!: go_bind_OkE split: if_splits)
  have "1 \<le> length (rd_pending c)" using conn_rd.read_uint_pending [OF h] by auto
  then have "h = BytesAsUint32 (take 1 (rd_pending c)) True" "length (take 1 (rd_pending c)) = 1"
    using h by (auto simp: ReadBytesAsUint32_def go_bind_def go_return_def conn_Read_def)
  then have t: "take_bit 8 h = h" by (metis BytesAsUint32_be_fits mult.right_neutral)
  have "unat h < 256" using take_bit_fits_le [OF t] by simp
  then have "unat (drop_bit 6 h) \<le> 3"
    by (simp add: drop_bit_eq_div unat_div)
  then have "unat (ucast (drop_bit 6 h) :: u8) \<le> 3"
    by (simp add: unsigned_ucast_eq take_bit_eq_mod)
  then show ?thesis using f by (simp add: word_le_nat_alt)
qed

subsection \<open>One iteration, and the loop\<close>

lemma NewStream_fresh:
  "NewStream [WithChunkStreamFmt f, WithChunkStreamCsid csid, WithChunkStreamFirstChunk True] =
    (if f > 3 then Err errFmt else if csid < 2 \<or> csid > 65559 then Err errCsid
     else Ok (zero_stream\<lparr>hdr := zero_header\<lparr>basic_header := \<lparr>Fmt = f, Csid = csid\<rparr>\<rparr>, FirstChunk := True\<rparr>))"
  by (simp add: NewStream_def stream_loadOptions_def stream_options zero_stream_def
      zero_header_def zero_basicHeader_def)

definition fresh_stream :: "u8 \<Rightarrow> u32 \<Rightarrow> stream" where
  "fresh_stream f csid =
     zero_stream\<lparr>hdr := zero_header\<lparr>basic_header := \<lparr>Fmt = f, Csid = csid\<rparr>\<rparr>, FirstChunk := True\<rparr>"

lemma stream_inv_fresh: "2 \<le> csid \<Longrightarrow> csid \<le> 65559 \<Longrightarrow> stream_inv csid (fresh_stream f csid)"
  by (simp add: stream_inv_def fresh_stream_def chunk_getters zero_stream_def zero_header_def
      zero_messageHeader_def)

lemma lookup_stream_new:
  assumes "messages c csid = None" "f \<le> 3" "2 \<le> csid"
  shows "lookup_stream f csid c = (Ok (), c\<lparr>messages := (messages c)(csid \<mapsto>
    (if csid \<le> 65559 then Some (fresh_stream f csid) else None))\<rparr>)"
proof -
  have "NewStream [WithChunkStreamFmt f, WithChunkStreamCsid csid, WithChunkStreamFirstChunk True]
      = (if csid \<le> 65559 then Ok (fresh_stream f csid) else Err errCsid)"
    using assms(2,3)
    by (cases "csid \<le> 65559") (simp_all add: NewStream_fresh fresh_stream_def leD not_le_imp_less)
  then show ?thesis
    using assms(1) by (simp add: lookup_stream_def Let_def)
qed

lemma lookup_stream_inv:
  assumes "conn_inv c" "f \<le> 3" "2 \<le> csid"
  shows "conn_inv (snd (lookup_stream f csid c))"
proof (cases "messages c csid")
  case None
  with assms show ?thesis
    using stream_inv_fresh [OF assms(3)]
    by (auto simp: lookup_stream_new conn_inv_def messages_inv_def not_le)
next
  case (Some p)
  with assms show ?thesis by (simp add: lookup_stream_def)
qed

lemma with_stream_inv:
  assumes c: "conn_inv c" and m: "\<And>M. go_keeps (rcv_inv csid M) m"
  shows "conn_inv (snd (with_stream csid m c))"
proof (cases "\<exists>s. messages c csid = Some (Some s)")
  case True
  then obtain s where s: "messages c csid = Some (Some s)" by auto
  then have "stream_inv csid s" using c by (force simp: conn_inv_def messages_inv_def)
  then have "rcv_inv csid (messages c) (c, s)" by (simp add: rcv_inv_def)
  then have "rcv_inv csid (messages c) (snd (m (c, s)))" by (rule go_keepsD [OF m])
  then show ?thesis
    using c s by (auto simp: with_stream_def rcv_inv_def conn_inv_def messages_inv_def split: prod.splits)
next
  case False
  then have "with_stream csid m c = (Panic NilDereference, c)"
    by (auto simp: with_stream_def split: option.splits)
  with c show ?thesis by simp
qed

lemma with_stream_panic:
  assumes "conn_inv c" "no_panic (rcv_inv csid (messages c)) m" "with_stream csid m c = (Panic p, c1)"
  shows "p = NilDereference \<and> (messages c csid = None \<or> messages c csid = Some None)"
proof (cases "\<exists>s. messages c csid = Some (Some s)")
  case True
  then obtain s where s: "messages c csid = Some (Some s)" by auto
  then have "stream_inv csid s" using assms(1) by (force simp: conn_inv_def messages_inv_def)
  then have "rcv_inv csid (messages c) (c, s)" by (simp add: rcv_inv_def)
  then have "m (c, s) \<noteq> (Panic p, t)" for t using assms(2) unfolding no_panic_def by blast
  with s assms(3) show ?thesis by (auto simp: with_stream_def split: prod.splits)
next
  case False
  with assms(3) show ?thesis by (auto simp: with_stream_def split: option.splits)
qed

lemma u32_bounds:
  "2 \<le> unat (csid :: u32) \<longleftrightarrow> 2 \<le> csid" "unat csid \<le> 65599 \<longleftrightarrow> csid \<le> 65599"
  by (simp_all add: word_le_nat_alt)

lemma recv_chunk_split:
  assumes "recv_chunk c = (r, c1)"
  obtains (basic) e where "readChunkBasicHeader c = (Err e, c1)"
      and "r = Err (Wrap ''read chunk basic header'' e)"
  | (body) f csid c0 where "readChunkBasicHeader c = (Ok (f, csid), c0)"
      and "with_stream csid (recv_chunk_body f) (snd (lookup_stream f csid c0)) = (r, c1)"
proof (cases "readChunkBasicHeader c")
  case (Pair b c0)
  have l: "\<exists>c1. lookup_stream f csid c' = (Ok (), c1)" for f csid c'
    by (auto simp: lookup_stream_def Let_def split: option.splits)
  show ?thesis
  proof (cases b)
    case (Ok x)
    obtain f csid where x: "x = (f, csid)" by (cases x)
    obtain c' where "lookup_stream f csid c0 = (Ok (), c')" using l by blast
    then have "recv_chunk c = with_stream csid (recv_chunk_body f) (snd (lookup_stream f csid c0))"
      using Pair Ok x by (simp add: recv_chunk_def go_bind_def go_wrap_def)
    with assms Pair Ok x body show ?thesis by simp
  next
    case (Err e)
    with assms Pair basic show ?thesis by (simp add: recv_chunk_def go_bind_def go_wrap_def)
  next
    case (Panic p)
    with Pair readChunkBasicHeader_no_panic show ?thesis by blast
  qed
qed

lemma lookup_stream_entry:
  assumes "conn_inv c" "f \<le> 3" "2 \<le> csid" "messages (snd (lookup_stream f csid c)) csid = Some None"
  shows "65559 < csid"
proof (cases "messages c csid")
  case None
  with assms show ?thesis by (auto simp: lookup_stream_new split: if_splits)
next
  case (Some p)
  with assms have "messages c csid = Some None" by (simp add: lookup_stream_def)
  with assms(1) have "csid < 2 \<or> 65559 < csid" by (force simp: conn_inv_def messages_inv_def)
  with assms(3) show ?thesis by (simp add: leD)
qed

lemma recv_chunk_inv:
  assumes "conn_inv c" "recv_chunk c = (r, c1)"
  shows "conn_inv c1"
  using assms(2)
proof (cases rule: recv_chunk_split)
  case basic
  with assms(1) readChunkBasicHeader_messages show ?thesis unfolding conn_inv_def by metis
next
  case (body f csid c0)
  have "conn_inv c0" using body(1) assms(1) readChunkBasicHeader_messages unfolding conn_inv_def by metis
  then have "conn_inv (snd (lookup_stream f csid c0))"
    using readChunkBasicHeader_csid [OF body(1)] readChunkBasicHeader_fmt [OF body(1)]
    by (intro lookup_stream_inv) (auto simp: u32_bounds)
  then show ?thesis
    using with_stream_inv [OF _ rcv_inv_recv_body, of _ csid f] body(2) by (metis snd_conv)
qed

lemma recv_chunk_panic:
  assumes "conn_inv c" "recv_chunk c = (Panic p, c1)"
  shows "p = NilDereference
    \<and> (\<exists>f csid c0. readChunkBasicHeader c = (Ok (f, csid), c0) \<and> 65559 < csid
         \<and> messages c1 csid = Some None)"
  using assms(2)
proof (cases rule: recv_chunk_split)
  case (body f csid c0)
  let ?c = "snd (lookup_stream f csid c0)"
  have c0: "conn_inv c0" using body(1) assms(1) readChunkBasicHeader_messages unfolding conn_inv_def by metis
  have bounds: "f \<le> 3" "2 \<le> csid"
    using readChunkBasicHeader_csid [OF body(1)] readChunkBasicHeader_fmt [OF body(1)]
    by (auto simp: u32_bounds)
  have "messages ?c csid \<noteq> None"
    by (auto simp: lookup_stream_def Let_def split: option.splits)
  then have p: "p = NilDereference" and nil: "messages ?c csid = Some None"
    using with_stream_panic [OF lookup_stream_inv [OF c0 bounds] no_panic_recv_body body(2)] by auto
  moreover from nil body(2) have "c1 = ?c" by (simp add: with_stream_def)
  ultimately show ?thesis using lookup_stream_entry [OF c0 bounds] body(1) by blast
qed simp

lemma recv_chunk_delivers:
  assumes "recv_chunk c = (Ok (Some msg), c1)"
  shows "\<exists>csid. messages c1 csid = Some (Some msg) \<and> IsIntergral msg"
  using assms
proof (cases rule: recv_chunk_split)
  case (body f csid c0)
  then show ?thesis
    by (auto simp: with_stream_def recv_chunk_body_def elim!: go_bind_OkE
        split: option.splits prod.splits if_splits)
qed simp

lemma RecvIntegralMessage_inv:
  "conn_inv c \<Longrightarrow> RecvIntegralMessage c = (r, c1) \<Longrightarrow> conn_inv c1"
proof (induction c rule: RecvIntegralMessage.induct)
  case (1 c)
  obtain r0 c0 where rc: "recv_chunk c = (r0, c0)" by (cases "recv_chunk c")
  from recv_chunk_inv [OF "1.prems"(1) rc] have c0: "conn_inv c0" .
  show ?case
    using "1.prems"(2) "1.IH" [OF rc [symmetric]] rc c0
    by (auto simp: RecvIntegralMessage.simps [of c] split: res.splits option.splits)
qed

text \<open>
  A message is delivered only when it is complete: its buffer has the length its header announced,
  all of it was read, and the stream delivered is the entry of the table under its chunk stream id.
\<close>

lemma RecvIntegralMessage_complete:
  "conn_inv c \<Longrightarrow> RecvIntegralMessage c = (Ok msg, c1) \<Longrightarrow>
    IsIntergral msg \<and> messages c1 (GetChunkCsid msg) = Some (Some msg)
    \<and> HasRead msg = GetChunkMessageLength msg \<and> 0 < GetChunkMessageLength msg
    \<and> length (ChunkData msg) = unat (GetChunkMessageLength msg)"
proof (induction c rule: RecvIntegralMessage.induct)
  case (1 c)
  obtain r0 c0 where rc: "recv_chunk c = (r0, c0)" by (cases "recv_chunk c")
  from recv_chunk_inv [OF "1.prems"(1) rc] have c0: "conn_inv c0" .
  consider (now) "r0 = Ok (Some msg)" "c1 = c0" | (more) "r0 = Ok None" "RecvIntegralMessage c0 = (Ok msg, c1)"
    using "1.prems"(2) rc
    by (auto simp: RecvIntegralMessage.simps [of c] split: res.splits option.splits)
  then show ?case
  proof cases
    case now
    with rc obtain csid where "messages c0 csid = Some (Some msg)" "IsIntergral msg"
      using recv_chunk_delivers by blast
    moreover from this c0 have "stream_inv csid msg" by (force simp: conn_inv_def messages_inv_def)
    ultimately show ?thesis using now by (auto simp: stream_inv_def)
  next
    case more
    with "1.IH" [OF rc [symmetric]] c0 show ?thesis by simp
  qed
qed

lemma RecvIntegralMessage_panic:
  "conn_inv c \<Longrightarrow> RecvIntegralMessage c = (Panic p, c1) \<Longrightarrow>
    p = NilDereference \<and> (\<exists>csid. 65559 < csid \<and> messages c1 csid = Some None)"
proof (induction c rule: RecvIntegralMessage.induct)
  case (1 c)
  obtain r0 c0 where rc: "recv_chunk c = (r0, c0)" by (cases "recv_chunk c")
  from recv_chunk_inv [OF "1.prems"(1) rc] have c0: "conn_inv c0" .
  consider (now) "r0 = Panic p" "c1 = c0" | (more) "r0 = Ok None" "RecvIntegralMessage c0 = (Panic p, c1)"
    using "1.prems"(2) rc
    by (auto simp: RecvIntegralMessage.simps [of c] split: res.splits option.splits)
  then show ?case
  proof cases
    case now
    with rc recv_chunk_panic [OF "1.prems"(1)] show ?thesis by blast
  next
    case more
    with "1.IH" [OF rc [symmetric]] c0 show ?thesis by simp
  qed
qed

section \<open>Properties\<close>

text \<open>C5: only complete messages are delivered, and the stream table keeps its invariant. Whatever the
  input, a message \<open>RecvIntegralMessage\<close> returns has all the bytes its header announced and is the
  entry of its chunk stream; every outcome leaves each stream under its own id, with at most its
  message read and a buffer of the message's length.\<close>

theorem recv_complete:
  assumes "conn_inv c"
  shows "conn_inv (snd (RecvIntegralMessage c))
    \<and> (\<forall>msg. fst (RecvIntegralMessage c) = Ok msg \<longrightarrow>
         messages (snd (RecvIntegralMessage c)) (GetChunkCsid msg) = Some (Some msg)
         \<and> IsIntergral msg \<and> HasRead msg = GetChunkMessageLength msg \<and> 0 < GetChunkMessageLength msg
         \<and> length (ChunkData msg) = unat (GetChunkMessageLength msg))"
  using RecvIntegralMessage_inv [OF assms] RecvIntegralMessage_complete [OF assms]
  by (cases "RecvIntegralMessage c") auto

theorem recv_complete_witness:
  "let c = sample_conn [3, 0, 0, 1, 0, 0, 2, 8, 1, 0, 0, 0, 7, 9]
   in conn_inv c \<and> conn_inv (snd (RecvIntegralMessage c))"
proof -
  have "conn_inv (sample_conn bs)" for bs
    by (simp add: conn_inv_def messages_inv_def sample_conn_def)
  then show ?thesis using recv_complete unfolding Let_def by blast
qed

text \<open>C6: the only panic of the receiver is the nil stream. On a connection that keeps the invariant,
  \<open>RecvIntegralMessage\<close> panics only with a nil dereference, and then an id above 65559 is bound to nil;
  no slice bound and no index is ever violated, whatever the peer sends.\<close>

theorem recv_panic_only_nil:
  assumes "conn_inv c" "fst (RecvIntegralMessage c) = Panic p"
  shows "p = NilDereference \<and> (\<exists>csid. 65559 < csid \<and> messages (snd (RecvIntegralMessage c)) csid = Some None)"
  using RecvIntegralMessage_panic [OF assms(1)] assms(2) by (cases "RecvIntegralMessage c") auto

end
