(* ===== verification/Conn_Send.thy ===== *)
theory Conn_Send
  imports Conn_State
begin

text \<open>
  Sending (\<open>SendIntegralMessage\<close> in \<open>pkg/rtmp/connection/connection.go\<close>): a message is cut into
  chunks of \<open>LocalChunkSize\<close> bytes, each with a header in a buffer of the shared header pool; the
  header and the chunk's data are queued in \<open>writeBuf\<close> until \<open>Flush\<close>, which puts the header slices
  back into the pool.

  \<open>wire_bytes\<close> is what a message becomes on the wire. The loop is modelled as written, with the
  \<open>unWrite\<close> counter that is set from the last chunk alone, so a message of two or more full chunks
  is followed by one more header with no data (\<open>chunk_count\<close>).
\<close>

section \<open>Definitions\<close>

text \<open>
  \<open>c.EncodeHdrPool.Get()\<close>: any buffer of the pool, or a new one of 18 bytes. The choice is an
  argument: the position of the buffer, beyond the end for a new one.
\<close>

definition pool_Get :: "nat \<Rightarrow> (connection, gslice) go" where
  "pool_Get k c =
     (if k < length (EncodeHdrPool c)
      then (Ok (EncodeHdrPool c ! k),
            c\<lparr>EncodeHdrPool := take k (EncodeHdrPool c) @ drop (Suc k) (EncodeHdrPool c)\<rparr>)
      else (Ok (sl_make 18), c))"

text \<open>The chunk from \<open>NewChunkPool\<close>, with every field the headers need set.\<close>

definition fill_chunk :: "chunk \<Rightarrow> chunk \<Rightarrow> u8 \<Rightarrow> u32 \<Rightarrow> bytes \<Rightarrow> chunk" where
  "fill_chunk ck msg tmpFmt messageLength data =
     (let ck = WithChunkFmt tmpFmt ck;
          ck = WithChunkCsid (GetChunkCsid msg) ck;
          ck = WithChunkTimestamp (GetChunkTimestamp msg) ck;
          ck = WithChunkMessageLength messageLength ck;
          ck = WithChunkMessageTypeID (GetChunkMessageTypeID msg) ck;
          ck = WithChunkMessageStreamID (GetChunkMessageStreamID msg) ck;
          ck = WithChunkExtendedTimestamp (GetChunkExtendTimestamp msg) ck
      in WithChunkData data ck)"

text \<open>One iteration; its result is the number of bytes queued and the size of the chunk's data.\<close>

definition send_chunk ::
  "(nat \<Rightarrow> nat) \<Rightarrow> chunk \<Rightarrow> chunk \<Rightarrow> nat \<Rightarrow> (connection, nat \<times> u32) go" where
  "send_chunk pick ck msg idx c =
     (let messageLength = GetChunkMessageLength msg;
          tmpFmt = (if idx > 0 then 3 else 0);
          start = idx * unat (LocalChunkSize c);
          end1 = start + unat (LocalChunkSize c);
          fin = (if end1 > unat messageLength then unat messageLength else end1);
          chunkSize = word_of_int (int fin - int start)
      in if \<not> (start \<le> fin \<and> fin \<le> length (ChunkData msg)) then (Panic SliceOutOfRange, c)
         else
           (let ck = fill_chunk ck msg tmpFmt messageLength (take (fin - start) (drop start (ChunkData msg)))
            in go_bind (pool_Get (pick idx)) (\<lambda>headerBuf c1.
                 case header_Encode (GetChunkHeader ck) headerBuf of
                   (Err e, _) \<Rightarrow> (Err (Wrap ''encode chunk header'' e), c1)
                 | (Panic p, _) \<Rightarrow> (Panic p, c1)
                 | (Ok headerSize, headerBuf) \<Rightarrow>
                     if headerSize \<le> sl_cap headerBuf then
                       go_bind (conn_Write (sl_prefix headerSize headerBuf)) (\<lambda>nw1.
                       go_bind (conn_Write (sl_of (ChunkData ck))) (\<lambda>nw2.
                       go_return (nw1 + nw2, chunkSize))) c1
                     else (Panic SliceOutOfRange, c1)) c))"

text \<open>The loop over \<open>idx = 0, \<dots>, nChunks\<close>, with its early exit.\<close>

primrec send_loop ::
  "(nat \<Rightarrow> nat) \<Rightarrow> chunk \<Rightarrow> chunk \<Rightarrow> nat list \<Rightarrow> u32 \<Rightarrow> nat \<Rightarrow> (connection, nat) go" where
  "send_loop pick ck msg [] unWrite writeSize = go_return writeSize"
| "send_loop pick ck msg (idx # idxs) unWrite writeSize =
     (if unWrite = 0 then go_return writeSize
      else go_bind (send_chunk pick ck msg idx) (\<lambda>(nw, chunkSize).
           send_loop pick ck msg idxs (GetChunkMessageLength msg - chunkSize) (writeSize + nw)))"

definition SendIntegralMessage :: "(nat \<Rightarrow> nat) \<Rightarrow> chunk \<Rightarrow> chunk \<Rightarrow> (connection, nat) go" where
  "SendIntegralMessage pick ck msg c =
     (let messageLength = GetChunkMessageLength msg
      in if messageLength \<le> 0 then (Err (ErrNew ''message length <= 0''), c)
         else if LocalChunkSize c = 0 then (Panic DivideByZero, c)
         else
           (let nChunks = length (ChunkData msg) div unat (LocalChunkSize c)
            in send_loop pick ck msg [0..<Suc nChunks] messageLength 0 c))"

section \<open>What goes on the wire\<close>

definition chunk_header :: "chunk \<Rightarrow> nat \<Rightarrow> header" where
  "chunk_header msg idx =
     (hdr msg)\<lparr>basic_header := \<lparr>Fmt = (if idx > 0 then 3 else 0), Csid = GetChunkCsid msg\<rparr>\<rparr>"

definition chunk_piece :: "nat \<Rightarrow> bytes \<Rightarrow> nat \<Rightarrow> bytes" where
  "chunk_piece L data idx = take L (drop (idx * L) data)"

definition chunk_wire :: "nat \<Rightarrow> chunk \<Rightarrow> nat \<Rightarrow> bytes" where
  "chunk_wire L msg idx = header_bytes (chunk_header msg idx) @ chunk_piece L (ChunkData msg) idx"

text \<open>How many chunks the loop writes for a message of \<open>n\<close> bytes.\<close>

definition chunk_count :: "nat \<Rightarrow> nat \<Rightarrow> nat" where
  "chunk_count L n = (if n \<le> L then 1 else Suc (n div L))"

definition wire_bytes :: "nat \<Rightarrow> chunk \<Rightarrow> bytes" where
  "wire_bytes L msg = concat (map (chunk_wire L msg) [0..<chunk_count L (length (ChunkData msg))])"

section \<open>The header pool\<close>

text \<open>
  A pooled header buffer keeps its 18 bytes of capacity, but its length is that of the header it last
  held: \<open>Flush\<close> puts back \<open>headerBuf[:headerSize]\<close>.
\<close>

definition pool_ok :: "nat \<Rightarrow> connection \<Rightarrow> bool" where
  "pool_ok n c \<longleftrightarrow> (\<forall>b \<in> set (EncodeHdrPool c). sl_cap b = 18 \<and> n \<le> sl_len b \<and> sl_len b \<le> 18)"

text \<open>The write buffer is headers and bodies in turn, the headers in buffers of the pool.\<close>

definition queue_ok :: "connection \<Rightarrow> bool" where
  "queue_ok c \<longleftrightarrow> even (length (writeBuf c)) \<and> (\<forall>b \<in> set (writeBuf c). sl_ok b)
     \<and> (\<forall>b \<in> set (even_entries (writeBuf c)). sl_cap b = 18 \<and> 1 \<le> sl_len b)"

definition sendable :: "chunk \<Rightarrow> bool" where
  "sendable msg \<longleftrightarrow> 2 \<le> GetChunkCsid msg \<and> GetChunkCsid msg \<le> 65599
     \<and> 0 < GetChunkMessageLength msg \<and> unat (GetChunkMessageLength msg) = length (ChunkData msg)"

lemma pool_Get_ok:
  assumes "pool_ok n c" "n \<le> 18"
  shows "\<exists>b. pool_Get k c = (Ok b, snd (pool_Get k c)) \<and> sl_cap b = 18 \<and> n \<le> sl_len b \<and> sl_ok b
    \<and> pool_ok n (snd (pool_Get k c)) \<and> writeBuf (snd (pool_Get k c)) = writeBuf c
    \<and> LocalChunkSize (snd (pool_Get k c)) = LocalChunkSize c"
  using assms nth_mem [of k "EncodeHdrPool c"]
  by (auto simp: pool_Get_def pool_ok_def sl_ok_def dest: in_set_takeD in_set_dropD)

lemma pool_Get_frame: "\<exists>q. snd (pool_Get k c) = c\<lparr>EncodeHdrPool := q\<rparr>"
proof (cases "k < length (EncodeHdrPool c)")
  case True
  then show ?thesis by (auto simp: pool_Get_def)
next
  case False
  then have "snd (pool_Get k c) = c\<lparr>EncodeHdrPool := EncodeHdrPool c\<rparr>" by (simp add: pool_Get_def)
  then show ?thesis by blast
qed

lemma even_entries_append:
  "even (length xs) \<Longrightarrow> even_entries (xs @ [h, b]) = even_entries xs @ [h]"
  by (induction xs rule: even_entries.induct) auto

lemma even_entries_subset: "set (even_entries xs) \<subseteq> set xs"
  by (induction xs rule: even_entries.induct) auto

lemma length_header_bytes: "Fmt (basic_header h) \<le> 3 \<Longrightarrow> length (header_bytes h) \<le> 14"
  by (erule u8_le_3_cases)
    (simp_all add: header_bytes_def length_basic_bytes length_message_bytes FmtToMessageHdrSize_def)

lemma fill_chunk_header:
  "GetChunkHeader (fill_chunk ck msg (if 0 < idx then 3 else 0) (GetChunkMessageLength msg) d)
     = chunk_header msg idx"
  "ChunkData (fill_chunk ck msg f len d) = d"
  by (simp_all add: fill_chunk_def chunk_options chunk_getters Let_def chunk_header_def)

text \<open>What an operation on the queue leaves: the rest of the connection is unchanged.\<close>

definition queued :: "nat \<Rightarrow> connection \<Rightarrow> bytes \<Rightarrow> connection \<Rightarrow> bool" where
  "queued m c bs c1 \<longleftrightarrow> (\<exists>w p. c1 = c\<lparr>writeBuf := w, EncodeHdrPool := p\<rparr>)
     \<and> buffers_bytes (writeBuf c1) = buffers_bytes (writeBuf c) @ bs
     \<and> queue_ok c1 \<and> pool_ok m c1"

lemma queued_refl: "queue_ok c \<Longrightarrow> pool_ok m c \<Longrightarrow> queued m c [] c"
proof -
  have "\<exists>w p. c = c\<lparr>writeBuf := w, EncodeHdrPool := p\<rparr>"
    by (rule exI [of _ "writeBuf c"], rule exI [of _ "EncodeHdrPool c"]) simp
  then show "queue_ok c \<Longrightarrow> pool_ok m c \<Longrightarrow> queued m c [] c" by (simp add: queued_def)
qed

lemma queued_trans:
  assumes "queued m c bs c1" "queued m c1 bs1 c2"
  shows "queued m c (bs @ bs1) c2"
proof -
  from assms obtain w p w1 p1 where
    "c1 = c\<lparr>writeBuf := w, EncodeHdrPool := p\<rparr>" "c2 = c1\<lparr>writeBuf := w1, EncodeHdrPool := p1\<rparr>"
    unfolding queued_def by blast
  then have "c2 = c\<lparr>writeBuf := w1, EncodeHdrPool := p1\<rparr>" by simp
  then have "\<exists>w p. c2 = c\<lparr>writeBuf := w, EncodeHdrPool := p\<rparr>" by blast
  with assms show ?thesis by (simp add: queued_def)
qed

lemma queued_frame: "queued m c bs c1 \<Longrightarrow> LocalChunkSize c1 = LocalChunkSize c"
  by (auto simp: queued_def)

lemma send_chunk_ok:
  assumes msg: "sendable msg" and pool: "pool_ok m c" "length (basic_bytes (basic_header (hdr msg))) \<le> m" "m \<le> 18"
    and q: "queue_ok c" and L: "L = unat (LocalChunkSize c)" "0 < L"
    and idx: "idx * L \<le> length (ChunkData msg)"
  shows "\<exists>c1. send_chunk pick ck msg idx c
      = (Ok (length (chunk_wire L msg idx), of_nat (length (chunk_piece L (ChunkData msg) idx))), c1)
    \<and> queued m c (chunk_wire L msg idx) c1"
proof -
  let ?n = "length (ChunkData msg)"
  let ?h = "chunk_header msg idx"
  define fin where "fin = (if idx * L + L > ?n then ?n else idx * L + L)"
  define piece where "piece = take (fin - idx * L) (drop (idx * L) (ChunkData msg))"
  have len: "unat (GetChunkMessageLength msg) = ?n" using msg by (simp add: sendable_def)
  have fin: "idx * L \<le> fin" "fin \<le> ?n" using idx by (auto simp: fin_def)
  have piece: "piece = chunk_piece L (ChunkData msg) idx" and lp: "length piece = fin - idx * L"
    using fin by (auto simp: piece_def fin_def chunk_piece_def)
  have h: "basicHeader_valid (basic_header ?h)" "Fmt (basic_header ?h) \<le> 3"
    using msg by (auto simp: chunk_header_def basicHeader_valid_def sendable_def word_le_nat_alt)
  have hl: "length (header_bytes ?h) \<le> 14" using length_header_bytes h(2) .
  have bl: "length (basic_bytes (basic_header ?h)) \<le> m"
    using pool(2) by (simp add: length_basic_bytes chunk_header_def chunk_getters split: if_splits)
  define c0 where "c0 = snd (pool_Get (pick idx) c)"
  obtain b where g: "pool_Get (pick idx) c = (Ok b, c0)"
    and b: "sl_cap b = 18" "m \<le> sl_len b" "sl_ok b" and p1: "pool_ok m c0"
    unfolding c0_def using pool_Get_ok [OF pool(1,3)] by blast
  define b' where "b' = b\<lparr>sl_arr := header_bytes ?h @ drop (length (header_bytes ?h)) (sl_arr b)\<rparr>"
  have e: "header_Encode ?h b = (Ok (length (header_bytes ?h)), b')"
    unfolding b'_def using h b bl hl by (intro header_Encode_ok) auto
  have cap: "sl_cap b' = 18" using b hl by (simp add: b'_def sl_cap_def)
  define p where "p = sl_prefix (length (header_bytes ?h)) b'"
  have ps: "sl_bytes p = header_bytes ?h" "sl_len p = length (header_bytes ?h)" "sl_cap p = 18" "sl_ok p"
    using hl b cap by (auto simp: p_def b'_def sl_prefix_def sl_bytes_def sl_ok_def sl_cap_def)
  have p0: "1 \<le> sl_len p"
    by (simp add: ps header_bytes_def length_basic_bytes)
  define c1 where "c1 = c0\<lparr>writeBuf := writeBuf c @ [p, sl_of piece]\<rparr>"
  have w: "writeBuf c0 = writeBuf c" by (simp add: c0_def pool_Get_def)
  have ck: "GetChunkHeader (fill_chunk ck msg (if 0 < idx then 3 else 0) (GetChunkMessageLength msg) piece) = ?h"
    by (rule fill_chunk_header(1))
  have tail: "go_bind (conn_Write p) (\<lambda>nw1. go_bind (conn_Write (sl_of piece)) (\<lambda>nw2.
      go_return (nw1 + nw2, v))) c0 = (Ok (length (header_bytes ?h) + length piece, v), c1)" for v :: u32
    by (simp add: go_bind_def go_return_def conn_Write_def ps w c1_def)
  have "send_chunk pick ck msg idx c = go_bind (pool_Get (pick idx)) (\<lambda>headerBuf c1.
      case header_Encode ?h headerBuf of
        (Err e, _) \<Rightarrow> (Err (Wrap ''encode chunk header'' e), c1)
      | (Panic p, _) \<Rightarrow> (Panic p, c1)
      | (Ok headerSize, headerBuf) \<Rightarrow>
          if headerSize \<le> sl_cap headerBuf then
            go_bind (conn_Write (sl_prefix headerSize headerBuf)) (\<lambda>nw1.
            go_bind (conn_Write (sl_of piece)) (\<lambda>nw2.
            go_return (nw1 + nw2, word_of_int (int fin - int (idx * L))))) c1
          else (Panic SliceOutOfRange, c1)) c"
    unfolding send_chunk_def Let_def len L(1) [symmetric] fin_def [symmetric] piece_def [symmetric] ck
      fill_chunk_header(2)
    using fin by simp
  also have "\<dots> = (Ok (length (header_bytes ?h) + length piece,
      word_of_int (int fin - int (idx * L))), c1)"
    unfolding go_bind_Ok [of "pool_Get (pick idx)" c b c0, OF g] e using hl cap by (simp add: tail p_def [symmetric])
  finally have "send_chunk pick ck msg idx c = (Ok (length (header_bytes ?h) + length piece,
      word_of_int (int fin - int (idx * L))), c1)" .
  moreover have arith: "(word_of_int (int fin - int (idx * L)) :: u32)
      = of_nat (length (chunk_piece L (ChunkData msg) idx))"
    using fin by (simp add: lp flip: piece)
  ultimately have r: "send_chunk pick ck msg idx c = (Ok (length (chunk_wire L msg idx),
      of_nat (length (chunk_piece L (ChunkData msg) idx))), c1)"
    using arith by (simp only: chunk_wire_def piece length_append)
  obtain q where "c0 = c\<lparr>EncodeHdrPool := q\<rparr>"
    unfolding c0_def using pool_Get_frame by blast
  then have "c1 = c\<lparr>writeBuf := writeBuf c @ [p, sl_of piece], EncodeHdrPool := q\<rparr>"
    by (simp add: c1_def)
  then have "\<exists>w p. c1 = c\<lparr>writeBuf := w, EncodeHdrPool := p\<rparr>" by blast
  moreover have "queue_ok c1"
    using q ps p0 by (auto simp: queue_ok_def c1_def even_entries_append)
  ultimately have "queued m c (chunk_wire L msg idx) c1"
    using p1 ps by (simp add: queued_def c1_def pool_ok_def buffers_bytes_def chunk_wire_def piece)
  with r show ?thesis by blast
qed

section \<open>The loop\<close>

text \<open>
  A chunk that carries data leaves \<open>unWrite\<close> non-zero unless the message is that one chunk, so the
  loop runs to its last index and writes every chunk of \<open>wire_bytes\<close>.
\<close>

lemma unWrite_after:
  assumes "sendable msg" "idx * L \<le> length (ChunkData msg)" "0 < L"
  shows "GetChunkMessageLength msg - of_nat (length (chunk_piece L (ChunkData msg) idx)) = 0
    \<longleftrightarrow> idx = 0 \<and> length (ChunkData msg) \<le> L"
proof -
  let ?n = "length (ChunkData msg)" and ?k = "length (chunk_piece L (ChunkData msg) idx)"
  have m: "unat (GetChunkMessageLength msg) = ?n" "0 < GetChunkMessageLength msg"
    using assms(1) by (auto simp: sendable_def)
  have n: "GetChunkMessageLength msg = of_nat ?n" "0 < ?n"
    using m by (simp_all add: word_less_nat_alt flip: m(1))
  have n32: "?n < 2 ^ 32" unfolding m(1) [symmetric] by (rule order_less_le_trans [OF unsigned_less]) simp
  have k: "?k = min L (?n - idx * L)" by (simp add: chunk_piece_def)
  have "unat (of_nat ?n :: u32) = ?n" "unat (of_nat ?k :: u32) = ?k"
    using n32 k by (simp_all add: unat_of_nat)
  then have "(of_nat ?n :: u32) - of_nat ?k = 0 \<longleftrightarrow> ?n = ?k"
    by (metis eq_iff_diff_eq_0)
  also have "\<dots> \<longleftrightarrow> idx = 0 \<and> ?n \<le> L"
    using n(2) k assms(3) by (cases idx) (auto simp: min_def)
  finally show ?thesis by (simp add: n(1))
qed

lemma send_loop_ok:
  assumes msg: "sendable msg" and hdr: "length (basic_bytes (basic_header (hdr msg))) \<le> m" "m \<le> 18"
    and L: "0 < L" "L < length (ChunkData msg)" and u: "unWrite \<noteq> 0"
    and c: "pool_ok m c" "queue_ok c" "unat (LocalChunkSize c) = L"
    and idxs: "\<forall>i \<in> set idxs. i * L \<le> length (ChunkData msg)"
  shows "\<exists>c1. send_loop pick ck msg idxs unWrite w c
      = (Ok (w + length (concat (map (chunk_wire L msg) idxs))), c1)
    \<and> queued m c (concat (map (chunk_wire L msg) idxs)) c1"
  using u c idxs
proof (induction idxs arbitrary: unWrite w c)
  case Nil
  then show ?case by (simp add: go_return_def queued_refl)
next
  case (Cons i idxs)
  have i: "i * L \<le> length (ChunkData msg)" using Cons.prems by simp
  from send_chunk_ok [OF msg Cons.prems(2) hdr Cons.prems(3) Cons.prems(4) [symmetric] L(1) i, of pick ck]
  obtain c1 where s: "send_chunk pick ck msg i c = (Ok (length (chunk_wire L msg i),
      of_nat (length (chunk_piece L (ChunkData msg) i))), c1)" and q: "queued m c (chunk_wire L msg i) c1"
    by blast
  let ?u = "GetChunkMessageLength msg - of_nat (length (chunk_piece L (ChunkData msg) i)) :: u32"
  have "?u \<noteq> 0" using unWrite_after [OF msg i L(1)] L(2) by simp
  moreover have "pool_ok m c1" "queue_ok c1" "unat (LocalChunkSize c1) = L"
    using q Cons.prems(4) by (auto simp: queued_def)
  moreover have "\<forall>i \<in> set idxs. i * L \<le> length (ChunkData msg)" using Cons.prems by simp
  ultimately obtain c2 where "send_loop pick ck msg idxs ?u (w + length (chunk_wire L msg i)) c1
      = (Ok (w + length (chunk_wire L msg i) + length (concat (map (chunk_wire L msg) idxs))), c2)"
    and "queued m c1 (concat (map (chunk_wire L msg) idxs)) c2"
    using Cons.IH by blast
  with Cons.prems(1) s queued_trans [OF q] show ?case
    by (auto simp: go_bind_def add.assoc)
qed

lemma SendIntegralMessage_ok:
  assumes msg: "sendable msg" and hdr: "length (basic_bytes (basic_header (hdr msg))) \<le> m" "m \<le> 18"
    and c: "pool_ok m c" "queue_ok c" and L: "L = unat (LocalChunkSize c)" "0 < L"
  shows "\<exists>c1. SendIntegralMessage pick ck msg c = (Ok (length (wire_bytes L msg)), c1)
    \<and> queued m c (wire_bytes L msg) c1"
proof -
  let ?n = "length (ChunkData msg)"
  have u: "GetChunkMessageLength msg \<noteq> 0" using msg by (simp add: sendable_def word_gt_0)
  have z: "LocalChunkSize c \<noteq> 0" using L by (auto simp: unat_gt_0)
  have top: "SendIntegralMessage pick ck msg c
      = send_loop pick ck msg [0..<Suc (?n div L)] (GetChunkMessageLength msg) 0 c"
    using u z by (simp add: SendIntegralMessage_def L(1) del: upt_Suc)
  show ?thesis
  proof (cases "?n \<le> L")
    case False
    have "\<forall>i \<in> set [0..<Suc (?n div L)]. i * L \<le> ?n"
      by (auto simp: less_Suc_eq_le simp flip: less_eq_div_iff_mult_less_eq [OF L(2)] simp del: upt_Suc)
    from send_loop_ok [OF msg hdr L(2) _ u c L(1) [symmetric] this, of pick ck 0] False show ?thesis
      by (simp add: top wire_bytes_def chunk_count_def del: upt_Suc)
  next
    case True
    have i0: "0 * L \<le> ?n" by simp
    from send_chunk_ok [OF msg c(1) hdr c(2) L i0, of pick ck] obtain c1 where
      s: "send_chunk pick ck msg 0 c = (Ok (length (chunk_wire L msg 0),
        of_nat (length (chunk_piece L (ChunkData msg) 0))), c1)"
      and q: "queued m c (chunk_wire L msg 0) c1" by blast
    have z: "GetChunkMessageLength msg - of_nat (length (chunk_piece L (ChunkData msg) 0)) = 0"
      using unWrite_after [OF msg i0 L(2)] True by simp
    have "send_loop pick ck msg idxs (GetChunkMessageLength msg
         - of_nat (length (chunk_piece L (ChunkData msg) 0))) k c1 = (Ok k, c1)" for idxs k
      unfolding z by (cases idxs) (simp_all add: go_return_def)
    with u s q True show ?thesis
      by (simp add: top wire_bytes_def chunk_count_def upt_rec [of 0] go_bind_def go_return_def)
  qed
qed

section \<open>Flush\<close>

text \<open>
  A flush that the network takes whole puts every queued byte on the wire and the headers back into
  the pool, cut to the headers they hold.
\<close>

lemma Flush_ok:
  assumes "queue_ok c" "pool_ok 1 c"
  shows "\<exists>c1. conn_Flush None small c = (Ok (length (buffers_bytes (writeBuf c))), c1)
    \<and> wire_out c1 = wire_out c @ buffers_bytes (writeBuf c) \<and> writeBuf c1 = [] \<and> queue_ok c1
    \<and> pool_ok 1 c1 \<and> LocalChunkSize c1 = LocalChunkSize c"
proof (cases "writeBuf c = []")
  case True
  with assms show ?thesis by (simp add: conn_Flush_def buffers_bytes_def)
next
  case False
  have "buffers_consume (length (buffers_bytes (writeBuf c))) (writeBuf c) = []"
    using assms(1) by (intro buffers_consume_all) (simp add: queue_ok_def)
  moreover have "\<forall>b \<in> set (even_entries (writeBuf c)). sl_len b \<le> 18"
    using assms(1) even_entries_subset [of "writeBuf c"] by (force simp: queue_ok_def sl_ok_def)
  ultimately show ?thesis
    using False assms by (auto simp: conn_Flush_def Let_def queue_ok_def pool_ok_def)
qed

text \<open>
  A buffer that last held a one-byte basic header cut to one byte (a type 3 header) cannot take the
  basic header of a chunk stream id above 63: the encoder indexes past its length.
\<close>

lemma SendIntegralMessage_short_buffer:
  assumes msg: "sendable msg" and b: "pick 0 < length (EncodeHdrPool c)"
    "sl_cap (EncodeHdrPool c ! pick 0) = 18"
    "sl_len (EncodeHdrPool c ! pick 0) < length (basic_bytes (basic_header (hdr msg)))"
    and L: "LocalChunkSize c \<noteq> 0"
  shows "\<exists>p c1. SendIntegralMessage pick ck msg c = (Panic p, c1)"
proof -
  let ?L = "unat (LocalChunkSize c)" and ?n = "length (ChunkData msg)"
  let ?b = "EncodeHdrPool c ! pick 0"
  let ?ck = "fill_chunk ck msg 0 (GetChunkMessageLength msg)"
  have u: "GetChunkMessageLength msg \<noteq> 0" using msg by (simp add: sendable_def word_gt_0)
  have len: "unat (GetChunkMessageLength msg) = ?n" using msg by (simp add: sendable_def)
  have h: "GetChunkHeader (?ck d) = chunk_header msg 0" for d
    using fill_chunk_header(1) [of ck msg 0 d] by simp
  have "\<exists>e q. header_Encode (chunk_header msg 0) ?b = (Panic e, q)"
    using msg b by (intro header_Encode_short)
      (auto simp: chunk_header_def basicHeader_valid_def sendable_def chunk_getters length_basic_bytes)
  then obtain e q where "header_Encode (chunk_header msg 0) ?b = (Panic e, q)" by blast
  then have "\<exists>c1. send_chunk pick ck msg 0 c = (Panic e, c1)"
    using b(1) by (simp add: send_chunk_def Let_def len h pool_Get_def go_bind_def)
  then show ?thesis
    using u L by (auto simp: SendIntegralMessage_def upt_rec [of 0] go_bind_def Let_def simp del: upt_Suc)
qed

end
