(* ===== verification/Conn_Roundtrip.thy ===== *)
theory Conn_Roundtrip
  imports Conn_Recv Conn_Send
begin

text \<open>
  The sender against the receiver: what \<open>SendIntegralMessage\<close> puts on the wire is what
  \<open>RecvIntegralMessage\<close> of the peer turns back into the message, for the messages the two agree on
  (\<open>on_wire\<close>). Each chunk is one iteration of the receive loop; a chunk stream that is idle takes the
  first chunk, and \<open>partly\<close> says what it holds after the next ones.
\<close>

section \<open>Headers\<close>

lemma take_bit_self: "unat (w :: 'a::len word) < 2 ^ k \<Longrightarrow> take_bit k w = w"
  by (metis take_bit_nat_eq_self unsigned_take_bit_eq unsigned_word_eqI)

lemma BytesAsUint32_single [simp]: "BytesAsUint32 [b] be = ucast b"
  by (cases be) (simp_all add: BytesAsUint32_def BytesAsUint32_step_def)

text \<open>The first byte: two bits of format above six bits.\<close>

lemma first_byte:
  assumes "(f :: u8) \<le> 3" "unat (low :: u8) < 64"
  shows "(ucast (drop_bit 6 (ucast (push_bit 6 f OR low) :: u32)) :: u8) = f"
    "(ucast (push_bit 6 f OR low) :: u32) AND 0x3f = ucast low"
proof -
  have "take_bit 2 f = f" by (cases rule: u8_le_3_cases [OF assms(1)]) simp_all
  then have f: "bit f n \<Longrightarrow> n < 2" for n by (metis bit_take_bit_iff)
  have l: "take_bit 6 low = low" using assms(2) by (simp add: take_bit_self)
  have low: "bit low n \<Longrightarrow> n < 6" for n using l by (metis bit_take_bit_iff)
  show "(ucast (drop_bit 6 (ucast (push_bit 6 f OR low) :: u32)) :: u8) = f"
    by (rule bit_word_eqI) (auto simp: bit_simps dest: f low)
  have "(0x3f :: u32) = mask 6" by (simp add: mask_eq_exp_minus_1)
  then show "(ucast (push_bit 6 f OR low) :: u32) AND 0x3f = ucast low"
    by (simp only: flip: take_bit_eq_mask)
      (rule bit_word_eqI; auto simp: bit_simps dest: f low)
qed

lemma readChunkBasicHeader_bytes:
  assumes p: "rd_pending c = basic_bytes bh @ rest" and v: "basicHeader_valid bh"
  shows "readChunkBasicHeader c = (Ok (Fmt bh, Csid bh), c\<lparr>rd_pending := rest\<rparr>)"
proof -
  have f: "Fmt bh \<le> 3" using v by (simp add: basicHeader_valid_def)
  have r1: "readChunkBasicHeader c = (let f = ucast (drop_bit 6 (ucast b :: u32)); csid = ucast b AND 0x3f
      in if csid = 0 \<or> csid = 1 then
           go_bind (go_wrap ''read the next bytes of chunk basic header''
                      (ReadBytesAsUint32 conn_Read (1 + unat csid) False)) (\<lambda>i. go_return (f, i + 64))
         else go_return (f, csid)) (c\<lparr>rd_pending := r\<rparr>)" if "rd_pending c = b # r" for b r
    using conn_rd.read_uint_enough [of c "[b]" r 1 True] that
    by (simp add: readChunkBasicHeader_def go_bind_def go_wrap_def)
  have r2: "go_bind (go_wrap msg (ReadBytesAsUint32 conn_Read n False)) (\<lambda>i. go_return (f, i + 64))
      (c\<lparr>rd_pending := bs @ r\<rparr>) = (Ok (f, BytesAsUint32 bs False + 64), c\<lparr>rd_pending := r\<rparr>)"
    if "n = length bs" for msg n bs and f :: u8 and r
    using conn_rd.read_uint_enough [of "c\<lparr>rd_pending := bs @ r\<rparr>" bs r n False] that
    by (simp add: go_bind_def go_wrap_def go_return_def)
  consider (one) "unat (Csid bh) < 64" "2 \<le> unat (Csid bh)"
    | (two) "64 \<le> unat (Csid bh)" "unat (Csid bh) < 320"
    | (three) "320 \<le> unat (Csid bh)" "unat (Csid bh) \<le> 65599"
    using v by (fastforce simp: basicHeader_valid_def word_le_nat_alt)
  then show ?thesis
  proof cases
    case one
    have l: "unat (ucast (Csid bh) :: u8) < 64" "ucast (ucast (Csid bh) :: u8) = Csid bh"
      using one by (simp_all add: unsigned_ucast_eq take_bit_nat_eq_self ucast_u8_u32 take_bit_self)
    have "rd_pending c = (push_bit 6 (Fmt bh) OR ucast (Csid bh)) # rest"
      using one p by (simp add: basic_bytes_def Let_def word_less_nat_alt)
    moreover have "Csid bh \<noteq> 0" "Csid bh \<noteq> 1" using one(2) by auto
    ultimately show ?thesis
      using first_byte [OF f l(1)] l(2) by (simp add: r1 go_return_def)
  next
    case two
    have s: "unat (Csid bh - 64) = unat (Csid bh) - 64" using two by (simp add: unat_sub word_le_nat_alt)
    have b: "ucast (ucast (Csid bh - 64) :: u8) = Csid bh - 64"
      using two s by (simp add: ucast_u8_u32 take_bit_self)
    have "rd_pending c = (push_bit 6 (Fmt bh) OR 0) # [ucast (Csid bh - 64)] @ rest"
      using two p by (simp add: basic_bytes_def Let_def word_less_nat_alt)
    then show ?thesis
      using first_byte [OF f, of 0] b r2 [of 1 "[ucast (Csid bh - 64)]"] by (simp add: r1)
  next
    case three
    have s: "unat (Csid bh - 64) = unat (Csid bh) - 64" using three by (simp add: unat_sub word_le_nat_alt)
    have b: "take_bit 16 (Csid bh - 64) = Csid bh - 64"
      using three s by (simp add: take_bit_self)
    have "rd_pending c = (push_bit 6 (Fmt bh) OR 1) # le_bytes 2 (Csid bh - 64) @ rest"
      using three p by (simp add: basic_bytes_def Let_def word_less_nat_alt)
    then show ?thesis
      using first_byte [OF f, of 1] b r2 [of "Suc (Suc 0)" "le_bytes 2 (Csid bh - 64)"] by (simp add: r1)
  qed
qed

text \<open>Message headers whose fields fit the bytes they are given, with no extended timestamp.\<close>

definition header_fits :: "messageHeader \<Rightarrow> bool" where
  "header_fits mh \<longleftrightarrow> Timestamp mh < 0xffffff \<and> unat (MessageLength mh) < 2 ^ 24
     \<and> unat (MessageTypeID mh) < 2 ^ 8"

lemma readChunkMessageHeader_0:
  assumes p: "rd_pending c = message_bytes mh 0 @ rest" and fits: "header_fits mh"
    and idle: "HasRead s = 0" "\<not> IsExtendedTimestamp s"
  shows "readChunkMessageHeader 0 (c, s) = (Ok (), (c\<lparr>rd_pending := rest\<rparr>,
    s\<lparr>hdr := (hdr s)\<lparr>message_header := mh\<rparr>, TimestampDelta := Timestamp mh, FirstChunk := False\<rparr>))"
proof -
  let ?buf = "be_bytes 3 (Timestamp mh) @ be_bytes 3 (MessageLength mh) @ be_bytes 1 (MessageTypeID mh)
    @ le_bytes 4 (MessageStreamID mh)"
  have t: "Timestamp mh < 0xffffff" "\<not> 0xffffff \<le> Timestamp mh" "unat (Timestamp mh) < 2 ^ 24"
    using fits by (simp_all add: header_fits_def word_less_nat_alt word_le_nat_alt)
  have tb: "take_bit 24 (Timestamp mh) = Timestamp mh" "take_bit 24 (MessageLength mh) = MessageLength mh"
    "take_bit 8 (MessageTypeID mh) = MessageTypeID mh"
    using t fits by (simp_all add: header_fits_def take_bit_self)
  have tb32: "take_bit 32 (MessageStreamID mh) = MessageStreamID mh"
    by (rule bit_word_eqI) (simp add: bit_simps)
  have "message_bytes mh 0 = ?buf" using t(1) by (simp add: message_bytes_def min_absorb1 less_imp_le)
  with p have r: "conn_Read 11 c = (Ok ?buf, c\<lparr>rd_pending := rest\<rparr>)"
    using conn_rd.read_append [of c ?buf rest] by simp
  show ?thesis
    using idle t tb tb32
    by (simp add: readChunkMessageHeader_def go_bind_def go_wrap_def on_conn_def r
        FmtToMessageHdrSize_def parse_message_header_def upd_msg_def read_timestamp_def
        read_length_type_def read_extended_timestamp_def finish_message_header_def Let_def
        stream_options chunk_getters del: One_nat_def)
qed

lemma readChunkMessageHeader_3:
  assumes "\<not> FirstChunk s" "\<not> IsExtendedTimestamp s"
  shows "readChunkMessageHeader 3 (c, s) = (Ok (), (c, s))"
proof -
  have "s\<lparr>FirstChunk := False\<rparr> = s" using assms(1) by (cases s) simp
  then show ?thesis
    using assms
    by (simp add: readChunkMessageHeader_def go_bind_def go_wrap_def on_conn_def conn_Read_def
        FmtToMessageHdrSize_def parse_message_header_def upd_msg_def word_le_nat_alt
        read_extended_timestamp_def finish_message_header_def Let_def)
qed

section \<open>One chunk\<close>

text \<open>
  The messages whose headers the two sides agree on: the stream table can hold their chunk stream id,
  and the fields fit the header. The sender writes one chunk too many when such a message is two or
  more full chunks exactly; the others are what both sides agree on.
\<close>

definition fits_wire :: "nat \<Rightarrow> chunk \<Rightarrow> bool" where
  "fits_wire L msg \<longleftrightarrow> sendable msg \<and> GetChunkCsid msg \<le> 65559 \<and> header_fits (message_header (hdr msg))
     \<and> 0 < L \<and> L < 2 ^ 32"

definition whole_chunks :: "nat \<Rightarrow> chunk \<Rightarrow> bool" where
  "whole_chunks L msg \<longleftrightarrow> L dvd length (ChunkData msg) \<and> L < length (ChunkData msg)"

definition on_wire :: "nat \<Rightarrow> chunk \<Rightarrow> bool" where
  "on_wire L msg \<longleftrightarrow> fits_wire L msg \<and> \<not> whole_chunks L msg"

text \<open>A stream between messages, and a stream that holds the first \<open>k\<close> bytes of a message.\<close>

definition stream_idle :: "stream \<Rightarrow> bool" where
  "stream_idle s \<longleftrightarrow> HasRead s = 0 \<and> \<not> IsIntergral s \<and> \<not> IsExtendedTimestamp s"

definition partly :: "chunk \<Rightarrow> nat \<Rightarrow> stream \<Rightarrow> bool" where
  "partly msg k s \<longleftrightarrow> GetChunkCsid s = GetChunkCsid msg \<and> message_header (hdr s) = message_header (hdr msg)
     \<and> unat (HasRead s) = k \<and> \<not> FirstChunk s \<and> \<not> IsExtendedTimestamp s
     \<and> (IsIntergral s \<longleftrightarrow> k = length (ChunkData msg))
     \<and> (0 < k \<longrightarrow> length (ChunkData s) = length (ChunkData msg) \<and> take k (ChunkData s) = take k (ChunkData msg))"

lemma partly_inv:
  assumes "partly msg k s" "fits_wire L msg" "k \<le> length (ChunkData msg)"
  shows "stream_inv (GetChunkCsid msg) s"
  using assms
  by (auto simp: stream_inv_def partly_def fits_wire_def sendable_def chunk_getters word_le_nat_alt
      word_less_nat_alt word_unat_eq_iff)

lemma partly_done: "partly msg (length (ChunkData msg)) s \<Longrightarrow> 0 < length (ChunkData msg) \<Longrightarrow>
    ChunkData s = ChunkData msg \<and> IsIntergral s"
  by (auto simp: partly_def)

lemma body_size_piece:
  assumes "partly msg k s" "fits_wire L msg" "k \<le> length (ChunkData msg)" "unat (RemoteChunkSize c) = L"
  shows "unat (body_size c s) = min L (length (ChunkData msg) - k)"
proof -
  have len: "unat (GetChunkMessageLength s) = length (ChunkData msg)"
    using assms(1,2) by (simp add: partly_def fits_wire_def sendable_def chunk_getters)
  moreover have k: "unat (HasRead s) = k" using assms(1) by (simp add: partly_def)
  ultimately have "unat (GetChunkMessageLength s - HasRead s) = length (ChunkData msg) - k"
    using assms(3) by (simp add: unat_sub word_le_nat_alt)
  then show ?thesis
    using assms(4) by (simp add: body_size_def Let_def word_less_nat_alt min_def)
qed

lemma take_fill: "lo \<le> length d \<Longrightarrow> take (lo + length bs) (fill lo bs d) = take lo d @ bs"
  by (simp add: fill_def)

lemma readChunkMessageBody_piece:
  assumes s: "partly msg k s" and w: "fits_wire L msg" and k: "k < length (ChunkData msg)"
    and L: "unat (RemoteChunkSize c) = L" and p: "rd_pending c = take L (drop k (ChunkData msg)) @ rest"
  shows "\<exists>s1. readChunkMessageBody (c, s) = (Ok (), (c\<lparr>rd_pending := rest\<rparr>, s1))
    \<and> partly msg (k + min L (length (ChunkData msg) - k)) s1"
proof -
  let ?n = "length (ChunkData msg)" and ?piece = "take L (drop k (ChunkData msg))"
  let ?m = "min L (?n - k)"
  let ?s1 = "body_advance (body_size c s) ?piece (body_alloc s)"
  note inv = partly_inv [OF s w less_imp_le [OF k]]
  note sz = body_size_piece [OF s w less_imp_le [OF k] L]
  have len: "unat (GetChunkMessageLength s) = ?n" and hk: "unat (HasRead s) = k"
    using s w by (simp_all add: partly_def fits_wire_def sendable_def chunk_getters)
  then have ne: "GetChunkMessageLength s \<noteq> 0" using k by auto
  have piece: "length ?piece = ?m" by simp
  have "take ?m (rd_pending c) = ?piece" "drop ?m (rd_pending c) = rest" "?m \<le> length (rd_pending c)"
    unfolding p by (simp_all only: take_length_append [OF piece] drop_length_append [OF piece])
      (simp add: piece)
  then have r: "readChunkMessageBody (c, s) = (Ok (), (c\<lparr>rd_pending := rest\<rparr>, ?s1))"
    by (simp add: readChunkMessageBody_cases [OF inv ne] sz)
  have h: "HasRead s \<le> GetChunkMessageLength s" using inv by (simp add: stream_inv_def)
  have hs: "unat (HasRead s + body_size c s) = k + ?m" using unat_read_end [OF h, of c] hk sz by simp
  note al = body_alloc_inv [OF inv]
  have lf: "length (fill k ?piece (ChunkData (body_alloc s))) = ?n"
    using al(3) len k piece by (intro trans [OF length_fill]) (simp_all del: length_take length_drop)
  have "take k (ChunkData (body_alloc s)) = take k (ChunkData msg)"
  proof (cases "k = 0")
    case False
    with hk have "HasRead s \<noteq> 0" by auto
    with False s show ?thesis by (simp add: body_alloc_def partly_def)
  qed simp
  moreover have "take ?m (drop k (ChunkData msg)) = ?piece" by (simp add: min_def)
  ultimately have tf: "take (k + ?m) (fill k ?piece (ChunkData (body_alloc s))) = take (k + ?m) (ChunkData msg)"
    using take_fill [of k "ChunkData (body_alloc s)" ?piece] al(3) len k piece
    by (simp add: take_add)
  have "IsIntergral s \<longleftrightarrow> False" using s k by (simp add: partly_def)
  moreover have "HasRead s + body_size c s = GetChunkMessageLength s \<longleftrightarrow> k + ?m = ?n"
    using hs len by (simp add: word_unat_eq_iff)
  ultimately have fin: "IsIntergral ?s1 \<longleftrightarrow> k + ?m = ?n"
    using al by (simp add: body_advance_def Let_def chunk_getters)
  have "\<not> FirstChunk ?s1" "\<not> IsExtendedTimestamp ?s1"
    using s by (simp_all add: partly_def body_advance_def body_alloc_def Let_def)
  with s hs hk al lf tf fin have "partly msg (k + ?m) ?s1" by (simp add: partly_def)
  with r show ?thesis by blast
qed

section \<open>The loop\<close>

text \<open>A chunk stream id that can take the first chunk of a message.\<close>

definition slot_ready :: "(u32 \<Rightarrow> stream option option) \<Rightarrow> u32 \<Rightarrow> bool" where
  "slot_ready M csid \<longleftrightarrow> (case M csid of
     None \<Rightarrow> True | Some None \<Rightarrow> False | Some (Some s) \<Rightarrow> stream_idle s \<and> GetChunkCsid s = csid)"

lemma chunk_header_valid: "fits_wire L msg \<Longrightarrow> basicHeader_valid (basic_header (chunk_header msg i))"
  by (auto simp: fits_wire_def sendable_def basicHeader_valid_def chunk_header_def word_le_nat_alt)

lemma chunk_header_fields [simp]:
  "Fmt (basic_header (chunk_header msg i)) = (if 0 < i then 3 else 0)"
  "Csid (basic_header (chunk_header msg i)) = GetChunkCsid msg"
  "message_header (chunk_header msg i) = message_header (hdr msg)"
  by (simp_all add: chunk_header_def)

lemma lookup_slot:
  assumes "slot_ready (messages c) csid" "2 \<le> csid" "csid \<le> 65559"
  shows "\<exists>s. lookup_stream 0 csid c = (Ok (), c\<lparr>messages := (messages c)(csid \<mapsto> Some s)\<rparr>)
    \<and> stream_idle s \<and> GetChunkCsid s = csid"
proof (cases "messages c csid")
  case None
  have "stream_idle (fresh_stream 0 csid)" "GetChunkCsid (fresh_stream 0 csid) = csid"
    by (simp_all add: stream_idle_def fresh_stream_def zero_stream_def chunk_getters zero_header_def)
  with None assms show ?thesis by (auto simp: lookup_stream_new)
next
  case (Some p)
  with assms obtain s where s: "messages c csid = Some (Some s)" "stream_idle s" "GetChunkCsid s = csid"
    by (auto simp: slot_ready_def split: option.splits)
  then have "(messages c)(csid \<mapsto> Some s) = messages c" by auto
  then have "lookup_stream 0 csid c = (Ok (), c\<lparr>messages := (messages c)(csid \<mapsto> Some s)\<rparr>)"
    using s by (simp add: lookup_stream_def)
  with s show ?thesis by blast
qed

lemma recv_chunk_first:
  assumes w: "fits_wire L msg" and L: "unat (RemoteChunkSize c) = L"
    and slot: "slot_ready (messages c) (GetChunkCsid msg)" and p: "rd_pending c = chunk_wire L msg 0 @ rest"
  shows "\<exists>s1. partly msg (min L (length (ChunkData msg))) s1 \<and> recv_chunk c =
    (Ok (if IsIntergral s1 then Some s1 else None),
     c\<lparr>rd_pending := rest, messages := (messages c)(GetChunkCsid msg \<mapsto> Some s1)\<rparr>)"
proof -
  let ?csid = "GetChunkCsid msg" and ?mh = "message_header (hdr msg)"
  let ?piece = "take L (ChunkData msg)"
  let ?c1 = "c\<lparr>rd_pending := message_bytes ?mh 0 @ ?piece @ rest\<rparr>"
  have csid: "2 \<le> ?csid" "?csid \<le> 65559" and fits: "header_fits ?mh"
    using w by (auto simp: fits_wire_def sendable_def)
  have "rd_pending c = basic_bytes (basic_header (chunk_header msg 0)) @ message_bytes ?mh 0 @ ?piece @ rest"
    using p by (simp add: chunk_wire_def header_bytes_def chunk_piece_def)
  from readChunkBasicHeader_bytes [OF this chunk_header_valid [OF w]]
  have b: "readChunkBasicHeader c = (Ok (0, ?csid), ?c1)" by simp
  obtain s where l: "lookup_stream 0 ?csid ?c1
      = (Ok (), ?c1\<lparr>messages := (messages c)(?csid \<mapsto> Some s)\<rparr>)"
    and s: "stream_idle s" "GetChunkCsid s = ?csid"
    using lookup_slot [of ?c1 ?csid] slot csid by auto
  let ?c2 = "?c1\<lparr>messages := (messages c)(?csid \<mapsto> Some s)\<rparr>"
  let ?s1 = "s\<lparr>hdr := (hdr s)\<lparr>message_header := ?mh\<rparr>, TimestampDelta := Timestamp ?mh, FirstChunk := False\<rparr>"
  have h: "readChunkMessageHeader 0 (?c2, s) = (Ok (), (?c2\<lparr>rd_pending := ?piece @ rest\<rparr>, ?s1))"
    using s by (intro readChunkMessageHeader_0 [OF _ fits]) (simp_all add: stream_idle_def)
  have n: "0 < length (ChunkData msg)"
    using w by (auto simp: fits_wire_def sendable_def word_less_nat_alt)
  have "partly msg 0 ?s1" using s n by (auto simp: partly_def stream_idle_def chunk_getters)
  then obtain s1 where "readChunkMessageBody (?c2\<lparr>rd_pending := ?piece @ rest\<rparr>, ?s1)
      = (Ok (), (?c2\<lparr>rd_pending := rest\<rparr>, s1))" and s1: "partly msg (min L (length (ChunkData msg))) s1"
    using readChunkMessageBody_piece [OF _ w n, of ?s1 "?c2\<lparr>rd_pending := ?piece @ rest\<rparr>" rest] L by auto
  then have "recv_chunk c = (Ok (if IsIntergral s1 then Some s1 else None),
      c\<lparr>rd_pending := rest, messages := (messages c)(?csid \<mapsto> Some s1)\<rparr>)"
    by (simp add: recv_chunk_def recv_chunk_body_def go_bind_def go_wrap_def b l with_stream_def h)
  with s1 show ?thesis by blast
qed

lemma recv_chunk_continue:
  assumes w: "fits_wire L msg" and L: "unat (RemoteChunkSize c) = L" and k: "k < length (ChunkData msg)"
    and slot: "messages c (GetChunkCsid msg) = Some (Some s)" "partly msg k s"
    and p: "rd_pending c = basic_bytes \<lparr>Fmt = 3, Csid = GetChunkCsid msg\<rparr> @ take L (drop k (ChunkData msg)) @ rest"
  shows "\<exists>s1. partly msg (min (k + L) (length (ChunkData msg))) s1 \<and> recv_chunk c =
    (Ok (if IsIntergral s1 then Some s1 else None),
     c\<lparr>rd_pending := rest, messages := (messages c)(GetChunkCsid msg \<mapsto> Some s1)\<rparr>)"
proof -
  let ?csid = "GetChunkCsid msg" and ?piece = "take L (drop k (ChunkData msg))"
  let ?c1 = "c\<lparr>rd_pending := ?piece @ rest\<rparr>"
  have "basicHeader_valid \<lparr>Fmt = 3, Csid = ?csid\<rparr>"
    using chunk_header_valid [OF w, of 1] by (simp add: chunk_header_def)
  from readChunkBasicHeader_bytes [OF p this]
  have b: "readChunkBasicHeader c = (Ok (3, ?csid), ?c1)" by simp
  have l: "lookup_stream 3 ?csid ?c1 = (Ok (), ?c1)" using slot by (simp add: lookup_stream_def)
  have h: "readChunkMessageHeader 3 (?c1, s) = (Ok (), (?c1, s))"
    using slot(2) by (intro readChunkMessageHeader_3) (simp_all add: partly_def)
  have "k + min L (length (ChunkData msg) - k) = min (k + L) (length (ChunkData msg))"
    using k by auto
  with readChunkMessageBody_piece [OF slot(2) w k, of ?c1 rest] L obtain s1
    where "readChunkMessageBody (?c1, s) = (Ok (), (c\<lparr>rd_pending := rest\<rparr>, s1))"
      and s1: "partly msg (min (k + L) (length (ChunkData msg))) s1" by auto
  then have "recv_chunk c = (Ok (if IsIntergral s1 then Some s1 else None),
      c\<lparr>rd_pending := rest, messages := (messages c)(?csid \<mapsto> Some s1)\<rparr>)"
    by (simp add: recv_chunk_def recv_chunk_body_def go_bind_def go_wrap_def b l with_stream_def h slot)
  with s1 show ?thesis by blast
qed

lemma recv_chunk_next:
  assumes w: "fits_wire L msg" and L: "unat (RemoteChunkSize c) = L" and i: "0 < i" "i * L < length (ChunkData msg)"
    and slot: "messages c (GetChunkCsid msg) = Some (Some s)" "partly msg (i * L) s"
    and p: "rd_pending c = chunk_wire L msg i @ rest"
  shows "\<exists>s1. partly msg (min (Suc i * L) (length (ChunkData msg))) s1 \<and> recv_chunk c =
    (Ok (if IsIntergral s1 then Some s1 else None),
     c\<lparr>rd_pending := rest, messages := (messages c)(GetChunkCsid msg \<mapsto> Some s1)\<rparr>)"
proof -
  have "rd_pending c = basic_bytes \<lparr>Fmt = 3, Csid = GetChunkCsid msg\<rparr>
      @ take L (drop (i * L) (ChunkData msg)) @ rest"
    using p i(1) by (simp add: chunk_wire_def header_bytes_def chunk_piece_def message_bytes_def
        chunk_header_def word_le_nat_alt)
  from recv_chunk_continue [OF w L i(2) slot this] show ?thesis by (simp add: add.commute)
qed

text \<open>
  The rest of a message, from its second chunk on: \<open>N\<close> chunks, the last of which is not empty.
\<close>

lemma RecvIntegralMessage_rest:
  assumes w: "fits_wire L msg" and N: "\<And>i. i < N \<longleftrightarrow> i * L < length (ChunkData msg)"
  shows "unat (RemoteChunkSize c) = L \<Longrightarrow> 0 < i \<Longrightarrow> i < N \<Longrightarrow>
    messages c (GetChunkCsid msg) = Some (Some s) \<Longrightarrow> partly msg (i * L) s \<Longrightarrow>
    rd_pending c = concat (map (chunk_wire L msg) [i..<N]) @ rest \<Longrightarrow>
    \<exists>s1. partly msg (length (ChunkData msg)) s1 \<and> RecvIntegralMessage c =
      (Ok s1, c\<lparr>rd_pending := rest, messages := (messages c)(GetChunkCsid msg \<mapsto> Some s1)\<rparr>)"
proof (induction "N - i" arbitrary: c i s)
  case (Suc d)
  let ?n = "length (ChunkData msg)" and ?csid = "GetChunkCsid msg"
  let ?tail = "concat (map (chunk_wire L msg) [Suc i..<N]) @ rest"
  have d: "d = N - Suc i" using Suc.hyps(2) by simp
  have lt: "i * L < ?n" using Suc.prems(3) N by blast
  have "rd_pending c = chunk_wire L msg i @ ?tail"
    using Suc.prems by (simp add: upt_conv_Cons)
  from recv_chunk_next [OF w Suc.prems(1,2) lt Suc.prems(4,5) this] obtain s1
    where s1: "partly msg (min (Suc i * L) ?n) s1" and r: "recv_chunk c =
      (Ok (if IsIntergral s1 then Some s1 else None),
       c\<lparr>rd_pending := ?tail, messages := (messages c)(?csid \<mapsto> Some s1)\<rparr>)" by blast
  let ?c1 = "c\<lparr>rd_pending := ?tail, messages := (messages c)(?csid \<mapsto> Some s1)\<rparr>"
  show ?case
  proof (cases "Suc i * L < ?n")
    case True
    then have more: "\<not> IsIntergral s1" "partly msg (Suc i * L) s1" "Suc i < N"
      using s1 N by (auto simp: partly_def min_def)
    then obtain s2 where "partly msg ?n s2" "RecvIntegralMessage ?c1 =
        (Ok s2, ?c1\<lparr>rd_pending := rest, messages := (messages ?c1)(?csid \<mapsto> Some s2)\<rparr>)"
      using Suc.hyps(1) [of "Suc i" ?c1 s1] d Suc.prems(1) by auto
    moreover have "RecvIntegralMessage c = RecvIntegralMessage ?c1"
      using r more(1) by (simp add: RecvIntegralMessage.simps [of c])
    ultimately show ?thesis by auto
  next
    case False
    then have "partly msg ?n s1" "\<not> Suc i < N" using s1 N [of "Suc i"] by simp_all
    moreover from this have "IsIntergral s1" by (simp add: partly_def)
    ultimately show ?thesis using r by (auto simp: RecvIntegralMessage.simps [of c])
  qed
qed simp

lemma RecvIntegralMessage_chunks:
  assumes w: "fits_wire L msg" and N: "\<And>i. i < N \<longleftrightarrow> i * L < length (ChunkData msg)"
    and L: "unat (RemoteChunkSize c) = L" and slot: "slot_ready (messages c) (GetChunkCsid msg)"
    and p: "rd_pending c = concat (map (chunk_wire L msg) [0..<N]) @ rest"
  shows "\<exists>s. partly msg (length (ChunkData msg)) s \<and> RecvIntegralMessage c =
    (Ok s, c\<lparr>rd_pending := rest, messages := (messages c)(GetChunkCsid msg \<mapsto> Some s)\<rparr>)"
proof -
  let ?n = "length (ChunkData msg)" and ?csid = "GetChunkCsid msg"
  let ?tail = "concat (map (chunk_wire L msg) [1..<N]) @ rest"
  have "0 < ?n" using w by (auto simp: fits_wire_def sendable_def word_less_nat_alt)
  then have "0 < N" using N [of 0] by simp
  then have "rd_pending c = chunk_wire L msg 0 @ ?tail" using p by (simp add: upt_conv_Cons)
  from recv_chunk_first [OF w L slot this] obtain s1
    where s1: "partly msg (min L ?n) s1" and r: "recv_chunk c =
      (Ok (if IsIntergral s1 then Some s1 else None),
       c\<lparr>rd_pending := ?tail, messages := (messages c)(?csid \<mapsto> Some s1)\<rparr>)" by blast
  let ?c1 = "c\<lparr>rd_pending := ?tail, messages := (messages c)(?csid \<mapsto> Some s1)\<rparr>"
  show ?thesis
  proof (cases "?n \<le> L")
    case True
    with s1 have "partly msg ?n s1" by (simp add: min_absorb2)
    moreover from this have "IsIntergral s1" by (simp add: partly_def)
    moreover have "N \<le> 1" using N [of 1] True by simp
    ultimately show ?thesis using r by (auto simp: RecvIntegralMessage.simps [of c])
  next
    case False
    have part: "partly msg (1 * L) s1" using s1 False by (simp add: min_absorb1)
    have more: "\<not> IsIntergral s1" "1 < N" using part False N [of 1] by (simp_all add: partly_def)
    obtain s2 where "partly msg ?n s2" "RecvIntegralMessage ?c1 =
        (Ok s2, ?c1\<lparr>rd_pending := rest, messages := (messages ?c1)(?csid \<mapsto> Some s2)\<rparr>)"
      using RecvIntegralMessage_rest [OF w N, of ?c1 1 s1 rest] L part more(2) by auto
    moreover have "RecvIntegralMessage c = RecvIntegralMessage ?c1"
      using r more(1) by (simp add: RecvIntegralMessage.simps [of c])
    ultimately show ?thesis by auto
  qed
qed

lemma chunk_index_less:
  assumes "on_wire L msg"
  shows "i < chunk_count L (length (ChunkData msg)) \<longleftrightarrow> i * L < length (ChunkData msg)"
proof (cases "length (ChunkData msg) \<le> L")
  case True
  moreover have "0 < length (ChunkData msg)"
    using assms by (auto simp: on_wire_def fits_wire_def sendable_def word_less_nat_alt)
  moreover have "i * L < length (ChunkData msg) \<Longrightarrow> i = 0"
    using True by (cases i) auto
  ultimately show ?thesis by (auto simp: chunk_count_def)
next
  case False
  let ?n = "length (ChunkData msg)"
  have L: "0 < L" "\<not> L dvd ?n" using assms False by (auto simp: on_wire_def fits_wire_def whole_chunks_def)
  have "i < Suc (?n div L) \<longleftrightarrow> i * L \<le> ?n"
    using L(1) by (simp add: less_Suc_eq_le less_eq_div_iff_mult_less_eq)
  also have "\<dots> \<longleftrightarrow> i * L < ?n" using L(2) by (metis dvd_triv_right le_less)
  finally show ?thesis using False by (simp add: chunk_count_def)
qed

lemmas RecvIntegralMessage_wire =
  RecvIntegralMessage_chunks [OF _ chunk_index_less, folded wire_bytes_def]

section \<open>Sequences of messages\<close>

text \<open>
  \<open>m\<close> called \<open>n\<close> times, its results collected; and what a receiver of messages promises: from a state
  that is ready, it takes one encoded message off its input and is ready again.
\<close>

primrec go_repeat :: "nat \<Rightarrow> ('s, 'a) go \<Rightarrow> ('s, 'a list) go" where
  "go_repeat 0 m = go_return []"
| "go_repeat (Suc n) m = go_bind m (\<lambda>x. go_bind (go_repeat n m) (\<lambda>xs. go_return (x # xs)))"

locale message_codec =
  fixes encode :: "'m \<Rightarrow> bytes" and ok :: "'m \<Rightarrow> bool"
    and recv :: "('s, 'r) go" and pending :: "'s \<Rightarrow> bytes" and ready :: "'s \<Rightarrow> bool"
    and carries :: "'r \<Rightarrow> 'm \<Rightarrow> bool"
  assumes recv_encoded:
    "ready s \<Longrightarrow> ok m \<Longrightarrow> pending s = encode m @ rest \<Longrightarrow>
      \<exists>r t. recv s = (Ok r, t) \<and> carries r m \<and> ready t \<and> pending t = rest"
begin

lemma recv_sequence:
  "ready s \<Longrightarrow> \<forall>m \<in> set ms. ok m \<Longrightarrow> pending s = concat (map encode ms) @ rest \<Longrightarrow>
    \<exists>rs t. go_repeat (length ms) recv s = (Ok rs, t) \<and> list_all2 carries rs ms \<and> ready t
      \<and> pending t = rest"
proof (induction ms arbitrary: s)
  case Nil
  then show ?case by (auto simp: go_return_def)
next
  case (Cons m ms)
  have "pending s = encode m @ concat (map encode ms) @ rest" using Cons.prems(3) by simp
  with recv_encoded [OF Cons.prems(1)] Cons.prems(2) obtain r t
    where r: "recv s = (Ok r, t)" "carries r m" and t: "ready t" "pending t = concat (map encode ms) @ rest"
    by (metis list.set_intros(1))
  with Cons.IH [OF t(1) _ t(2)] Cons.prems(2) show ?case
    by (fastforce simp: go_bind_def go_return_def)
qed

text \<open>Nothing is added or lost: as many messages come out as went in.\<close>

lemma recv_sequence_length:
  assumes "ready s" "\<forall>m \<in> set ms. ok m" "pending s = concat (map encode ms)"
  shows "\<exists>rs t. go_repeat (length ms) recv s = (Ok rs, t) \<and> length rs = length ms \<and> pending t = []"
  using recv_sequence [of s ms "[]"] assms by (auto dest: list_all2_lengthD)

end

text \<open>
  The handler's \<open>defer msg.Reset()\<close> makes the stream idle again; receiving a message and resetting it is
  one round of \<open>recvChunkStream\<close> and \<open>publishCycle\<close>.
\<close>

definition reset_message :: "stream \<Rightarrow> (connection, unit) go" where
  "reset_message msg =
     go_modify (\<lambda>c. c\<lparr>messages := (messages c)(GetChunkCsid msg \<mapsto> Some (stream_Reset msg))\<rparr>)"

definition recv_and_reset :: "(connection, stream) go" where
  "recv_and_reset = go_bind RecvIntegralMessage (\<lambda>msg. go_bind (reset_message msg) (\<lambda>_. go_return msg))"

definition conn_ready :: "nat \<Rightarrow> connection \<Rightarrow> bool" where
  "conn_ready L c \<longleftrightarrow> unat (RemoteChunkSize c) = L
     \<and> (\<forall>csid. 2 \<le> csid \<and> csid \<le> 65559 \<longrightarrow> slot_ready (messages c) csid)"

definition carries_message :: "stream \<Rightarrow> chunk \<Rightarrow> bool" where
  "carries_message s msg \<longleftrightarrow> GetChunkCsid s = GetChunkCsid msg
     \<and> message_header (hdr s) = message_header (hdr msg) \<and> ChunkData s = ChunkData msg"

interpretation chunk_codec: message_codec "wire_bytes L" "on_wire L" recv_and_reset rd_pending
  "conn_ready L" carries_message for L
proof unfold_locales
  fix c msg rest
  assume c: "conn_ready L c" and w: "on_wire L msg" and p: "rd_pending c = wire_bytes L msg @ rest"
  have csid: "2 \<le> GetChunkCsid msg" "GetChunkCsid msg \<le> 65559" and n: "0 < length (ChunkData msg)"
    and f: "fits_wire L msg"
    using w by (auto simp: on_wire_def fits_wire_def sendable_def word_less_nat_alt)
  with RecvIntegralMessage_wire [OF f w _ _ p] c obtain s where s: "partly msg (length (ChunkData msg)) s"
    and r: "RecvIntegralMessage c =
      (Ok s, c\<lparr>rd_pending := rest, messages := (messages c)(GetChunkCsid msg \<mapsto> Some s)\<rparr>)"
    by (auto simp: conn_ready_def)
  let ?c1 = "c\<lparr>rd_pending := rest, messages := (messages c)(GetChunkCsid msg \<mapsto> Some (stream_Reset s))\<rparr>"
  have k: "GetChunkCsid s = GetChunkCsid msg" using s by (simp add: partly_def)
  then have "recv_and_reset c = (Ok s, ?c1)"
    by (simp add: recv_and_reset_def go_bind_def r reset_message_def go_modify_def go_return_def)
  moreover have "carries_message s msg"
    using s partly_done [OF s n] by (simp add: carries_message_def partly_def)
  moreover have "conn_ready L ?c1"
    using c s k
    by (auto simp: conn_ready_def slot_ready_def stream_idle_def stream_Reset_def partly_def chunk_getters)
  ultimately show "\<exists>r t. recv_and_reset c = (Ok r, t) \<and> carries_message r msg \<and> conn_ready L t
      \<and> rd_pending t = rest" by auto
qed

lemma conn_ready_Init:
  "conn_Init c = (Ok (), c1) \<Longrightarrow> conn_ready (unat (RemoteChunkSize c1)) c1"
  by (auto simp: conn_ready_def slot_ready_def dest: conn_Init_bounds)

section \<open>Sending several messages before a flush\<close>

text \<open>
  The handlers and the player queue several messages and flush them together; each entry has the
  choices of its pool buffers, its chunk from \<open>NewChunkPool\<close> and its message.
\<close>

primrec send_messages :: "((nat \<Rightarrow> nat) \<times> chunk \<times> chunk) list \<Rightarrow> (connection, nat) go" where
  "send_messages [] = go_return 0"
| "send_messages (x # xs) =
     (case x of (pick, ck, msg) \<Rightarrow>
        go_bind (SendIntegralMessage pick ck msg) (\<lambda>nw.
        go_bind (send_messages xs) (\<lambda>n. go_return (nw + n))))"

abbreviation sent :: "((nat \<Rightarrow> nat) \<times> chunk \<times> chunk) list \<Rightarrow> chunk list" where
  "sent xs \<equiv> map (\<lambda>x. snd (snd x)) xs"

lemma basic_bytes_le_3: "length (basic_bytes bh) \<le> 3"
  by (simp add: length_basic_bytes)

lemma send_messages_ok:
  "\<forall>msg \<in> set (sent xs). sendable msg \<Longrightarrow> pool_ok 3 c \<Longrightarrow> queue_ok c \<Longrightarrow> L = unat (LocalChunkSize c) \<Longrightarrow> 0 < L \<Longrightarrow>
    \<exists>c1. send_messages xs c = (Ok (length (concat (map (wire_bytes L) (sent xs)))), c1)
      \<and> queued 3 c (concat (map (wire_bytes L) (sent xs))) c1"
proof (induction xs arbitrary: c)
  case Nil
  then show ?case by (simp add: go_return_def queued_refl)
next
  case (Cons x xs)
  obtain pick ck msg where x: "x = (pick, ck, msg)" by (cases x)
  with Cons.prems have "sendable msg" by simp
  with SendIntegralMessage_ok [OF _ basic_bytes_le_3 _ Cons.prems(2,3,4,5), of msg pick ck] obtain c1
    where s: "SendIntegralMessage pick ck msg c = (Ok (length (wire_bytes L msg)), c1)"
      and q: "queued 3 c (wire_bytes L msg) c1" by auto
  have "pool_ok 3 c1" "queue_ok c1" "L = unat (LocalChunkSize c1)"
    using q Cons.prems(4) by (auto simp: queued_def)
  with Cons.IH [of c1] Cons.prems obtain c2 where
    "send_messages xs c1 = (Ok (length (concat (map (wire_bytes L) (sent xs)))), c2)"
    and "queued 3 c1 (concat (map (wire_bytes L) (sent xs))) c2" by auto
  with x s queued_trans [OF q] show ?case by (auto simp: go_bind_def go_return_def)
qed

lemma Flush_queued:
  assumes q: "queued m c bs c1" and e: "writeBuf c = []" and m: "1 \<le> m"
  shows "\<exists>c2. conn_Flush None small c1 = (Ok (length bs), c2) \<and> wire_out c2 = wire_out c @ bs
    \<and> writeBuf c2 = [] \<and> queue_ok c2 \<and> pool_ok 1 c2"
proof -
  have "buffers_bytes (writeBuf c1) = bs" "wire_out c1 = wire_out c" "queue_ok c1"
    using q e by (auto simp: queued_def buffers_bytes_def)
  moreover have "pool_ok 1 c1" using q m by (force simp: queued_def pool_ok_def)
  ultimately show ?thesis using Flush_ok [of c1 small] by auto
qed

section \<open>A message to try things on\<close>

definition sample_msg :: "u32 \<Rightarrow> u32 \<Rightarrow> bytes \<Rightarrow> chunk" where
  "sample_msg csid t d = \<lparr>hdr = \<lparr>basic_header = \<lparr>Fmt = 0, Csid = csid\<rparr>, message_header =
     \<lparr>Timestamp = t, MessageLength = of_nat (length d), MessageTypeID = 8, MessageStreamID = 1\<rparr>,
     ExtendedTimestamp = 0\<rparr>, ChunkData = d\<rparr>"

lemma sample_conn_ready [simp]: "conn_ready 128 (sample_conn input)"
  by (simp add: sample_conn_def conn_ready_def slot_ready_def)

section \<open>Properties\<close>

text \<open>C2: what is sent arrives, for the messages the two sides agree on. These have at least one byte of data,
  are not exactly two or more full chunks, have a timestamp below \<open>0xffffff\<close>, a length of less than
  \<open>2 ^ 24\<close>, a type of less than \<open>2 ^ 8\<close> and a chunk stream id from 2 to 65559 (\<open>on_wire\<close>). When such
  messages are queued on a connection with nothing queued and pooled header buffers of three bytes or more,
  and flushed to a network that takes them whole, a peer that expects chunks of the same size and has no
  message half read receives them in the same order, each with its chunk stream, header fields and
  payload; nothing is left over, and the flush reports the number of bytes that was queued.\<close>

theorem send_flush_receive:
  assumes "\<forall>msg \<in> set (sent xs). on_wire (unat (LocalChunkSize c)) msg" "pool_ok 3 c" "writeBuf c = []"
    "0 < LocalChunkSize c"
  shows "\<exists>n c1 c2 bs. send_messages xs c = (Ok n, c1) \<and> conn_Flush None small c1 = (Ok n, c2)
    \<and> wire_out c2 = wire_out c @ bs \<and> n = length bs
    \<and> (\<forall>p. conn_ready (unat (LocalChunkSize c)) p \<and> rd_pending p = bs \<longrightarrow>
         (\<exists>rs t. go_repeat (length xs) recv_and_reset p = (Ok rs, t)
            \<and> list_all2 carries_message rs (sent xs) \<and> rd_pending t = []
            \<and> conn_ready (unat (LocalChunkSize c)) t))"
proof -
  let ?L = "unat (LocalChunkSize c)"
  define bs where "bs = concat (map (wire_bytes ?L) (sent xs))"
  have "\<forall>msg \<in> set (sent xs). sendable msg" using assms(1) by (simp add: on_wire_def fits_wire_def)
  moreover have "queue_ok c" using assms(3) by (simp add: queue_ok_def)
  moreover have "0 < ?L" using assms(4) by (simp add: word_less_nat_alt)
  ultimately obtain c1 where s: "send_messages xs c = (Ok (length bs), c1)" and q: "queued 3 c bs c1"
    using send_messages_ok [of xs c ?L] assms(2) unfolding bs_def by blast
  obtain c2 where
    f: "conn_Flush None small c1 = (Ok (length bs), c2)" "wire_out c2 = wire_out c @ bs"
    using Flush_queued [OF q assms(3), of small] by auto
  have "\<exists>rs t. go_repeat (length xs) recv_and_reset p = (Ok rs, t)
      \<and> list_all2 carries_message rs (sent xs) \<and> rd_pending t = [] \<and> conn_ready ?L t"
    if "conn_ready ?L p" "rd_pending p = bs" for p
    using chunk_codec.recv_sequence [OF that(1) assms(1), of "[]"] that(2) by (auto simp: bs_def)
  with s f show ?thesis by blast
qed

theorem send_flush_receive_witness:
  "let xs = [(\<lambda>_. 0, zero_chunk, sample_msg 4 40 [1, 2, 3]), (\<lambda>_. 0, zero_chunk, sample_msg 6 41 (replicate 300 7))];
       c = sample_conn []
   in \<exists>n c1 c2 bs. send_messages xs c = (Ok n, c1) \<and> conn_Flush None False c1 = (Ok n, c2)
    \<and> wire_out c2 = wire_out c @ bs \<and> n = length bs
    \<and> (\<forall>p. conn_ready (unat (LocalChunkSize c)) p \<and> rd_pending p = bs \<longrightarrow>
         (\<exists>rs t. go_repeat (length xs) recv_and_reset p = (Ok rs, t)
            \<and> list_all2 carries_message rs (sent xs) \<and> rd_pending t = []
            \<and> conn_ready (unat (LocalChunkSize c)) t))"
proof -
  let ?xs = "[(\<lambda>_. 0, zero_chunk, sample_msg 4 40 [1, 2, 3]), (\<lambda>_. 0, zero_chunk, sample_msg 6 41 (replicate 300 7))]"
  let ?c = "sample_conn []"
  have "\<forall>msg \<in> set (sent ?xs). on_wire (unat (LocalChunkSize ?c)) msg" "pool_ok 3 ?c" "writeBuf ?c = []"
    "0 < LocalChunkSize ?c"
    by (simp_all add: sample_conn_def sample_msg_def on_wire_def fits_wire_def sendable_def
        header_fits_def whole_chunks_def chunk_getters pool_ok_def)
  from send_flush_receive [OF this, of False] show ?thesis unfolding Let_def .
qed

end
