(* ===== verification/Conn_Faults.thy ===== *)
theory Conn_Faults
  imports Conn_Roundtrip
begin

text \<open>
  Where the connection layer leaves the protocol: chunk stream ids its stream table cannot hold, a
  chunk size of zero, messages of a whole number of chunks, extended timestamps. Each is stated for
  every connection and input of its shape.
\<close>

section \<open>Chunk stream ids beyond 65559\<close>

lemma recv_chunk_nil:
  assumes p: "rd_pending c = basic_bytes \<lparr>Fmt = f, Csid = csid\<rparr> @ rest" and f: "f \<le> 3"
    and csid: "65559 < csid" "csid \<le> 65599" and fresh: "messages c csid = None"
  shows "recv_chunk c =
    (Panic NilDereference, c\<lparr>rd_pending := rest, messages := (messages c)(csid \<mapsto> None)\<rparr>)"
proof -
  have c2: "2 \<le> csid" "\<not> csid \<le> 65559" using csid by (auto simp: word_le_nat_alt word_less_nat_alt)
  have v: "basicHeader_valid \<lparr>Fmt = f, Csid = csid\<rparr>"
    using f csid c2 by (simp add: basicHeader_valid_def)
  have b: "readChunkBasicHeader c = (Ok (f, csid), c\<lparr>rd_pending := rest\<rparr>)"
    using readChunkBasicHeader_bytes [OF p v] by simp
  have "lookup_stream f csid (c\<lparr>rd_pending := rest\<rparr>)
      = (Ok (), c\<lparr>rd_pending := rest, messages := (messages c)(csid \<mapsto> None)\<rparr>)"
    using lookup_stream_new [of "c\<lparr>rd_pending := rest\<rparr>" csid f] fresh f c2 by simp
  with b show ?thesis by (simp add: recv_chunk_def go_bind_def go_wrap_def with_stream_def)
qed

section \<open>A chunk size of zero\<close>

text \<open>No stream of the table holds a complete message.\<close>

definition none_complete :: "(u32 \<Rightarrow> stream option option) \<Rightarrow> bool" where
  "none_complete M \<longleftrightarrow> (\<forall>csid s. M csid = Some (Some s) \<longrightarrow> \<not> IsIntergral s \<and> HasRead s = 0)"

definition zero_inv :: "(u32 \<Rightarrow> stream option option) \<Rightarrow> rcv \<Rightarrow> bool" where
  "zero_inv M s \<longleftrightarrow> messages (fst s) = M \<and> RemoteChunkSize (fst s) = 0
     \<and> \<not> IsIntergral (snd s) \<and> HasRead (snd s) = 0"

lemma conn_Read_chunk_size: "RemoteChunkSize (snd (conn_Read n c)) = RemoteChunkSize c"
  by (simp add: conn_Read_def Let_def)

lemma zero_inv_on_conn:
  "(\<And>c. messages (snd (m c)) = messages c \<and> RemoteChunkSize (snd (m c)) = RemoteChunkSize c) \<Longrightarrow>
    go_keeps (zero_inv M) (on_conn m)"
  by (auto simp: go_keeps_def on_conn_def zero_inv_def split: prod.splits) (metis snd_conv)+

lemma zero_inv_upd:
  "(\<And>s. IsIntergral (f s) = IsIntergral s \<and> HasRead (f s) = HasRead s) \<Longrightarrow> go_keeps (zero_inv M) (upd_msg f)"
  by (auto simp: go_keeps_def upd_msg_def zero_inv_def)

lemma zero_inv_header: "go_keeps (zero_inv M) (readChunkMessageHeader f)"
proof -
  have r: "messages (snd (conn_Read n c)) = messages c \<and> RemoteChunkSize (snd (conn_Read n c)) = RemoteChunkSize c"
    for n c by (simp add: conn_Read_def Let_def)
  have p: "messages (snd (conn_Peek n c)) = messages c \<and> RemoteChunkSize (snd (conn_Peek n c)) = RemoteChunkSize c"
    "messages (snd (conn_Discard n c)) = messages c \<and> RemoteChunkSize (snd (conn_Discard n c)) = RemoteChunkSize c"
    for n c by (simp_all add: conn_Peek_def conn_Discard_def)
  have t: "go_keeps (zero_inv M) (upd_msg (WithChunkStreamTimeStamp t))" for t
    by (rule zero_inv_upd) (simp add: stream_options)
  have "go_keeps (zero_inv M) (go_bind (go_wrap msg (on_conn (conn_Peek 4)))
      (\<lambda>buffer. if P buffer then go_return () else go_bind (on_conn (conn_Discard 4))
        (\<lambda>_. upd_msg (WithChunkStreamTimeStamp (g buffer)))))" for P g msg
    using p t by (auto intro!: go_keeps_bind go_keeps_wrap zero_inv_on_conn)
  then have e: "go_keeps (zero_inv M) read_extended_timestamp"
    by (simp add: go_keeps_def read_extended_timestamp_def Let_def split: prod.splits)
  have l: "go_keeps (zero_inv M) (read_length_type f buf)" for buf
    by (auto simp: go_keeps_def read_length_type_def zero_inv_def Let_def stream_options)
  have "go_keeps (zero_inv M) (upd_msg (read_timestamp f buf))" for buf
    by (rule zero_inv_upd) (simp add: read_timestamp_def Let_def stream_options)
  moreover have "go_keeps (zero_inv M) (upd_msg (\<lambda>msg. if P msg then WithChunkStreamTimeStamp (g msg) msg else msg))"
    for P g by (rule zero_inv_upd) (simp add: stream_options)
  ultimately have q: "go_keeps (zero_inv M) (parse_message_header f buf)" for buf
    using l by (auto simp: parse_message_header_def intro!: go_keeps_bind)
  have "go_keeps (zero_inv M) (upd_msg finish_message_header)"
    by (rule zero_inv_upd) (simp add: finish_message_header_def Let_def)
  with e q r have "go_keeps (zero_inv M)
     (go_bind (go_wrap ''read message header'' (on_conn (conn_Read (FmtToMessageHdrSize ! unat f))))
        (\<lambda>buf. go_bind (parse_message_header f buf) (\<lambda>_.
          go_bind read_extended_timestamp (\<lambda>_. upd_msg finish_message_header))))"
    by (intro go_keeps_bind go_keeps_wrap zero_inv_on_conn)
  then show ?thesis
    by (simp add: go_keeps_def readChunkMessageHeader_def split: prod.splits)
qed

lemma zero_inv_body: "go_keeps (zero_inv M) readChunkMessageBody"
proof (rule go_keepsI)
  fix s :: rcv assume s: "zero_inv M s"
  obtain c msg where cm: "s = (c, msg)" by (cases s)
  show "zero_inv M (snd (readChunkMessageBody s))"
  proof (cases "GetChunkMessageLength msg = 0")
    case True
    with s cm show ?thesis by (simp add: readChunkMessageBody_def zero_inv_def)
  next
    case False
    then have "body_size c msg = 0" "GetChunkMessageLength (body_alloc msg) = GetChunkMessageLength msg"
      using s cm by (auto simp: zero_inv_def body_size_def Let_def word_gt_0 body_alloc_def chunk_getters)
    with False s cm show ?thesis
      by (simp add: readChunkMessageBody_def read_payload_def zero_inv_def Let_def conn_Read_def
          body_alloc_def body_advance_def chunk_getters)
  qed
qed

lemma recv_chunk_body_zero:
  assumes "zero_inv M s" "recv_chunk_body f s = (r, t)"
  shows "zero_inv M t \<and> (\<forall>msg. r \<noteq> Ok (Some msg))"
proof -
  have "go_keeps (zero_inv M) (recv_chunk_body f)"
    unfolding recv_chunk_body_def
    by (intro go_keeps_bind go_keeps_wrap zero_inv_header zero_inv_body) (simp add: go_keeps_def)
  with assms have t: "zero_inv M t" by (metis go_keepsD snd_conv)
  moreover have "r \<noteq> Ok (Some msg)" for msg
    using assms(2) t
    by (auto simp: recv_chunk_body_def zero_inv_def elim!: go_bind_OkE split: if_splits)
  ultimately show ?thesis by blast
qed

lemma recv_chunk_zero:
  assumes c: "none_complete (messages c)" "RemoteChunkSize c = 0" and r: "recv_chunk c = (r, c1)"
  shows "none_complete (messages c1) \<and> RemoteChunkSize c1 = 0 \<and> (\<forall>msg. r \<noteq> Ok (Some msg))"
proof -
  have rd: "RemoteChunkSize c' = RemoteChunkSize c" if "readChunkBasicHeader c = (x, c')" for x c'
  proof -
    have "RemoteChunkSize (snd (ReadBytesAsUint32 conn_Read n be c)) = RemoteChunkSize c" for n be c
      by (simp add: ReadBytesAsUint32_def go_bind_def go_return_def conn_Read_def Let_def)
    then show ?thesis using that
      by (auto simp: readChunkBasicHeader_def go_bind_def go_wrap_def go_return_def Let_def
          split: prod.splits res.splits if_splits) (metis snd_conv)+
  qed
  from r show ?thesis
  proof (cases rule: recv_chunk_split)
    case basic
    with c rd readChunkBasicHeader_messages show ?thesis by fastforce
  next
    case (body f csid c0)
    let ?c = "snd (lookup_stream f csid c0)"
    have c0: "none_complete (messages c0)" "RemoteChunkSize c0 = 0"
      using c rd [OF body(1)] readChunkBasicHeader_messages [OF body(1)] by simp_all
    have "RemoteChunkSize ?c = 0"
      using c0 by (simp add: lookup_stream_def Let_def split: option.splits)
    moreover have "none_complete (messages ?c)"
    proof (cases "messages c0 csid")
      case None
      have "f \<le> 3" "2 \<le> csid"
        using readChunkBasicHeader_csid [OF body(1)] readChunkBasicHeader_fmt [OF body(1)]
        by (auto simp: u32_bounds)
      with None c0 show ?thesis
        by (auto simp: lookup_stream_new none_complete_def fresh_stream_def zero_stream_def)
    qed (use c0 in \<open>simp add: lookup_stream_def\<close>)
    ultimately have z: "none_complete (messages ?c)" "RemoteChunkSize ?c = 0" by simp_all
    show ?thesis
    proof (cases "\<exists>s. messages ?c csid = Some (Some s)")
      case True
      then obtain s where s: "messages ?c csid = Some (Some s)" by blast
      obtain c' s' where b: "recv_chunk_body f (?c, s) = (r, (c', s'))"
        and c1: "c1 = c'\<lparr>messages := (messages c')(csid \<mapsto> Some s')\<rparr>"
        using body(2) s by (auto simp: with_stream_def split: prod.splits)
      have "zero_inv (messages ?c) (?c, s)" using z s by (auto simp: zero_inv_def none_complete_def)
      from recv_chunk_body_zero [OF this b] z(1) c1 show ?thesis
        by (auto simp: zero_inv_def none_complete_def)
    next
      case False
      then have "with_stream csid (recv_chunk_body f) ?c = (Panic NilDereference, ?c)"
        by (auto simp: with_stream_def split: option.splits)
      with body(2) z show ?thesis by auto
    qed
  qed
qed

lemma RecvIntegralMessage_zero:
  "none_complete (messages c) \<Longrightarrow> RemoteChunkSize c = 0 \<Longrightarrow> RecvIntegralMessage c \<noteq> (Ok msg, c1)"
proof (induction c rule: RecvIntegralMessage.induct)
  case (1 c)
  obtain r0 c0 where rc: "recv_chunk c = (r0, c0)" by (cases "recv_chunk c")
  from recv_chunk_zero [OF "1.prems" rc] "1.IH" [OF rc [symmetric]] rc show ?case
    by (auto simp: RecvIntegralMessage.simps [of c] split: res.splits option.splits)
qed

section \<open>One message, sent and flushed\<close>

lemma send_flush_wire:
  assumes "sendable msg" "pool_ok 3 c" "writeBuf c = []" "0 < LocalChunkSize c"
  shows "\<exists>c1 c2. SendIntegralMessage pick ck msg c = (Ok (length (wire_bytes (unat (LocalChunkSize c)) msg)), c1)
    \<and> conn_Flush None small c1 = (Ok (length (wire_bytes (unat (LocalChunkSize c)) msg)), c2)
    \<and> wire_out c2 = wire_out c @ wire_bytes (unat (LocalChunkSize c)) msg"
proof -
  let ?bs = "wire_bytes (unat (LocalChunkSize c)) msg"
  have "queue_ok c" "0 < unat (LocalChunkSize c)" using assms(3,4) by (simp_all add: queue_ok_def word_less_nat_alt)
  with SendIntegralMessage_ok [OF assms(1) basic_bytes_le_3 _ assms(2) _ refl, of pick ck] obtain c1 where
    s: "SendIntegralMessage pick ck msg c = (Ok (length ?bs), c1)" and q: "queued 3 c ?bs c1" by auto
  from Flush_queued [OF q assms(3), of small] s show ?thesis by auto
qed

section \<open>Messages of a whole number of chunks\<close>

text \<open>
  The extra chunk the sender writes for a message of two or more full chunks: one type 3 basic header
  and no data. The receiver, which has the message by then, leaves those bytes on its input.
\<close>

lemma wire_bytes_whole:
  assumes "whole_chunks L msg" "0 < L"
  shows "wire_bytes L msg =
    concat (map (chunk_wire L msg) [0..<length (ChunkData msg) div L])
    @ basic_bytes \<lparr>Fmt = 3, Csid = GetChunkCsid msg\<rparr>"
proof -
  let ?n = "length (ChunkData msg)"
  have "0 < ?n div L" using assms by (simp add: whole_chunks_def div_greater_zero_iff)
  moreover have "?n div L * L = ?n" using assms(1) by (simp add: whole_chunks_def)
  ultimately have "chunk_wire L msg (?n div L) = basic_bytes \<lparr>Fmt = 3, Csid = GetChunkCsid msg\<rparr>"
    by (simp add: chunk_wire_def header_bytes_def message_bytes_def chunk_piece_def chunk_header_def
        word_le_nat_alt)
  with assms(1) show ?thesis
    by (simp add: wire_bytes_def chunk_count_def whole_chunks_def)
qed

lemma RecvIntegralMessage_whole:
  assumes w: "fits_wire L msg" and n: "whole_chunks L msg" and L: "unat (RemoteChunkSize c) = L"
    and slot: "slot_ready (messages c) (GetChunkCsid msg)" and p: "rd_pending c = wire_bytes L msg @ rest"
  shows "\<exists>s. partly msg (length (ChunkData msg)) s \<and> RecvIntegralMessage c =
    (Ok s, c\<lparr>rd_pending := basic_bytes \<lparr>Fmt = 3, Csid = GetChunkCsid msg\<rparr> @ rest,
      messages := (messages c)(GetChunkCsid msg \<mapsto> Some s)\<rparr>)"
proof -
  let ?n = "length (ChunkData msg)"
  have l: "0 < L" using w by (simp add: fits_wire_def)
  have "?n div L * L = ?n" using n by (simp add: whole_chunks_def)
  then have "i < ?n div L \<longleftrightarrow> i * L < ?n" for i using l by (metis mult_less_cancel2)
  from RecvIntegralMessage_chunks [OF w this L slot] p show ?thesis
    by (simp add: wire_bytes_whole [OF n l])
qed

text \<open>
  After that header the next bytes, whatever they start, are read as the payload of a message with
  the old header.
\<close>

lemma recv_after_whole:
  assumes w: "fits_wire L msg" and n: "whole_chunks L msg" and ready: "conn_ready L c"
    and p: "rd_pending c = wire_bytes L msg @ rest" and rest: "L \<le> length rest"
  shows "\<exists>s c1 c2 s2. recv_and_reset c = (Ok s, c1) \<and> carries_message s msg
    \<and> recv_chunk c1 = (Ok None, c2) \<and> rd_pending c2 = drop L rest
    \<and> messages c2 (GetChunkCsid msg) = Some (Some s2)
    \<and> message_header (hdr s2) = message_header (hdr msg) \<and> unat (HasRead s2) = L
    \<and> take L (ChunkData s2) = take L rest"
proof -
  let ?csid = "GetChunkCsid msg" and ?n = "length (ChunkData msg)"
  have csid: "2 \<le> ?csid" "?csid \<le> 65559" and n0: "0 < ?n"
    using w by (auto simp: fits_wire_def sendable_def word_less_nat_alt)
  with ready have rc: "unat (RemoteChunkSize c) = L" and slot: "slot_ready (messages c) ?csid"
    by (simp_all add: conn_ready_def)
  obtain s where s: "partly msg ?n s" and r: "RecvIntegralMessage c =
    (Ok s, c\<lparr>rd_pending := basic_bytes \<lparr>Fmt = 3, Csid = ?csid\<rparr> @ rest,
      messages := (messages c)(?csid \<mapsto> Some s)\<rparr>)"
    using RecvIntegralMessage_whole [OF w n rc slot p] by blast
  have k: "GetChunkCsid s = ?csid" using s by (simp add: partly_def)
  let ?c1 = "c\<lparr>rd_pending := basic_bytes \<lparr>Fmt = 3, Csid = ?csid\<rparr> @ rest,
      messages := (messages c)(?csid \<mapsto> Some (stream_Reset s))\<rparr>"
  have r1: "recv_and_reset c = (Ok s, ?c1)"
    by (simp add: recv_and_reset_def go_bind_def r reset_message_def go_modify_def go_return_def k)
  have cm: "carries_message s msg"
    using s partly_done [OF s n0] by (simp add: carries_message_def partly_def)
  let ?ghost = "msg\<lparr>ChunkData := take L rest @ replicate (?n - L) 0\<rparr>"
  have L: "0 < L" "L < ?n" using w n by (simp_all add: fits_wire_def whole_chunks_def)
  have len: "length (ChunkData ?ghost) = ?n" using rest L by simp
  have g: "fits_wire L ?ghost"
    using w len by (simp add: fits_wire_def sendable_def chunk_getters)
  have gs: "partly ?ghost 0 (stream_Reset s)"
    using s n0 len by (auto simp: partly_def stream_Reset_def chunk_getters)
  have gc: "GetChunkCsid ?ghost = ?csid" by (simp add: chunk_getters)
  have gp: "take L (drop 0 (ChunkData ?ghost)) = take L rest" using rest by simp
  have "\<exists>s1. partly ?ghost (min (0 + L) (length (ChunkData ?ghost))) s1 \<and> recv_chunk ?c1 =
    (Ok (if IsIntergral s1 then Some s1 else None),
     ?c1\<lparr>rd_pending := drop L rest, messages := (messages ?c1)(GetChunkCsid ?ghost \<mapsto> Some s1)\<rparr>)"
  proof (rule recv_chunk_continue [OF g _ _ _ gs])
    show "rd_pending ?c1 = basic_bytes \<lparr>Fmt = 3, Csid = GetChunkCsid ?ghost\<rparr>
        @ take L (drop 0 (ChunkData ?ghost)) @ drop L rest"
      unfolding gp gc by simp
  qed (use rc n0 rest L in \<open>simp_all add: gc\<close>)
  then obtain s2 where s2: "partly ?ghost L s2" and r2: "recv_chunk ?c1 =
    (Ok (if IsIntergral s2 then Some s2 else None),
     ?c1\<lparr>rd_pending := drop L rest, messages := (messages ?c1)(?csid \<mapsto> Some s2)\<rparr>)"
    using len L by (auto simp: gc)
  have "\<not> IsIntergral s2" "take L (ChunkData s2) = take L rest" "unat (HasRead s2) = L"
    "message_header (hdr s2) = message_header (hdr msg)"
    using s2 len L rest by (auto simp: partly_def)
  with r1 cm r2 show ?thesis by (intro exI conjI) auto
qed

section \<open>Extended timestamps\<close>

text \<open>
  A message whose timestamp does not fit three bytes is sent with the marker \<open>0xffffff\<close> and without
  the four bytes of the extended timestamp, for which the receiver takes the first four of the payload.
\<close>

lemma readChunkMessageHeader_marker:
  assumes p: "rd_pending c = message_bytes mh 0 @ ext @ rest" "length ext = 4"
    and mh: "0xffffff \<le> Timestamp mh" "unat (MessageLength mh) < 2 ^ 24" "unat (MessageTypeID mh) < 2 ^ 8"
    and s: "HasRead s = 0" "FirstChunk s"
  shows "readChunkMessageHeader 0 (c, s) = (Ok (), (c\<lparr>rd_pending := rest\<rparr>,
    s\<lparr>hdr := (hdr s)\<lparr>message_header := mh\<lparr>Timestamp := BytesAsUint32 ext True AND 0x7fffffff\<rparr>\<rparr>,
      TimestampDelta := 0xffffff, IsExtendedTimestamp := True, FirstChunk := False\<rparr>))"
proof -
  obtain mk :: u32 where mk: "mk = 0xffffff" by simp
  then have m24: "take_bit 24 mk = mk" "0xffffff \<le> mk" by (simp_all add: take_bit_self)
  let ?buf = "be_bytes 3 mk @ be_bytes 3 (MessageLength mh) @ be_bytes 1 (MessageTypeID mh)
    @ le_bytes 4 (MessageStreamID mh)"
  have tb: "take_bit 24 (MessageLength mh) = MessageLength mh" "take_bit 8 (MessageTypeID mh) = MessageTypeID mh"
    using mh(2,3) by (simp_all add: take_bit_self)
  have tb32: "take_bit 32 (MessageStreamID mh) = MessageStreamID mh"
    by (rule bit_word_eqI) (simp add: bit_simps)
  have "message_bytes mh 0 = ?buf" using mh(1) mk by (simp add: message_bytes_def min_absorb2)
  with p have r: "conn_Read 11 c = (Ok ?buf, c\<lparr>rd_pending := ext @ rest\<rparr>)"
    using conn_rd.read_append [of c ?buf "ext @ rest"] by simp
  have "readChunkMessageHeader 0 (c, s) = (Ok (), (c\<lparr>rd_pending := rest\<rparr>,
    s\<lparr>hdr := (hdr s)\<lparr>message_header := mh\<lparr>Timestamp := BytesAsUint32 ext True AND 0x7fffffff\<rparr>\<rparr>,
      TimestampDelta := mk, IsExtendedTimestamp := True, FirstChunk := False\<rparr>))"
    using s tb tb32 m24 p(2)
    by (simp add: readChunkMessageHeader_def go_bind_def go_wrap_def on_conn_def r conn_Peek_def
        FmtToMessageHdrSize_def parse_message_header_def upd_msg_def read_timestamp_def conn_Discard_def
        read_length_type_def read_extended_timestamp_def finish_message_header_def Let_def
        stream_options chunk_getters go_return_def del: One_nat_def)
  then show ?thesis unfolding mk .
qed

lemma wire_bytes_single: "length (ChunkData msg) \<le> L \<Longrightarrow> wire_bytes L msg =
    basic_bytes \<lparr>Fmt = 0, Csid = GetChunkCsid msg\<rparr> @ message_bytes (message_header (hdr msg)) 0 @ ChunkData msg"
  by (simp add: wire_bytes_def chunk_count_def chunk_wire_def header_bytes_def chunk_header_def chunk_piece_def)

text \<open>The body of a message of one chunk, on a stream that has read nothing of it yet.\<close>

lemma readChunkMessageBody_single:
  assumes "stream_inv csid s" "HasRead s = 0" "0 < GetChunkMessageLength s" "GetChunkMessageLength s \<le> RemoteChunkSize c"
    "rd_pending c = d @ rest" "length d = unat (GetChunkMessageLength s)"
  shows "readChunkMessageBody (c, s) = (Ok (), (c\<lparr>rd_pending := rest\<rparr>,
    s\<lparr>ChunkData := d, HasRead := GetChunkMessageLength s, IsIntergral := True\<rparr>))"
proof -
  have sz: "body_size c s = GetChunkMessageLength s" using assms(2,4) by (simp add: body_size_def Let_def not_less [symmetric])
  have ne: "GetChunkMessageLength s \<noteq> 0" using assms(3) by auto
  from readChunkMessageBody_cases [OF assms(1) ne, of c] show ?thesis
    using assms(2,5,6) by (simp add: sz body_advance_def body_alloc_def fill_def Let_def chunk_getters)
qed

lemma RecvIntegralMessage_marker:
  assumes msg: "sendable msg" "GetChunkCsid msg \<le> 65559" "length (ChunkData msg) \<le> L"
    and mh: "0xffffff \<le> GetChunkTimestamp msg" "unat (GetChunkMessageLength msg) < 2 ^ 24"
      "unat (GetChunkMessageTypeID msg) < 2 ^ 8"
    and c: "unat (RemoteChunkSize c) = L" "messages c (GetChunkCsid msg) = None"
    and p: "rd_pending c = wire_bytes L msg @ rest" and four: "4 \<le> length (ChunkData msg)" "4 \<le> length rest"
  shows "\<exists>s c1. RecvIntegralMessage c = (Ok s, c1) \<and> rd_pending c1 = drop 4 rest
    \<and> GetChunkTimestamp s = BytesAsUint32 (take 4 (ChunkData msg)) True AND 0x7fffffff
    \<and> ChunkData s = drop 4 (ChunkData msg) @ take 4 rest"
proof -
  let ?csid = "GetChunkCsid msg" and ?mh = "message_header (hdr msg)" and ?d = "ChunkData msg"
  have csid: "2 \<le> ?csid" and len: "0 < GetChunkMessageLength msg" "unat (GetChunkMessageLength msg) = length ?d"
    using msg(1) by (simp_all add: sendable_def)
  let ?in = "message_bytes ?mh 0 @ take 4 ?d @ drop 4 ?d @ rest"
  have p': "rd_pending c = basic_bytes \<lparr>Fmt = 0, Csid = ?csid\<rparr> @ ?in"
    using p by (simp add: wire_bytes_single [OF msg(3)])
  have "basicHeader_valid \<lparr>Fmt = 0, Csid = ?csid\<rparr>"
    using csid msg(1) by (simp add: basicHeader_valid_def sendable_def)
  from readChunkBasicHeader_bytes [OF p' this]
  have b: "readChunkBasicHeader c = (Ok (0, ?csid), c\<lparr>rd_pending := ?in\<rparr>)" by simp
  let ?s = "fresh_stream 0 ?csid" and ?t = "BytesAsUint32 (take 4 ?d) True AND 0x7fffffff"
  let ?c = "\<lambda>bs. c\<lparr>rd_pending := bs, messages := (messages c)(?csid \<mapsto> Some ?s)\<rparr>"
  have l: "lookup_stream 0 ?csid (c\<lparr>rd_pending := ?in\<rparr>) = (Ok (), ?c ?in)"
    using lookup_stream_new [of "c\<lparr>rd_pending := ?in\<rparr>" ?csid 0] c(2) csid msg(2) by simp
  let ?s1 = "?s\<lparr>hdr := (hdr ?s)\<lparr>message_header := ?mh\<lparr>Timestamp := ?t\<rparr>\<rparr>,
      TimestampDelta := 0xffffff, IsExtendedTimestamp := True, FirstChunk := False\<rparr>"
  have s0: "HasRead ?s = 0" "FirstChunk ?s" by (simp_all add: fresh_stream_def zero_stream_def)
  have h: "readChunkMessageHeader 0 (?c ?in, ?s) = (Ok (), (?c (drop 4 ?d @ rest), ?s1))"
    using readChunkMessageHeader_marker [of "?c ?in" ?mh "take 4 ?d" "drop 4 ?d @ rest" ?s, OF _ _ _ _ _ s0] mh four
    by (simp add: chunk_getters)
  have inv: "stream_inv ?csid ?s1"
    using stream_inv_fresh [OF csid msg(2), of 0] by (simp add: stream_inv_def fresh_stream_def zero_stream_def chunk_getters)
  have len1: "GetChunkMessageLength ?s1 = GetChunkMessageLength msg" by (simp add: chunk_getters)
  let ?s2 = "?s1\<lparr>ChunkData := drop 4 ?d @ take 4 rest, HasRead := GetChunkMessageLength msg, IsIntergral := True\<rparr>"
  have body: "readChunkMessageBody (?c (drop 4 ?d @ rest), ?s1) = (Ok (),
      (?c (drop 4 rest),
       ?s2))"
    using readChunkMessageBody_single [OF inv, of "?c (drop 4 ?d @ rest)" "drop 4 ?d @ take 4 rest" "drop 4 rest"]
      len s0 four msg(3) c(1) unfolding len1 by (simp add: word_le_nat_alt)
  have "recv_chunk c = (Ok (Some ?s2), c\<lparr>rd_pending := drop 4 rest, messages := (messages c)(?csid \<mapsto> Some ?s2)\<rparr>)"
    by (simp add: recv_chunk_def recv_chunk_body_def go_bind_def go_wrap_def b l with_stream_def h body)
  then show ?thesis by (simp add: RecvIntegralMessage.simps [of c] chunk_getters)
qed

text \<open>
  The extended mark of a stream is never cleared: a later message header with an ordinary timestamp
  leaves the stream's timestamp as it was, unless the next four bytes happen to repeat it.
\<close>

lemma readChunkMessageHeader_sticky:
  assumes p: "rd_pending c = message_bytes mh 0 @ nxt @ rest" "length nxt = 4" and fits: "header_fits mh"
    and s: "HasRead s = 0" "\<not> FirstChunk s" "IsExtendedTimestamp s" "0 < GetChunkTimestamp s"
      "BytesAsUint32 nxt True AND 0x7fffffff \<noteq> GetChunkTimestamp s"
  shows "readChunkMessageHeader 0 (c, s) = (Ok (), (c\<lparr>rd_pending := nxt @ rest\<rparr>,
    s\<lparr>hdr := (hdr s)\<lparr>message_header := mh\<lparr>Timestamp := GetChunkTimestamp s\<rparr>\<rparr>,
      TimestampDelta := Timestamp mh\<rparr>))"
proof -
  let ?buf = "be_bytes 3 (Timestamp mh) @ be_bytes 3 (MessageLength mh) @ be_bytes 1 (MessageTypeID mh)
    @ le_bytes 4 (MessageStreamID mh)"
  have t: "Timestamp mh < 0xffffff" "unat (Timestamp mh) < 2 ^ 24"
    using fits by (simp_all add: header_fits_def word_less_nat_alt word_le_nat_alt)
  have tb: "take_bit 24 (Timestamp mh) = Timestamp mh" "take_bit 24 (MessageLength mh) = MessageLength mh"
    "take_bit 8 (MessageTypeID mh) = MessageTypeID mh"
    using t fits by (simp_all add: header_fits_def take_bit_self)
  have tb32: "take_bit 32 (MessageStreamID mh) = MessageStreamID mh"
    by (rule bit_word_eqI) (simp add: bit_simps)
  have "message_bytes mh 0 = ?buf" using t(1) by (simp add: message_bytes_def min_absorb1 less_imp_le)
  with p have r: "conn_Read 11 c = (Ok ?buf, c\<lparr>rd_pending := nxt @ rest\<rparr>)"
    using conn_rd.read_append [of c ?buf "nxt @ rest"] by simp
  have fc: "s\<lparr>FirstChunk := False\<rparr> = s" using s(2) by (cases s) simp
  have x: "IsExtendedTimestamp s = True" "FirstChunk s = False" using s by simp_all
  show ?thesis
    using s(1,4,5) x tb tb32 p(2) fc
    by (cases s) (simp add: readChunkMessageHeader_def go_bind_def go_wrap_def on_conn_def r conn_Peek_def
        FmtToMessageHdrSize_def parse_message_header_def upd_msg_def read_timestamp_def
        read_length_type_def read_extended_timestamp_def finish_message_header_def Let_def
        stream_options chunk_getters go_return_def del: One_nat_def)
qed

lemma crash_input: "fst (RecvIntegralMessage (sample_conn [1, 255, 255])) = Panic NilDereference"
proof -
  have "le_byte 65535 0 = 255" "le_byte 65535 1 = 255" by (simp_all add: le_byte_def)
  then have "basic_bytes \<lparr>Fmt = 0, Csid = 65599\<rparr> = [1, 255, 255]"
    by (simp add: basic_bytes_def le_bytes_def Let_def upt_rec)
  then show ?thesis
    using recv_chunk_nil [of "sample_conn [1, 255, 255]" 0 65599 "[]"]
    by (simp add: sample_conn_def RecvIntegralMessage.simps)
qed

section \<open>Properties\<close>

text \<open>C20: a chunk stream id that its encoder accepts crashes the receiver. A basic header for a chunk
  stream id from 65560 to 65599, well formed by the sender's own check, makes
  \<open>RecvIntegralMessage\<close> dereference a nil stream on a connection that has not seen it.\<close>

theorem recv_csid_crash:
  assumes "Fmt bh \<le> 3" "65559 < Csid bh" "Csid bh \<le> 65599" "messages c (Csid bh) = None"
    "rd_pending c = basic_bytes bh @ rest"
  shows "RecvIntegralMessage c =
    (Panic NilDereference, c\<lparr>rd_pending := rest, messages := (messages c)(Csid bh \<mapsto> None)\<rparr>)"
proof -
  have "bh = \<lparr>Fmt = Fmt bh, Csid = Csid bh\<rparr>" by (cases bh) simp
  then have "rd_pending c = basic_bytes \<lparr>Fmt = Fmt bh, Csid = Csid bh\<rparr> @ rest" using assms(5) by metis
  from recv_chunk_nil [OF this assms(1-4)] show ?thesis
    by (simp add: RecvIntegralMessage.simps [of c])
qed

theorem recv_csid_crash_witness:
  "fst (RecvIntegralMessage (sample_conn [1, 255, 255])) = Panic NilDereference"
proof -
  have "le_byte 65535 0 = 255" "le_byte 65535 1 = 255" by (simp_all add: le_byte_def)
  then have "basic_bytes \<lparr>Fmt = 0, Csid = 65599\<rparr> = [1, 255, 255]"
    by (simp add: basic_bytes_def le_bytes_def Let_def upt_rec)
  then show ?thesis
    using recv_csid_crash [of "\<lparr>Fmt = 0, Csid = 65599\<rparr>" "sample_conn [1, 255, 255]" "[]"]
    by (simp add: sample_conn_def)
qed

text \<open>C21: a peer that sets the chunk size to zero is never heard again. On a connection none of whose
  streams holds a message, after \<open>HandleSetChunkSizeMessage\<close> for a size of zero, no input makes
  \<open>RecvIntegralMessage\<close> deliver a message.\<close>

theorem zero_chunk_size_blocks:
  assumes "BytesAsUint32 (ChunkData msg) True = 0" "none_complete (messages c)"
  shows "fst (RecvIntegralMessage (HandleSetChunkSizeMessage msg c)) \<noteq> Ok s"
proof -
  let ?c = "HandleSetChunkSizeMessage msg c"
  have "RecvIntegralMessage ?c \<noteq> (Ok s, snd (RecvIntegralMessage ?c))"
    using assms by (intro RecvIntegralMessage_zero) (simp_all add: HandleSetChunkSizeMessage_def)
  then show ?thesis by (metis prod.collapse)
qed

theorem zero_chunk_size_blocks_witness:
  "\<forall>s. fst (RecvIntegralMessage (HandleSetChunkSizeMessage (sample_msg 2 0 [0, 0, 0, 0])
     (sample_conn (wire_bytes 128 (sample_msg 4 1 [1, 2, 3]))))) \<noteq> Ok s"
  by (rule allI, rule zero_chunk_size_blocks)
    (simp_all add: sample_msg_def sample_conn_def none_complete_def BytesAsUint32_def
      BytesAsUint32_step_def upt_rec)

text \<open>C19: a message of exactly two or more full chunks desynchronises the peer. Sent with nothing else queued,
  with header fields that fit and pooled buffers of three bytes or more, it ends with one more chunk header
  and no data. A peer that expects chunks of the same size and has no message half read delivers the message, then takes the
  first bytes of whatever follows, a chunk size of them, as the payload of a message with the old header.\<close>

theorem whole_chunks_desync:
  assumes "fits_wire (unat (LocalChunkSize c)) msg" "whole_chunks (unat (LocalChunkSize c)) msg"
    "pool_ok 3 c" "writeBuf c = []"
  shows "\<exists>n c1 c2 bs front. SendIntegralMessage pick ck msg c = (Ok n, c1) \<and> conn_Flush None small c1 = (Ok n, c2)
    \<and> wire_out c2 = wire_out c @ bs \<and> bs = front @ basic_bytes \<lparr>Fmt = 3, Csid = GetChunkCsid msg\<rparr>
    \<and> (\<forall>p rest. conn_ready (unat (LocalChunkSize c)) p \<and> rd_pending p = bs @ rest
          \<and> unat (LocalChunkSize c) \<le> length rest \<longrightarrow>
        (\<exists>s p1 p2 s2. recv_and_reset p = (Ok s, p1) \<and> carries_message s msg
          \<and> recv_chunk p1 = (Ok None, p2) \<and> rd_pending p2 = drop (unat (LocalChunkSize c)) rest
          \<and> messages p2 (GetChunkCsid msg) = Some (Some s2)
          \<and> message_header (hdr s2) = message_header (hdr msg) \<and> unat (HasRead s2) = unat (LocalChunkSize c)
          \<and> take (unat (LocalChunkSize c)) (ChunkData s2) = take (unat (LocalChunkSize c)) rest))"
proof -
  have L: "0 < LocalChunkSize c" and msg: "sendable msg"
    using assms(1) by (simp_all add: fits_wire_def word_less_nat_alt)
  from send_flush_wire [OF msg assms(3,4) L, of pick ck small] obtain c1 c2 where
    "SendIntegralMessage pick ck msg c = (Ok (length (wire_bytes (unat (LocalChunkSize c)) msg)), c1)"
    "conn_Flush None small c1 = (Ok (length (wire_bytes (unat (LocalChunkSize c)) msg)), c2)"
    "wire_out c2 = wire_out c @ wire_bytes (unat (LocalChunkSize c)) msg" by blast
  moreover have "\<exists>front. wire_bytes (unat (LocalChunkSize c)) msg = front @ basic_bytes \<lparr>Fmt = 3, Csid = GetChunkCsid msg\<rparr>"
    using assms(1) wire_bytes_whole [OF assms(2)] by (auto simp: fits_wire_def)
  ultimately show ?thesis using recv_after_whole [OF assms(1,2)] by blast
qed

theorem whole_chunks_desync_witness:
  "let msg = sample_msg 4 40 (replicate 256 1)
   in \<exists>n c1 c2 bs s p1 p2. SendIntegralMessage (\<lambda>_. 0) zero_chunk msg (sample_conn []) = (Ok n, c1)
    \<and> conn_Flush None False c1 = (Ok n, c2) \<and> wire_out c2 = bs
    \<and> recv_and_reset (sample_conn (bs @ replicate 130 2)) = (Ok s, p1) \<and> carries_message s msg
    \<and> recv_chunk p1 = (Ok None, p2) \<and> rd_pending p2 = [2, 2]"
proof -
  let ?msg = "sample_msg 4 40 (replicate 256 1)" and ?c = "sample_conn []"
  have "fits_wire (unat (LocalChunkSize ?c)) ?msg" "whole_chunks (unat (LocalChunkSize ?c)) ?msg" "pool_ok 3 ?c"
    "writeBuf ?c = []" and L: "unat (LocalChunkSize ?c) = 128" "wire_out ?c = []"
    by (simp_all add: sample_conn_def sample_msg_def fits_wire_def sendable_def header_fits_def whole_chunks_def
        chunk_getters pool_ok_def)
  from whole_chunks_desync [OF this(1-4), of "\<lambda>_. 0" zero_chunk False] obtain n c1 c2 bs where
    s: "SendIntegralMessage (\<lambda>_. 0) zero_chunk ?msg ?c = (Ok n, c1)" "conn_Flush None False c1 = (Ok n, c2)"
      "wire_out c2 = wire_out ?c @ bs"
    and r: "\<forall>p rest. conn_ready 128 p \<and> rd_pending p = bs @ rest \<and> 128 \<le> length rest \<longrightarrow>
      (\<exists>s p1 p2 s2. recv_and_reset p = (Ok s, p1) \<and> carries_message s ?msg
        \<and> recv_chunk p1 = (Ok None, p2) \<and> rd_pending p2 = drop 128 rest
        \<and> messages p2 (GetChunkCsid ?msg) = Some (Some s2)
        \<and> message_header (hdr s2) = message_header (hdr ?msg) \<and> unat (HasRead s2) = 128
        \<and> take 128 (ChunkData s2) = take 128 rest)"
    unfolding L(1) by blast
  have "rd_pending (sample_conn (bs @ replicate 130 2)) = bs @ replicate 130 2" by (simp add: sample_conn_def)
  with r [rule_format, of "sample_conn (bs @ replicate 130 2)" "replicate 130 2"] obtain s p1 p2 where
    "recv_and_reset (sample_conn (bs @ replicate 130 2)) = (Ok s, p1)" "carries_message s ?msg"
    "recv_chunk p1 = (Ok None, p2)" "rd_pending p2 = [2, 2]" by (auto simp: numeral_2_eq_2)
  with s L(2) show ?thesis unfolding Let_def by simp
qed

text \<open>C32: timestamps from \<open>0xffffff\<close> on do not survive. Sent with nothing else queued and pooled buffers of
  three bytes or more, a message of one chunk has the marker and not the extended timestamp. A peer that gets it as the first message of its chunk stream takes the first four
  bytes of the payload for the timestamp, and the first four bytes of whatever follows for the end of the
  payload.\<close>

theorem extended_timestamp_lost:
  assumes "sendable msg" "GetChunkCsid msg \<le> 65559" "length (ChunkData msg) \<le> unat (LocalChunkSize c)"
    "4 \<le> length (ChunkData msg)" "0xffffff \<le> GetChunkTimestamp msg" "unat (GetChunkMessageLength msg) < 2 ^ 24"
    "unat (GetChunkMessageTypeID msg) < 2 ^ 8" "pool_ok 3 c" "writeBuf c = []"
  shows "\<exists>n c1 c2 bs. SendIntegralMessage pick ck msg c = (Ok n, c1) \<and> conn_Flush None small c1 = (Ok n, c2)
    \<and> wire_out c2 = wire_out c @ bs
    \<and> (\<forall>p rest. unat (RemoteChunkSize p) = unat (LocalChunkSize c) \<and> messages p (GetChunkCsid msg) = None
          \<and> rd_pending p = bs @ rest \<and> 4 \<le> length rest \<longrightarrow>
        (\<exists>s p1. RecvIntegralMessage p = (Ok s, p1) \<and> rd_pending p1 = drop 4 rest
          \<and> GetChunkTimestamp s = BytesAsUint32 (take 4 (ChunkData msg)) True AND 0x7fffffff
          \<and> ChunkData s = drop 4 (ChunkData msg) @ take 4 rest))"
proof -
  have L: "0 < LocalChunkSize c" using assms(3,4) by (simp add: word_less_nat_alt)
  from send_flush_wire [OF assms(1,8,9) L, of pick ck small] obtain c1 c2 where
    "SendIntegralMessage pick ck msg c = (Ok (length (wire_bytes (unat (LocalChunkSize c)) msg)), c1)"
    "conn_Flush None small c1 = (Ok (length (wire_bytes (unat (LocalChunkSize c)) msg)), c2)"
    "wire_out c2 = wire_out c @ wire_bytes (unat (LocalChunkSize c)) msg" by blast
  then show ?thesis using RecvIntegralMessage_marker [OF assms(1-3,5-7) _ _ _ assms(4)]
    by (intro exI [of _ "length (wire_bytes (unat (LocalChunkSize c)) msg)"] exI [of _ c1] exI [of _ c2]
        exI [of _ "wire_bytes (unat (LocalChunkSize c)) msg"] conjI allI impI) auto
qed

theorem extended_timestamp_lost_witness:
  "let msg = sample_msg 4 0x1000000 [0, 0, 0, 9, 5]
   in \<exists>n c1 c2 bs s p1. SendIntegralMessage (\<lambda>_. 0) zero_chunk msg (sample_conn []) = (Ok n, c1)
    \<and> conn_Flush None False c1 = (Ok n, c2) \<and> wire_out c2 = bs
    \<and> RecvIntegralMessage (sample_conn (bs @ [1, 2, 3, 4, 6])) = (Ok s, p1) \<and> rd_pending p1 = [6]
    \<and> GetChunkTimestamp s = 9 \<and> ChunkData s = [5, 1, 2, 3, 4]"
proof -
  let ?d = "[0, 0, 0, 9, 5] :: u8 list"
  let ?msg = "sample_msg 4 0x1000000 ?d" and ?c = "sample_conn []"
  have a: "sendable ?msg" "GetChunkCsid ?msg \<le> 65559" "length (ChunkData ?msg) \<le> unat (LocalChunkSize ?c)"
    "4 \<le> length (ChunkData ?msg)" "0xffffff \<le> GetChunkTimestamp ?msg" "unat (GetChunkMessageLength ?msg) < 2 ^ 24"
    "unat (GetChunkMessageTypeID ?msg) < 2 ^ 8" "pool_ok 3 ?c" "writeBuf ?c = []"
    and d: "ChunkData ?msg = ?d" "GetChunkCsid ?msg = 4" "unat (LocalChunkSize ?c) = 128" "wire_out ?c = []"
    by (simp_all add: sample_conn_def sample_msg_def sendable_def chunk_getters pool_ok_def)
  from extended_timestamp_lost [OF a, of "\<lambda>_. 0" zero_chunk False] obtain n c1 c2 bs where
    s: "SendIntegralMessage (\<lambda>_. 0) zero_chunk ?msg ?c = (Ok n, c1)" "conn_Flush None False c1 = (Ok n, c2)"
      "wire_out c2 = wire_out ?c @ bs"
    and r: "\<forall>p rest. unat (RemoteChunkSize p) = 128 \<and> messages p 4 = None \<and> rd_pending p = bs @ rest \<and> 4 \<le> length rest
      \<longrightarrow> (\<exists>s p1. RecvIntegralMessage p = (Ok s, p1) \<and> rd_pending p1 = drop 4 rest
        \<and> GetChunkTimestamp s = BytesAsUint32 (take 4 ?d) True AND 0x7fffffff \<and> ChunkData s = drop 4 ?d @ take 4 rest)"
    unfolding d(1-3) by blast
  have "unat (RemoteChunkSize (sample_conn (bs @ [1, 2, 3, 4, 6]))) = 128" "messages (sample_conn (bs @ [1, 2, 3, 4, 6])) 4 = None"
    "rd_pending (sample_conn (bs @ [1, 2, 3, 4, 6])) = bs @ [1, 2, 3, 4, 6]" by (simp_all add: sample_conn_def)
  with r [rule_format, of "sample_conn (bs @ [1, 2, 3, 4, 6])" "[1, 2, 3, 4, 6]"] obtain s p1 where
    "RecvIntegralMessage (sample_conn (bs @ [1, 2, 3, 4, 6])) = (Ok s, p1)" "rd_pending p1 = [6]"
    "GetChunkTimestamp s = 9" "ChunkData s = [5, 1, 2, 3, 4]"
    by (auto simp: BytesAsUint32_def BytesAsUint32_step_def upt_rec)
  with s d(4) show ?thesis unfolding Let_def by simp
qed

text \<open>C33: the extended-timestamp mark of a stream is never cleared. A later type 0 header with an
  ordinary timestamp, followed by payload that does not repeat the old one, is given the old timestamp.\<close>

theorem extended_timestamp_sticks:
  assumes "rd_pending c = message_bytes mh 0 @ d" "4 \<le> length d" "header_fits mh" "HasRead s = 0"
    "\<not> FirstChunk s" "IsExtendedTimestamp s" "0 < GetChunkTimestamp s"
    "BytesAsUint32 (take 4 d) True AND 0x7fffffff \<noteq> GetChunkTimestamp s"
  shows "\<exists>c1 s1. readChunkMessageHeader 0 (c, s) = (Ok (), (c1, s1)) \<and> rd_pending c1 = d
    \<and> GetChunkTimestamp s1 = GetChunkTimestamp s \<and> IsExtendedTimestamp s1
    \<and> TimestampDelta s1 = Timestamp mh"
  using readChunkMessageHeader_sticky [of c mh "take 4 d" "drop 4 d" s] assms
  by (simp add: chunk_getters)

theorem extended_timestamp_sticks_witness:
  "let mh = \<lparr>Timestamp = 5, MessageLength = 4, MessageTypeID = 8, MessageStreamID = 1\<rparr>;
       s = (WithChunkStreamTimeStamp 0x1000000 (fresh_stream 0 4))\<lparr>FirstChunk := False, IsExtendedTimestamp := True\<rparr>;
       c = sample_conn (message_bytes mh 0 @ [1, 2, 3, 4])
   in \<exists>c1 s1. readChunkMessageHeader 0 (c, s) = (Ok (), (c1, s1)) \<and> rd_pending c1 = [1, 2, 3, 4]
    \<and> GetChunkTimestamp s1 = 0x1000000 \<and> IsExtendedTimestamp s1 \<and> TimestampDelta s1 = 5"
  using extended_timestamp_sticks [of "sample_conn (message_bytes
        \<lparr>Timestamp = 5, MessageLength = 4, MessageTypeID = 8, MessageStreamID = 1\<rparr> 0 @ [1, 2, 3, 4])"
      "\<lparr>Timestamp = 5, MessageLength = 4, MessageTypeID = 8, MessageStreamID = 1\<rparr>" "[1, 2, 3, 4]"
      "(WithChunkStreamTimeStamp 0x1000000 (fresh_stream 0 4))\<lparr>FirstChunk := False, IsExtendedTimestamp := True\<rparr>"]
  by (simp add: sample_conn_def fresh_stream_def zero_stream_def chunk_getters stream_options header_fits_def
      BytesAsUint32_def BytesAsUint32_step_def upt_rec Let_def)

theorem recv_panic_only_nil_witness:
  "\<exists>csid. 65559 < csid \<and> messages (snd (RecvIntegralMessage (sample_conn [1, 255, 255]))) csid = Some None"
proof -
  have "conn_inv (sample_conn [1, 255, 255])" by (simp add: conn_inv_def messages_inv_def sample_conn_def)
  from recv_panic_only_nil [OF this crash_input] show ?thesis by blast
qed

end
