(* ===== verification/Amf0.thy ===== *)
theory Amf0
  imports Chunk_Message "HOL-Library.AList"
begin

text \<open>
  The AMF0 codec the server uses (\<open>vendor/github.com/gwuhaolin/livego/protocol/amf\<close>: \<open>amf.go\<close>,
  \<open>util.go\<close>, \<open>decoder_amf0.go\<close>, \<open>encoder_amf0.go\<close>, \<open>metadata.go\<close>).

  A decoded value is a Go \<open>interface{}\<close>, here a datatype of the dynamic types the code tests for. An
  \<open>Object\<close> is a Go map: an association list with distinct keys, whose order stands for the order in
  which a \<open>range\<close> visits the map. A float64 is its IEEE 754 bit pattern. The AMF3 decoder, which AMF0
  enters on one marker, is an argument; the reference cache it would use is not read by AMF0.

  The reader is \<open>bytes.Reader\<close>: its state is the bytes not read yet. Decoding recurses with fuel;
  \<open>DecodeAmf0_fuel\<close> shows that one unit more than the number of bytes is enough.
\<close>

section \<open>Values\<close>

datatype amf_value =
    ANil
  | AString string
  | ANumber u64
  | AInt int
  | ABool bool
  | AObject "(string \<times> amf_value) list"
  | AArray "amf_value list"
  | ATyped string "(string \<times> amf_value) list"
  | AInt32 int                    \<comment> \<open>an int32 and a \<open>[]byte\<close>, which the AMF3 decoder makes\<close>
  | ABytes bytes
  | AOther nat                    \<comment> \<open>any struct type the AMF3 decoder makes\<close>

section \<open>float64\<close>

text \<open>\<open>int(f)\<close> as amd64 computes it: towards zero, the least int64 for what does not fit.\<close>

definition float_exp :: "u64 \<Rightarrow> nat" where
  "float_exp w = unat w div 2 ^ 52 mod 2 ^ 11"

definition float_mant :: "u64 \<Rightarrow> nat" where
  "float_mant w = unat w mod 2 ^ 52"

definition float_to_int :: "u64 \<Rightarrow> int" where
  "float_to_int w =
     (let e = float_exp w; m = float_mant w + 2 ^ 52;
          k = (if e \<ge> 1075 then m * 2 ^ (e - 1075) else m div 2 ^ (1075 - e))
      in if e \<ge> 1086 then - (2 ^ 63)
         else if e < 1023 then 0
         else if unat w \<ge> 2 ^ 63 then - int k else int k)"

text \<open>The number of bits of a positive number, less one.\<close>

fun log2 :: "nat \<Rightarrow> nat" where
  "log2 n = (if n \<le> 1 then 0 else Suc (log2 (n div 2)))"

declare log2.simps [simp del]

text \<open>\<open>float64(n)\<close>: the nearest double, ties to even.\<close>

definition nat_to_float :: "nat \<Rightarrow> nat" where
  "nat_to_float n =
     (if n = 0 then 0
      else
        (let e = log2 n;
             m = (if e \<le> 52 then n * 2 ^ (52 - e)
                  else
                    (let d = 2 ^ (e - 52); q = n div d; r = n mod d
                     in if 2 * r > d \<or> (2 * r = d \<and> odd q) then q + 1 else q))
         in (e + 1023) * 2 ^ 52 + (m - 2 ^ 52)))"

definition int_to_float :: "int \<Rightarrow> u64" where
  "int_to_float i = of_nat (nat_to_float (nat \<bar>i\<bar>) + (if i < 0 then 2 ^ 63 else 0))"

section \<open>Bytes\<close>

text \<open>\<open>binary.Read\<close> and \<open>binary.Write\<close> of an unsigned number, most significant byte first.\<close>

definition be_in :: "bytes \<Rightarrow> nat" where
  "be_in bs = foldl (\<lambda>a b. a * 256 + unat b) 0 bs"

primrec be_out :: "nat \<Rightarrow> nat \<Rightarrow> bytes" where
  "be_out 0 v = []"
| "be_out (Suc n) v = be_out n (v div 256) @ [of_nat v]"

definition string_of :: "bytes \<Rightarrow> string" where
  "string_of bs = map (\<lambda>b. char_of (unat b)) bs"

definition bytes_of :: "string \<Rightarrow> bytes" where
  "bytes_of s = map (\<lambda>c. of_nat (of_char c)) s"

type_synonym 'a reader = "(bytes, 'a) go"

text \<open>
  A read at the end of a \<open>bytes.Reader\<close> is \<open>io.EOF\<close>, even into an empty buffer.
\<close>

definition ReadBytes :: "nat \<Rightarrow> bytes reader" where
  "ReadBytes n bs =
     (if bs = [] then (Err ErrEOF, bs)
      else if length bs < n then (Err (ErrNew ''decode read bytes failed''), [])
      else (Ok (take n bs), drop n bs))"

definition ReadByte :: "u8 reader" where
  "ReadByte = go_bind (ReadBytes 1) (\<lambda>bs. go_return (bs ! 0))"

abbreviation ReadMarker :: "u8 reader" where
  "ReadMarker \<equiv> ReadByte"

definition AssertMarker :: "u8 \<Rightarrow> unit reader" where
  "AssertMarker m = go_bind ReadMarker (\<lambda>marker.
     if marker \<noteq> m then go_fail (ErrNew ''decode assert marker failed'') else go_return ())"

text \<open>\<open>binary.Read(r, binary.BigEndian, &v)\<close> of \<open>n\<close> bytes.\<close>

definition binary_Read :: "nat \<Rightarrow> nat reader" where
  "binary_Read n bs =
     (if n \<le> length bs then (Ok (be_in (take n bs)), drop n bs)
      else (Err (if bs = [] then ErrEOF else ErrUnexpectedEOF), []))"

text \<open>\<open>if err != nil { return fmt.Errorf(msg, err) }\<close>, which keeps only the text of the error.\<close>

definition go_errorf :: "string \<Rightarrow> ('s, 'a) go \<Rightarrow> ('s, 'a) go" where
  "go_errorf msg m s = (case m s of (Err e, t) \<Rightarrow> (Err (ErrNew msg), t) | x \<Rightarrow> x)"

section \<open>Decoding\<close>

definition DecodeAmf0Number :: "u64 reader" where
  "DecodeAmf0Number =
     go_bind (go_errorf ''amf0 decode: unable to read number'' (binary_Read 8)) (\<lambda>n. go_return (of_nat n))"

definition DecodeAmf0Boolean :: "bool reader" where
  "DecodeAmf0Boolean = go_bind ReadByte (\<lambda>b.
     if b = 0 then go_return False
     else if b = 1 then go_return True
     else go_fail (ErrNew ''decode amf0: unexpected value for boolean''))"

definition DecodeAmf0String :: "string reader" where
  "DecodeAmf0String =
     go_bind (go_errorf ''decode amf0: unable to decode string length'' (binary_Read 2)) (\<lambda>length.
     go_bind (go_errorf ''decode amf0: unable to decode string value'' (ReadBytes length)) (\<lambda>bs.
     go_return (string_of bs)))"

definition DecodeAmf0LongString :: "string reader" where
  "DecodeAmf0LongString =
     go_bind (go_errorf ''decode amf0: unable to decode long string length'' (binary_Read 4)) (\<lambda>length.
     go_bind (go_errorf ''decode amf0: unable to decode long string value'' (ReadBytes length)) (\<lambda>bs.
     go_return (string_of bs)))"

definition DecodeAmf0Date :: "u64 reader" where
  "DecodeAmf0Date =
     go_bind (go_errorf ''decode amf0: unable to decode float in date'' DecodeAmf0Number) (\<lambda>result.
     go_bind (go_errorf ''decode amf0: unable to read 2 trail bytes in date'' (ReadBytes 2)) (\<lambda>_.
     go_return result))"

text \<open>The length that \<open>DecodeAmf0EcmaArray\<close> reads is not used, nor is the error of reading it.\<close>

definition skip_ecma_length :: "unit reader" where
  "skip_ecma_length bs = (Ok (), snd (binary_Read 4 bs))"

definition out_of_fuel :: panic where
  "out_of_fuel = Explicit ''out of fuel''"

text \<open>The router, the loop over an object's properties and the loop over an array's elements.\<close>

fun DecodeAmf0 :: "amf_value reader \<Rightarrow> nat \<Rightarrow> amf_value reader"
and object_loop :: "amf_value reader \<Rightarrow> nat \<Rightarrow> (string \<times> amf_value) list \<Rightarrow> (string \<times> amf_value) list reader"
and array_loop :: "amf_value reader \<Rightarrow> nat \<Rightarrow> nat \<Rightarrow> amf_value list \<Rightarrow> amf_value list reader" where
  "DecodeAmf0 amf3 0 = go_panic out_of_fuel"
| "DecodeAmf0 amf3 (Suc n) = go_bind ReadMarker (\<lambda>marker.
     if marker = 0x00 then go_bind DecodeAmf0Number (\<lambda>x. go_return (ANumber x))
     else if marker = 0x01 then go_bind DecodeAmf0Boolean (\<lambda>b. go_return (ABool b))
     else if marker = 0x02 then go_bind DecodeAmf0String (\<lambda>s. go_return (AString s))
     else if marker = 0x03 then go_bind (object_loop amf3 n []) (\<lambda>ob. go_return (AObject ob))
     else if marker = 0x04 then go_fail (ErrNew ''decode amf0: unsupported type movieclip'')
     else if marker = 0x05 \<or> marker = 0x06 then go_return ANil
     else if marker = 0x07 then go_fail (ErrNew ''decode amf0: unsupported type reference'')
     else if marker = 0x08 then go_bind skip_ecma_length (\<lambda>_.
       go_bind (go_errorf ''decode amf0: unable to decode ecma array object'' (object_loop amf3 n []))
         (\<lambda>ob. go_return (AObject ob)))
     else if marker = 0x0a then
       go_bind (go_errorf ''decode amf0: unable to decode strict array length'' (binary_Read 4)) (\<lambda>k.
       go_bind (array_loop amf3 n k []) (\<lambda>vs. go_return (AArray vs)))
     else if marker = 0x0b then go_bind DecodeAmf0Date (\<lambda>x. go_return (ANumber x))
     else if marker = 0x0c then go_bind DecodeAmf0LongString (\<lambda>s. go_return (AString s))
     else if marker = 0x0d then go_return ANil
     else if marker = 0x0e then go_fail (ErrNew ''decode amf0: unsupported type recordset'')
     else if marker = 0x0f then go_bind DecodeAmf0LongString (\<lambda>s. go_return (AString s))
     else if marker = 0x10 then
       go_bind (go_errorf ''decode amf0: typed object unable to determine type'' DecodeAmf0String) (\<lambda>t.
       go_bind (go_errorf ''decode amf0: typed object unable to determine object'' (object_loop amf3 n []))
         (\<lambda>ob. go_return (ATyped t ob)))
     else if marker = 0x11 then amf3
     else go_fail (ErrNew ''decode amf0: unsupported type''))"
| "object_loop amf3 0 ob = go_panic out_of_fuel"
| "object_loop amf3 (Suc n) ob = go_bind DecodeAmf0String (\<lambda>key.
     if key = [] then
       go_bind (go_errorf ''decode amf0: expected object end marker'' (AssertMarker 0x09)) (\<lambda>_. go_return ob)
     else
       go_bind (go_errorf ''decode amf0: unable to decode object value'' (DecodeAmf0 amf3 n)) (\<lambda>v.
       object_loop amf3 n (AList.update key v ob)))"
| "array_loop amf3 0 k vs = go_panic out_of_fuel"
| "array_loop amf3 (Suc n) k vs =
     (if k = 0 then go_return vs
      else
        go_bind (go_errorf ''decode amf0: unable to decode strict array object'' (DecodeAmf0 amf3 n)) (\<lambda>v.
        array_loop amf3 n (k - 1) (vs @ [v])))"

declare DecodeAmf0.simps [simp del] object_loop.simps [simp del] array_loop.simps [simp del]

text \<open>\<open>DecodeBatch\<close>: values until an error, which is returned with them.\<close>

fun batch_loop :: "amf_value reader \<Rightarrow> nat \<Rightarrow> amf_value list \<Rightarrow> (amf_value list \<times> error) reader" where
  "batch_loop amf3 0 ret = go_panic out_of_fuel"
| "batch_loop amf3 (Suc n) ret = (\<lambda>bs.
     case DecodeAmf0 amf3 (Suc (length bs)) bs of
        (Err e, rest) \<Rightarrow> (Ok (ret, e), rest)
      | (Panic p, rest) \<Rightarrow> (Panic p, rest)
      | (Ok v, rest) \<Rightarrow> batch_loop amf3 n (ret @ [v]) rest)"

definition DecodeBatch :: "amf_value reader \<Rightarrow> bytes \<Rightarrow> (amf_value list \<times> error) res" where
  "DecodeBatch amf3 bs = fst (batch_loop amf3 (Suc (length bs)) [] bs)"

section \<open>Encoding\<close>

definition EncodeAmf0Number :: "u64 \<Rightarrow> bytes" where
  "EncodeAmf0Number w = 0x00 # be_out 8 (unat w)"

definition EncodeAmf0Boolean :: "bool \<Rightarrow> bytes" where
  "EncodeAmf0Boolean b = [0x01, if b then 1 else 0]"

text \<open>Without the marker; the length is a uint16.\<close>

definition encode_string :: "string \<Rightarrow> bytes" where
  "encode_string s = be_out 2 (length s mod 2 ^ 16) @ bytes_of s"

definition EncodeAmf0String :: "string \<Rightarrow> bytes" where
  "EncodeAmf0String s = 0x02 # encode_string s"

definition EncodeAmf0LongString :: "string \<Rightarrow> bytes" where
  "EncodeAmf0LongString s = 0x0c # be_out 4 (length s mod 2 ^ 32) @ bytes_of s"

fun EncodeAmf0 :: "amf_value \<Rightarrow> error + bytes"
and encode_pairs :: "(string \<times> amf_value) list \<Rightarrow> error + bytes"
and encode_list :: "amf_value list \<Rightarrow> error + bytes" where
  "EncodeAmf0 ANil = Inr [0x05]"
| "EncodeAmf0 (AString s) =
     Inr (if length s \<le> 65535 then EncodeAmf0String s else EncodeAmf0LongString s)"
| "EncodeAmf0 (ABool b) = Inr (EncodeAmf0Boolean b)"
| "EncodeAmf0 (AInt i) = Inr (EncodeAmf0Number (int_to_float i))"
| "EncodeAmf0 (ANumber w) = Inr (EncodeAmf0Number w)"
| "EncodeAmf0 (AArray vs) =
     (case encode_list vs of
        Inl e \<Rightarrow> Inl e
      | Inr bs \<Rightarrow> Inr (0x0a # be_out 4 (length vs mod 2 ^ 32) @ bs))"
| "EncodeAmf0 (AObject ob) =
     (case encode_pairs ob of
        Inl e \<Rightarrow> Inl e
      | Inr bs \<Rightarrow> Inr (0x03 # bs @ encode_string [] @ [0x09]))"
| "EncodeAmf0 (AInt32 i) = Inr (EncodeAmf0Number (int_to_float i))"
| "EncodeAmf0 (ABytes d) = Inr (0x0a # be_out 4 (length d mod 2 ^ 32)
     @ concat (map (\<lambda>b. EncodeAmf0Number (int_to_float (int (unat b)))) d))"
| "EncodeAmf0 (ATyped t ob) = Inl (ErrNew ''encode amf0: unsupported type typed object'')"
| "EncodeAmf0 (AOther k) = Inl (ErrNew ''encode amf0: unsupported type'')"
| "encode_pairs [] = Inr []"
| "encode_pairs ((k, v) # ob) =
     (case EncodeAmf0 v of
        Inl e \<Rightarrow> Inl (ErrNew ''encode amf0: unable to encode object value'')
      | Inr bs \<Rightarrow> (case encode_pairs ob of
          Inl e \<Rightarrow> Inl e
        | Inr rest \<Rightarrow> Inr (encode_string k @ bs @ rest)))"
| "encode_list [] = Inr []"
| "encode_list (v # vs) =
     (case EncodeAmf0 v of
        Inl e \<Rightarrow> Inl (ErrNew ''encode amf0: unable to encode strict array element'')
      | Inr bs \<Rightarrow> (case encode_list vs of
          Inl e \<Rightarrow> Inl e
        | Inr rest \<Rightarrow> Inr (bs @ rest)))"

section \<open>Metadata\<close>

definition SetDataFrame :: string where "SetDataFrame = ''@setDataFrame''"

definition setFrameFrame :: bytes where "setFrameFrame = EncodeAmf0String SetDataFrame"

text \<open>\<open>flag\<close> is \<open>ADD\<close> (0) or \<open>DEL\<close> (3).\<close>

definition MetaDataReform :: "amf_value reader \<Rightarrow> bytes \<Rightarrow> u8 \<Rightarrow> bytes res" where
  "MetaDataReform amf3 p flag =
     (if flag = 0 \<or> flag = 3 then
        (case fst (DecodeAmf0 amf3 (Suc (length p)) p) of
           Err e \<Rightarrow> Err e
         | Panic x \<Rightarrow> Panic x
         | Ok (AString vv) \<Rightarrow>
             (if flag = 0 then Ok (if vv \<noteq> SetDataFrame then setFrameFrame @ p else p)
              else if vv = SetDataFrame
              then (if length setFrameFrame \<le> length p then Ok (drop (length setFrameFrame) p)
                    else Panic SliceOutOfRange)
              else Ok p)
         | Ok _ \<Rightarrow> Err (ErrNew (if flag = 0 then ''setFrameFrame error'' else ''metadata error'')))
      else Err (ErrNew ''invalid flag''))"

section \<open>Reading back what was written\<close>

lemma length_be_out [simp]: "length (be_out n v) = n"
  by (induction n arbitrary: v) simp_all

lemma be_in_snoc: "be_in (bs @ [b]) = be_in bs * 256 + unat b"
  by (simp add: be_in_def)

lemma be_in_out [simp]: "be_in (be_out n v) = v mod 256 ^ n"
proof (induction n arbitrary: v)
  case (Suc n)
  have "unat (of_nat v :: u8) = v mod 256" by (simp add: unat_of_nat)
  moreover have "v mod 256 ^ Suc n = 256 * (v div 256 mod 256 ^ n) + v mod 256"
    using mod_mult2_eq [of v 256 "256 ^ n"] by simp
  ultimately show ?case by (simp add: be_in_snoc Suc.IH)
qed (simp add: be_in_def)

lemma binary_Read_out [simp]: "binary_Read n (be_out n v @ rest) = (Ok (v mod 256 ^ n), rest)"
  by (simp add: binary_Read_def)

lemma length_bytes_of [simp]: "length (bytes_of s) = length s"
  by (simp add: bytes_of_def)

lemma string_of_bytes_of [simp]: "string_of (bytes_of s) = s"
proof -
  have "(char_of (unat (of_nat (of_char c :: nat) :: u8)) :: char) = c" for c :: char
    by (simp add: unat_of_nat)
  then show ?thesis by (simp add: string_of_def bytes_of_def comp_def)
qed

lemma ReadBytes_append:
  "length bs = n \<Longrightarrow> bs @ rest \<noteq> [] \<Longrightarrow> ReadBytes n (bs @ rest) = (Ok bs, rest)"
  by (auto simp: ReadBytes_def)

lemma ReadByte_Cons [simp]: "ReadByte (b # bs) = (Ok b, bs)"
  by (simp add: ReadByte_def ReadBytes_def go_bind_def go_return_def)

lemma ReadByte_Nil [simp]: "ReadByte [] = (Err ErrEOF, [])"
  by (simp add: ReadByte_def ReadBytes_def go_bind_def)

lemma go_errorf_Ok [simp]: "m s = (Ok a, t) \<Longrightarrow> go_errorf msg m s = (Ok a, t)"
  by (simp add: go_errorf_def)

lemma DecodeAmf0String_encode:
  assumes "length s \<le> 65535" "s \<noteq> [] \<or> rest \<noteq> []"
  shows "DecodeAmf0String (encode_string s @ rest) = (Ok s, rest)"
proof -
  have "bytes_of s @ rest \<noteq> []" using assms(2) by (auto simp: bytes_of_def)
  then show ?thesis
    using assms by (simp add: DecodeAmf0String_def encode_string_def go_bind_def go_errorf_def go_return_def
        ReadBytes_append)
qed

lemma DecodeAmf0LongString_encode:
  assumes "length s < 2 ^ 32" "s \<noteq> []"
  shows "DecodeAmf0LongString (be_out 4 (length s) @ bytes_of s @ rest) = (Ok s, rest)"
proof -
  have "bytes_of s @ rest \<noteq> []" using assms(2) by (auto simp: bytes_of_def)
  then show ?thesis
    using assms(1) by (simp add: DecodeAmf0LongString_def go_bind_def go_errorf_def go_return_def ReadBytes_append)
qed

lemma DecodeAmf0Number_encode: "DecodeAmf0Number (be_out 8 (unat w) @ rest) = (Ok w, rest)"
proof -
  have "unat w mod 256 ^ 8 = unat w" using unsigned_less [of w, where ?'a = nat] by (intro mod_less) simp
  then show ?thesis by (simp add: DecodeAmf0Number_def go_bind_def go_errorf_def go_return_def)
qed

text \<open>The values the server builds, and what a peer's decoder makes of them.\<close>

fun amf_plain :: "amf_value \<Rightarrow> bool" where
  "amf_plain ANil = True"
| "amf_plain (AString s) = (length s < 2 ^ 32)"
| "amf_plain (ABool b) = True"
| "amf_plain (AInt i) = True"
| "amf_plain (ANumber w) = True"
| "amf_plain (AArray vs) = (length vs < 2 ^ 32 \<and> (\<forall>v \<in> set vs. amf_plain v))"
| "amf_plain (AObject ob) = (distinct (map fst ob)
     \<and> (\<forall>p \<in> set ob. fst p \<noteq> [] \<and> length (fst p) \<le> 65535 \<and> amf_plain (snd p)))"
| "amf_plain _ = False"

fun amf_norm :: "amf_value \<Rightarrow> amf_value" where
  "amf_norm (AInt i) = ANumber (int_to_float i)"
| "amf_norm (AArray vs) = AArray (map amf_norm vs)"
| "amf_norm (AObject ob) = AObject (map (\<lambda>p. (fst p, amf_norm (snd p))) ob)"
| "amf_norm v = v"

text \<open>Values whose encoding ends in an empty string.\<close>

fun ends_empty :: "amf_value \<Rightarrow> bool"
and last_empty :: "amf_value list \<Rightarrow> bool" where
  "ends_empty (AString s) = (s = [])"
| "ends_empty (AArray vs) = last_empty vs"
| "ends_empty v = False"
| "last_empty [] = False"
| "last_empty (v # vs) = (if vs = [] then ends_empty v else last_empty vs)"

lemma update_fresh: "k \<notin> fst ` set ob \<Longrightarrow> AList.update k v ob = ob @ [(k, v)]"
  by (induction ob) auto

lemma encode_nonempty: "EncodeAmf0 v = Inr bs \<Longrightarrow> bs \<noteq> []"
  by (cases v) (auto simp: EncodeAmf0String_def EncodeAmf0LongString_def EncodeAmf0Boolean_def
      EncodeAmf0Number_def split: sum.splits if_splits)

lemma DecodeAmf0_markers:
  "DecodeAmf0 amf3 (Suc n) (0x00 # bs) = go_bind DecodeAmf0Number (\<lambda>x. go_return (ANumber x)) bs"
  "DecodeAmf0 amf3 (Suc n) (0x01 # bs) = go_bind DecodeAmf0Boolean (\<lambda>b. go_return (ABool b)) bs"
  "DecodeAmf0 amf3 (Suc n) (0x02 # bs) = go_bind DecodeAmf0String (\<lambda>s. go_return (AString s)) bs"
  "DecodeAmf0 amf3 (Suc n) (0x03 # bs) = go_bind (object_loop amf3 n []) (\<lambda>ob. go_return (AObject ob)) bs"
  "DecodeAmf0 amf3 (Suc n) (0x05 # bs) = (Ok ANil, bs)"
  "DecodeAmf0 amf3 (Suc n) (0x0a # bs) =
     go_bind (go_errorf ''decode amf0: unable to decode strict array length'' (binary_Read 4)) (\<lambda>k.
       go_bind (array_loop amf3 n k []) (\<lambda>vs. go_return (AArray vs))) bs"
  "DecodeAmf0 amf3 (Suc n) (0x0c # bs) = go_bind DecodeAmf0LongString (\<lambda>s. go_return (AString s)) bs"
  "DecodeAmf0 amf3 (Suc n) (0x11 # bs) = amf3 bs"
  "DecodeAmf0 amf3 (Suc n) [] = (Err ErrEOF, [])"
  by (simp_all add: DecodeAmf0.simps go_bind_def [of ReadByte] go_return_def)

lemma decode_object_end:
  "object_loop amf3 (Suc n) ob (encode_string [] @ 0x09 # rest) = (Ok ob, rest)"
  by (simp add: object_loop.simps go_bind_def DecodeAmf0String_encode AssertMarker_def go_errorf_def go_return_def)

lemma decode_pair:
  assumes "length k \<le> 65535" "k \<noteq> []" "DecodeAmf0 amf3 n (bs @ rest) = (Ok v, rest)"
  shows "object_loop amf3 (Suc n) ob (encode_string k @ bs @ rest)
    = object_loop amf3 n (AList.update k v ob) rest"
  using assms by (simp add: object_loop.simps go_bind_def DecodeAmf0String_encode)

lemma decode_element:
  assumes "DecodeAmf0 amf3 n (bs @ rest) = (Ok v, rest)"
  shows "array_loop amf3 (Suc n) (Suc k) vs (bs @ rest) = array_loop amf3 n k (vs @ [v]) rest"
  using assms by (simp add: array_loop.simps go_bind_def)

lemma decode_encode_mutual:
  "EncodeAmf0 v = Inr bs \<Longrightarrow> amf_plain v \<Longrightarrow> rest \<noteq> [] \<or> \<not> ends_empty v \<Longrightarrow> length (bs @ rest) < n \<Longrightarrow>
    DecodeAmf0 amf3 n (bs @ rest) = (Ok (amf_norm v), rest)"
  "encode_pairs ob = Inr obs \<Longrightarrow> distinct (map fst acc @ map fst ob) \<Longrightarrow>
    \<forall>p \<in> set ob. fst p \<noteq> [] \<and> length (fst p) \<le> 65535 \<and> amf_plain (snd p) \<Longrightarrow>
    length (obs @ encode_string [] @ 0x09 # rest) < n \<Longrightarrow>
    object_loop amf3 n acc (obs @ encode_string [] @ 0x09 # rest)
      = (Ok (acc @ map (\<lambda>p. (fst p, amf_norm (snd p))) ob), rest)"
  "encode_list vs = Inr vbs \<Longrightarrow> \<forall>v \<in> set vs. amf_plain v \<Longrightarrow> rest \<noteq> [] \<or> \<not> last_empty vs \<Longrightarrow>
    length (vbs @ rest) + 1 < n \<Longrightarrow>
    array_loop amf3 n (length vs) vacc (vbs @ rest) = (Ok (vacc @ map amf_norm vs), rest)"
proof (induction v and ob and vs arbitrary: bs rest n and obs rest n acc and vbs rest n vacc
    rule: EncodeAmf0_encode_pairs_encode_list.induct)
  case 1
  then show ?case by (cases n) (auto simp: DecodeAmf0_markers)
next
  case (2 s)
  then obtain m where n: "n = Suc m" by (cases n) auto
  show ?case
  proof (cases "length s \<le> 65535")
    case True
    then have "bs @ rest = 0x02 # encode_string s @ rest" using 2 by (auto simp: EncodeAmf0String_def)
    moreover have "DecodeAmf0String (encode_string s @ rest) = (Ok s, rest)"
      using True 2(3) by (intro DecodeAmf0String_encode) auto
    ultimately show ?thesis
      by (simp add: n DecodeAmf0_markers go_bind_def go_return_def)
  next
    case False
    then have "bs @ rest = 0x0c # be_out 4 (length s) @ bytes_of s @ rest"
      using 2 by (auto simp: EncodeAmf0LongString_def)
    moreover have "DecodeAmf0LongString (be_out 4 (length s) @ bytes_of s @ rest) = (Ok s, rest)"
      using False 2(2) by (intro DecodeAmf0LongString_encode) auto
    ultimately show ?thesis
      by (simp add: n DecodeAmf0_markers go_bind_def go_return_def)
  qed
next
  case (3 b)
  then show ?case
    by (cases n) (auto simp: EncodeAmf0Boolean_def DecodeAmf0_markers go_bind_def DecodeAmf0Boolean_def
        go_return_def)
next
  case (4 i)
  then show ?case
    by (cases n) (auto simp: EncodeAmf0Number_def DecodeAmf0_markers go_bind_def DecodeAmf0Number_encode
        go_return_def)
next
  case (5 w)
  then show ?case
    by (cases n) (auto simp: EncodeAmf0Number_def DecodeAmf0_markers go_bind_def DecodeAmf0Number_encode
        go_return_def)
next
  case (6 vs)
  then obtain vbs m where e: "encode_list vs = Inr vbs" and n: "n = Suc m"
    and bs: "bs = 0x0a # be_out 4 (length vs mod 2 ^ 32) @ vbs"
    by (cases n) (auto split: sum.splits)
  have "array_loop amf3 m (length vs) [] (vbs @ rest) = (Ok ([] @ map amf_norm vs), rest)"
    using 6 e n bs by (intro 6(1)) auto
  then show ?case
    using 6(3) by (simp add: n bs DecodeAmf0_markers go_bind_def go_errorf_def go_return_def)
next
  case (7 ob)
  then obtain obs m where e: "encode_pairs ob = Inr obs" and n: "n = Suc m"
    and bs: "bs = 0x03 # obs @ encode_string [] @ [0x09]"
    by (cases n) (auto split: sum.splits)
  have "object_loop amf3 m [] (obs @ encode_string [] @ 0x09 # rest)
      = (Ok ([] @ map (\<lambda>p. (fst p, amf_norm (snd p))) ob), rest)"
    using 7 e n bs by (intro 7(1)) auto
  then show ?case
    by (simp add: n bs DecodeAmf0_markers go_bind_def go_return_def)
next
  case 12
  then obtain m where n: "n = Suc m" by (cases n) auto
  show ?case using 12 by (simp add: n decode_object_end)
next
  case (13 k v ob)
  then obtain bs obs1 m where e: "EncodeAmf0 v = Inr bs" "encode_pairs ob = Inr obs1" and n: "n = Suc m"
    and obs: "obs = encode_string k @ bs @ obs1"
    by (cases n) (auto split: sum.splits)
  let ?rest = "obs1 @ encode_string [] @ 0x09 # rest"
  have ne: "?rest \<noteq> []" by (simp add: encode_string_def)
  have d: "DecodeAmf0 amf3 m (bs @ ?rest) = (Ok (amf_norm v), ?rest)"
    using 13 e n obs ne by (intro 13(1)) (auto simp: encode_string_def)
  have u: "AList.update k (amf_norm v) acc = acc @ [(k, amf_norm v)]"
    using 13(4) by (intro update_fresh) auto
  have "object_loop amf3 m (acc @ [(k, amf_norm v)]) ?rest
      = (Ok ((acc @ [(k, amf_norm v)]) @ map (\<lambda>p. (fst p, amf_norm (snd p))) ob), rest)"
    using 13 e n obs by (intro 13(2) [OF e(1)]) (auto simp: encode_string_def)
  with decode_pair [OF _ _ d, of k acc] u 13(5) show ?case by (simp add: n obs)
next
  case 14
  then show ?case by (cases n) (auto simp: array_loop.simps go_return_def)
next
  case (15 v vs)
  then obtain bs vbs1 m where e: "EncodeAmf0 v = Inr bs" "encode_list vs = Inr vbs1" and n: "n = Suc m"
    and vbs: "vbs = bs @ vbs1"
    by (cases n) (auto split: sum.splits)
  have "vs \<noteq> [] \<Longrightarrow> vbs1 \<noteq> []"
    using e(2) encode_nonempty by (cases vs) (auto split: sum.splits)
  then have d: "DecodeAmf0 amf3 m (bs @ vbs1 @ rest) = (Ok (amf_norm v), vbs1 @ rest)"
    using 15 e n vbs by (intro 15(1)) (auto split: if_splits)
  have "0 < length bs" using encode_nonempty [OF e(1)] by simp
  moreover have "length bs + (length vbs1 + length rest) < m" using 15(6) n vbs by simp
  ultimately have ne: "length (vbs1 @ rest) + 1 < m" unfolding length_append by linarith
  have "array_loop amf3 m (length vs) (vacc @ [amf_norm v]) (vbs1 @ rest)
      = (Ok ((vacc @ [amf_norm v]) @ map amf_norm vs), rest)"
    using 15(4,5) e by (intro 15(2) [OF e(1) e(2) _ _ ne]) (auto split: if_splits)
  with decode_element [OF d, of "length vs" vacc] show ?case by (simp add: n vbs)
qed simp_all

section \<open>Batches\<close>

text \<open>
  A reader that gives back no more than it was given and does not panic. The AMF3 decoder of the model
  has to be one: the real one indexes its reference tables without a check.
\<close>

definition reader_ok :: "'a reader \<Rightarrow> bool" where
  "reader_ok m \<longleftrightarrow> (\<forall>bs. length (snd (m bs)) \<le> length bs \<and> (\<forall>p. fst (m bs) \<noteq> Panic p))"

lemma reader_okI:
  "(\<And>bs. length (snd (m bs)) \<le> length bs) \<Longrightarrow> (\<And>bs p. fst (m bs) \<noteq> Panic p) \<Longrightarrow> reader_ok m"
  by (simp add: reader_ok_def)

text \<open>The same for readers that are called with at most \<open>k\<close> bytes.\<close>

definition reader_upto :: "nat \<Rightarrow> 'a reader \<Rightarrow> bool" where
  "reader_upto k m \<longleftrightarrow> (\<forall>bs. length bs \<le> k \<longrightarrow> length (snd (m bs)) \<le> length bs \<and> (\<forall>p. fst (m bs) \<noteq> Panic p))"

lemma reader_upto_ok: "reader_ok m \<Longrightarrow> reader_upto k m"
  by (simp add: reader_ok_def reader_upto_def)

lemma reader_upto_return: "reader_upto k (go_return a)"
  by (simp add: reader_upto_def go_return_def)

lemma reader_upto_fail: "reader_upto k (go_fail e)"
  by (simp add: reader_upto_def go_fail_def)

lemma reader_upto_mono: "reader_upto k m \<Longrightarrow> j \<le> k \<Longrightarrow> reader_upto j m"
  by (simp add: reader_upto_def)

lemma reader_upto_bind:
  assumes "reader_upto k m" "\<And>a. reader_upto k (f a)"
  shows "reader_upto k (go_bind m f)"
proof (unfold reader_upto_def, intro allI impI)
  fix bs :: bytes assume k: "length bs \<le> k"
  obtain r t where mt: "m bs = (r, t)" by (cases "m bs")
  have m: "length t \<le> length bs" "\<forall>p. r \<noteq> Panic p"
    using assms(1) k mt unfolding reader_upto_def by force+
  show "length (snd (go_bind m f bs)) \<le> length bs \<and> (\<forall>p. fst (go_bind m f bs) \<noteq> Panic p)"
  proof (cases r)
    case (Ok a)
    have "length (snd (f a t)) \<le> length t \<and> (\<forall>p. fst (f a t) \<noteq> Panic p)"
      using assms(2) [of a] k m(1) unfolding reader_upto_def by force
    with Ok m mt show ?thesis by (auto simp: go_bind_def)
  next
    case (Err e)
    with m mt show ?thesis by (simp add: go_bind_def)
  next
    case (Panic p)
    with m show ?thesis by simp
  qed
qed

text \<open>A call that takes at least one byte leaves less for the next.\<close>

definition reader_eats :: "nat \<Rightarrow> 'a reader \<Rightarrow> bool" where
  "reader_eats k m \<longleftrightarrow> reader_upto k m
     \<and> (\<forall>bs a t. length bs \<le> k \<longrightarrow> m bs = (Ok a, t) \<longrightarrow> length t < length bs)"

lemma reader_eats_upto: "reader_eats k m \<Longrightarrow> reader_upto k m"
  by (simp add: reader_eats_def)

lemma reader_eats_bind:
  assumes "reader_eats k m" "\<And>a j. j < k \<Longrightarrow> reader_upto j (f a)"
  shows "reader_eats k (go_bind m f)"
proof -
  have "length (snd (go_bind m f bs)) \<le> length bs \<and> (\<forall>p. fst (go_bind m f bs) \<noteq> Panic p)
      \<and> (\<forall>a t. go_bind m f bs = (Ok a, t) \<longrightarrow> length t < length bs)" if k: "length bs \<le> k" for bs
  proof -
    obtain r t where mt: "m bs = (r, t)" by (cases "m bs")
    have m: "length t \<le> length bs" "\<forall>p. r \<noteq> Panic p"
      using assms(1) k mt unfolding reader_eats_def reader_upto_def by force+
    show ?thesis
    proof (cases r)
      case (Ok a)
      with mt assms(1) k have t: "length t < length bs" unfolding reader_eats_def by blast
      then have "reader_upto (length t) (f a)" using k by (intro assms(2)) simp
      then have "length (snd (f a t)) \<le> length t \<and> (\<forall>p. fst (f a t) \<noteq> Panic p)"
        unfolding reader_upto_def by simp
      with Ok m mt t show ?thesis by (auto simp: go_bind_def)
    next
      case (Err e)
      with m mt show ?thesis by (simp add: go_bind_def)
    next
      case (Panic p)
      with m show ?thesis by simp
    qed
  qed
  then show ?thesis unfolding reader_eats_def reader_upto_def by blast
qed

lemma reader_upto_bind_eats:
  "reader_eats k m \<Longrightarrow> (\<And>a j. j < k \<Longrightarrow> reader_upto j (f a)) \<Longrightarrow> reader_upto k (go_bind m f)"
  by (rule reader_eats_upto [OF reader_eats_bind])

lemma reader_upto_errorf: "reader_upto k m \<Longrightarrow> reader_upto k (go_errorf msg m)"
  by (auto simp: reader_upto_def go_errorf_def split: prod.splits res.splits)

lemma reader_upto_0: "reader_upto 0 m \<longleftrightarrow> snd (m []) = [] \<and> (\<forall>p. fst (m []) \<noteq> Panic p)"
  by (auto simp: reader_upto_def)

lemma reader_ok_primitives [simp]:
  "reader_ok (ReadBytes n)" "reader_ok (binary_Read n)" "reader_ok skip_ecma_length" "reader_ok ReadByte"
  by (auto simp: reader_ok_def ReadBytes_def binary_Read_def skip_ecma_length_def ReadByte_def go_bind_def
      go_return_def)

lemmas reader_intros = reader_upto_return reader_upto_fail reader_upto_bind reader_upto_errorf
  reader_ok_primitives [THEN reader_upto_ok]

lemma reader_upto_parts:
  "reader_upto k DecodeAmf0Number" "reader_upto k DecodeAmf0Boolean" "reader_upto k DecodeAmf0String"
  "reader_upto k DecodeAmf0LongString" "reader_upto k DecodeAmf0Date" "reader_upto k (AssertMarker m)"
  by (auto simp: DecodeAmf0Number_def DecodeAmf0Boolean_def DecodeAmf0String_def DecodeAmf0LongString_def
      DecodeAmf0Date_def AssertMarker_def intro!: reader_intros)

lemma reader_eats_errorf: "reader_eats k m \<Longrightarrow> reader_eats k (go_errorf msg m)"
  by (auto simp: reader_eats_def reader_upto_errorf go_errorf_def split: prod.splits res.splits)

lemma reader_eats_parts:
  "reader_eats k ReadByte" "0 < n \<Longrightarrow> reader_eats k (binary_Read n)" "reader_eats k DecodeAmf0String"
proof -
  show b: "reader_eats k ReadByte"
    unfolding reader_eats_def using reader_ok_primitives(4) [THEN reader_upto_ok]
    by (auto simp: ReadByte_def ReadBytes_def go_bind_def go_return_def split: if_splits)
  have r: "reader_eats k (binary_Read n)" if "0 < n" for n
    unfolding reader_eats_def using that reader_ok_primitives(2) [THEN reader_upto_ok]
    by (auto simp: binary_Read_def split: if_splits)
  then show "0 < n \<Longrightarrow> reader_eats k (binary_Read n)" by simp
  show "reader_eats k DecodeAmf0String"
    unfolding DecodeAmf0String_def by (intro reader_eats_bind reader_eats_errorf r reader_intros) simp_all
qed

lemma DecodeAmf0_upto:
  assumes "reader_ok amf3"
  shows "(\<forall>k < n. reader_eats k (DecodeAmf0 amf3 n)) \<and> (\<forall>k < n. \<forall>ob. reader_upto k (object_loop amf3 n ob))
    \<and> (\<forall>k c vs. Suc k < n \<longrightarrow> reader_upto k (array_loop amf3 n c vs))"
proof (induction n)
  case 0
  then show ?case by simp
next
  case (Suc n)
  have d: "\<And>k. k < n \<Longrightarrow> reader_eats k (DecodeAmf0 amf3 n)"
    and ob: "\<And>k ob. k < n \<Longrightarrow> reader_upto k (object_loop amf3 n ob)"
    and ar: "\<And>k c vs. Suc k < n \<Longrightarrow> reader_upto k (array_loop amf3 n c vs)" using Suc by auto
  note parts = reader_upto_parts reader_ok_primitives [THEN reader_upto_ok] reader_upto_ok [OF assms]
  have obv: "reader_upto j (go_bind (go_errorf msg (object_loop amf3 n ob)) (\<lambda>x. go_return (f x)))"
    if "j < n" for j msg ob and f :: "_ \<Rightarrow> amf_value"
    by (intro reader_upto_bind reader_upto_errorf ob reader_upto_return that)
  have D: "reader_eats k (DecodeAmf0 amf3 (Suc n))" if "k < Suc n" for k
    unfolding DecodeAmf0.simps
    by (rule reader_eats_bind [OF reader_eats_parts(1)])
      (use that in \<open>auto intro!: parts reader_upto_return reader_upto_fail reader_upto_errorf ob obv
         reader_upto_bind_eats [OF reader_eats_errorf [OF reader_eats_parts(2)]] ar
         intro: reader_upto_bind\<close>)
  have O: "reader_upto k (object_loop amf3 (Suc n) ob)" if "k < Suc n" for k ob
    unfolding object_loop.simps
    by (rule reader_upto_bind_eats [OF reader_eats_parts(3)])
      (use that in \<open>auto intro!: parts reader_upto_return reader_upto_errorf ob reader_upto_bind
         reader_eats_upto [OF d]\<close>)
  have A: "reader_upto k (array_loop amf3 (Suc n) c vs)" if "Suc k < Suc n" for k c vs
    unfolding array_loop.simps using that
    by (auto intro!: reader_upto_return reader_upto_bind_eats [OF reader_eats_errorf [OF d]] ar)
  show ?case using D O A by blast
qed

lemma batch_loop_total:
  "reader_ok amf3 \<Longrightarrow> length bs < n \<Longrightarrow> \<exists>vs e t. batch_loop amf3 n ret bs = (Ok (vs, e), t)"
proof (induction n arbitrary: ret bs)
  case (Suc n)
  have e: "reader_eats (length bs) (DecodeAmf0 amf3 (Suc (length bs)))"
    using DecodeAmf0_upto [OF Suc.prems(1)] by blast
  obtain r t where d: "DecodeAmf0 amf3 (Suc (length bs)) bs = (r, t)" by fastforce
  show ?case
  proof (cases r)
    case (Ok v)
    then have "length t < length bs" using e d by (auto simp: reader_eats_def)
    then have "length t < n" using Suc.prems(2) by simp
    with Suc.IH [OF Suc.prems(1)] Ok d show ?thesis by simp
  next
    case (Err x)
    with d show ?thesis by simp
  next
    case (Panic p)
    with e d show ?thesis by (auto simp: reader_eats_def reader_upto_def dest: spec [of _ bs])
  qed
qed simp

text \<open>What \<open>encode_args\<close> appends is the encoding of the list.\<close>

lemma encode_args_list:
  "encode_args EncodeAmf0 vs buf = Ok data \<Longrightarrow> \<exists>bs. encode_list vs = Inr bs \<and> data = buf @ bs"
proof (induction vs arbitrary: buf)
  case (Cons v vs)
  then obtain bs where "EncodeAmf0 v = Inr bs" "encode_args EncodeAmf0 vs (buf @ bs) = Ok data"
    by (auto split: sum.splits)
  with Cons.IH [of "buf @ bs"] show ?case by auto
qed simp

lemma batch_loop_encoded:
  "encode_list vs = Inr bs \<Longrightarrow> \<forall>v \<in> set vs. amf_plain v \<Longrightarrow> tail \<noteq> [] \<or> \<not> last_empty vs \<Longrightarrow>
    length (bs @ tail) < n \<Longrightarrow>
    \<exists>m. length tail < m \<and> batch_loop amf3 n ret (bs @ tail) = batch_loop amf3 m (ret @ map amf_norm vs) tail"
proof (induction vs arbitrary: bs ret n)
  case Nil
  then show ?case by auto
next
  case (Cons v vs)
  from Cons.prems obtain b bs1 m where e: "EncodeAmf0 v = Inr b" "encode_list vs = Inr bs1"
    and bs: "bs = b @ bs1" and n: "n = Suc m"
    by (cases n) (auto split: sum.splits)
  have ne: "0 < length b" using encode_nonempty [OF e(1)] by simp
  have v1: "vs \<noteq> [] \<Longrightarrow> bs1 \<noteq> []"
    using e(2) encode_nonempty by (cases vs) (auto split: sum.splits)
  have d: "DecodeAmf0 amf3 (Suc (length (b @ bs1 @ tail))) (b @ bs1 @ tail) = (Ok (amf_norm v), bs1 @ tail)"
    using Cons.prems v1 by (intro decode_encode_mutual(1) [OF e(1)]) (auto split: if_splits)
  have len: "length (bs1 @ tail) < m" using Cons.prems(4) ne unfolding bs n length_append by linarith
  have le: "tail \<noteq> [] \<or> \<not> last_empty vs" using Cons.prems(3) by (auto split: if_splits)
  have "\<forall>v \<in> set vs. amf_plain v" using Cons.prems(2) by simp
  from Cons.IH [OF e(2) this le len, of "ret @ [amf_norm v]"] d show ?case
    by (simp add: bs n)
qed

lemma batch_loop_Nil: "batch_loop amf3 (Suc n) ret [] = (Ok (ret, ErrEOF), [])"
  by (simp add: DecodeAmf0_markers)

lemma decode_command_message:
  assumes "NewCommandMessage EncodeAmf0 csid streamId args = Ok msg" "\<forall>v \<in> set args. amf_plain v"
    "\<not> last_empty args"
  shows "DecodeBatch amf3 (ChunkData msg) = Ok (map amf_norm args, ErrEOF)"
proof -
  from assms(1) obtain data where d: "encode_args EncodeAmf0 args [] = Ok data" "ChunkData msg = data"
    by (auto simp: NewCommandMessage_def split: res.splits)
  from encode_args_list [OF d(1)] have e: "encode_list args = Inr data" by auto
  from batch_loop_encoded [OF e assms(2), of "[]" "Suc (length data)" amf3 "[]"] assms(3) obtain m where
    "0 < m" "batch_loop amf3 (Suc (length data)) [] data = batch_loop amf3 m (map amf_norm args) []"
    by auto
  then show ?thesis by (cases m) (simp_all add: DecodeBatch_def d batch_loop_Nil del: batch_loop.simps)
qed

section \<open>Integers as doubles\<close>

lemma log2_bounds: "0 < n \<Longrightarrow> 2 ^ log2 n \<le> n \<and> n < 2 * 2 ^ log2 n"
proof (induction n rule: log2.induct)
  case (1 n)
  show ?case
  proof (cases "n \<le> 1")
    case True
    with 1(2) show ?thesis by (simp add: log2.simps)
  next
    case False
    then have "log2 n = Suc (log2 (n div 2))" by (subst log2.simps) simp
    with 1(1) [OF False] False show ?thesis by auto
  qed
qed

lemma float_fields:
  assumes "e < 2 ^ 11" "x < 2 ^ 52" "sg = 0 \<or> sg = 1"
  shows "float_exp (of_nat (e * 2 ^ 52 + x + sg * 2 ^ 63)) = e"
    "float_mant (of_nat (e * 2 ^ 52 + x + sg * 2 ^ 63)) = x"
    "unat (of_nat (e * 2 ^ 52 + x + sg * 2 ^ 63) :: u64) \<ge> 2 ^ 63 \<longleftrightarrow> sg = 1"
proof -
  have b: "e * 2 ^ 52 + x < 2 ^ 63" using assms(1,2) by simp
  have "e * 2 ^ 52 + x + sg * 2 ^ 63 < 2 ^ 64" using b assms(3) by auto
  then have u: "unat (of_nat (e * 2 ^ 52 + x + sg * 2 ^ 63) :: u64) = e * 2 ^ 52 + x + sg * 2 ^ 63"
    unfolding unat_of_nat by (intro mod_less) simp
  have s: "e * 2 ^ 52 + x + sg * 2 ^ 63 = x + (e + sg * 2 ^ 11) * 2 ^ 52" by simp
  have d: "(x + k * 2 ^ 52) div 2 ^ 52 = k" "(x + k * 2 ^ 52) mod 2 ^ 52 = x" for k
    using assms(2) by simp_all
  show "float_exp (of_nat (e * 2 ^ 52 + x + sg * 2 ^ 63)) = e"
    unfolding float_exp_def u unfolding s d using assms(1) by simp
  show "float_mant (of_nat (e * 2 ^ 52 + x + sg * 2 ^ 63)) = x"
    unfolding float_mant_def u unfolding s d by simp
  show "unat (of_nat (e * 2 ^ 52 + x + sg * 2 ^ 63) :: u64) \<ge> 2 ^ 63 \<longleftrightarrow> sg = 1"
    unfolding u using b assms(3) by auto
qed

lemma nat_to_float_small:
  assumes "0 < n" "n < 2 ^ 53"
  obtains e where "e \<le> 52" "2 ^ 52 \<le> n * 2 ^ (52 - e)" "n * 2 ^ (52 - e) < 2 ^ 53"
    "nat_to_float n = (e + 1023) * 2 ^ 52 + (n * 2 ^ (52 - e) - 2 ^ 52)"
proof
  let ?e = "log2 n"
  note b = log2_bounds [OF assms(1)]
  have "(2 :: nat) ^ ?e < 2 ^ 53" using b assms(2) by linarith
  then have "?e < 53" by (rule power_less_imp_less_exp [rotated]) simp
  then show e: "?e \<le> 52" by simp
  have p: "(2 :: nat) ^ ?e * 2 ^ (52 - ?e) = 2 ^ 52" using e by (simp flip: power_add)
  have "2 ^ ?e * 2 ^ (52 - ?e) \<le> n * 2 ^ (52 - ?e)" using b by simp
  with p show "2 ^ 52 \<le> n * 2 ^ (52 - ?e)" by simp
  have "n * 2 ^ (52 - ?e) < 2 * 2 ^ ?e * 2 ^ (52 - ?e)" using b by simp
  with p show "n * 2 ^ (52 - ?e) < 2 ^ 53" by (simp add: mult.assoc)
  show "nat_to_float n = (?e + 1023) * 2 ^ 52 + (n * 2 ^ (52 - ?e) - 2 ^ 52)"
    using assms(1) e by (simp add: nat_to_float_def Let_def)
qed

text \<open>An integer below 2^53 in magnitude survives: the double written for it converts back to it.\<close>

lemma float_int_roundtrip:
  assumes "\<bar>i\<bar> < 2 ^ 53"
  shows "float_to_int (int_to_float i) = i"
proof (cases "i = 0")
  case True
  then show ?thesis
    by (simp add: int_to_float_def nat_to_float_def float_to_int_def float_exp_def)
next
  case False
  define n where "n = nat \<bar>i\<bar>"
  define sg :: nat where "sg = (if i < 0 then 1 else 0)"
  have n: "0 < n" "n < 2 ^ 53" using False assms by (auto simp: n_def)
  from nat_to_float_small [OF n] obtain e where e: "e \<le> 52" and m: "2 ^ 52 \<le> n * 2 ^ (52 - e)"
    "n * 2 ^ (52 - e) < 2 ^ 53" and f: "nat_to_float n = (e + 1023) * 2 ^ 52 + (n * 2 ^ (52 - e) - 2 ^ 52)" .
  define x where "x = n * 2 ^ (52 - e) - 2 ^ 52"
  have x: "x < 2 ^ 52" "x + 2 ^ 52 = n * 2 ^ (52 - e)" using m by (auto simp: x_def)
  have w: "int_to_float i = of_nat ((e + 1023) * 2 ^ 52 + x + sg * 2 ^ 63)"
    unfolding int_to_float_def n_def [symmetric] f x_def [symmetric] by (simp add: sg_def)
  have e1: "e + 1023 < 2 ^ 11" using e by simp
  have sg: "sg = 0 \<or> sg = 1" by (simp add: sg_def)
  note ff = float_fields [OF e1 x(1) sg, folded w]
  have k: "(if 1075 \<le> e + 1023 then (x + 2 ^ 52) * 2 ^ (e + 1023 - 1075)
      else (x + 2 ^ 52) div 2 ^ (1075 - (e + 1023))) = n"
    unfolding x(2) using e by (cases "e = 52") auto
  show ?thesis
    unfolding float_to_int_def Let_def ff k using e by (auto simp: sg_def n_def)
qed

section \<open>Properties\<close>


definition no_amf3 :: "amf_value reader" where
  "no_amf3 bs = (Err (ErrNew ''decode amf3: unsupported type''), bs)"

lemma no_amf3_ok: "reader_ok no_amf3"
  by (simp add: reader_ok_def no_amf3_def)


text \<open>C15: A command message carries its arguments: decoding the body that \<open>NewCommandMessage\<close> built gives back every argument, integers as the doubles they were written as, and ends at the end of the message, unless the last argument ends in an empty string.\<close>

theorem command_message_roundtrip:
  assumes "NewCommandMessage EncodeAmf0 csid streamId args = Ok msg" "\<forall>v \<in> set args. amf_plain v"
    "\<not> last_empty args"
  shows "DecodeBatch amf3 (ChunkData msg) = Ok (map amf_norm args, ErrEOF)"
  using assms by (rule decode_command_message)

theorem command_message_roundtrip_witness:
  "\<exists>msg. NewCommandMessage EncodeAmf0 3 0 [AString ''_result'', AInt 1, AObject [(''level'', AString ''status'')], ANil] = Ok msg
     \<and> DecodeBatch no_amf3 (ChunkData msg)
       = Ok ([AString ''_result'', ANumber (int_to_float 1), AObject [(''level'', AString ''status'')], ANil], ErrEOF)"
proof -
  let ?args = "[AString ''_result'', AInt 1, AObject [(''level'', AString ''status'')], ANil]"
  obtain msg where m: "NewCommandMessage EncodeAmf0 3 0 ?args = Ok msg"
    by (simp add: NewCommandMessage_def)
  have "\<forall>v \<in> set ?args. amf_plain v" "\<not> last_empty ?args" by simp_all
  from command_message_roundtrip [OF m this, of no_amf3] m show ?thesis by auto
qed

text \<open>A message whose last value is an empty string cannot be decoded: the reader reports the end of the input for a read of no bytes, so the batch stops with an error that is not \<open>io.EOF\<close>, after the values before it.\<close>

lemma trailing_empty_string:
  assumes "encode_args EncodeAmf0 (args @ [AString []]) [] = Ok data" "\<forall>v \<in> set args. amf_plain v"
  shows "DecodeBatch amf3 data
    = Ok (map amf_norm args, ErrNew ''decode amf0: unable to decode string value'')"
proof -
  have app: "encode_list (xs @ ys) = Inr bs \<Longrightarrow>
      \<exists>b c. encode_list xs = Inr b \<and> encode_list ys = Inr c \<and> bs = b @ c" for xs ys bs
    by (induction xs arbitrary: bs) (auto split: sum.splits)
  from encode_args_list [OF assms(1)] app obtain b c where
    e: "encode_list args = Inr b" "encode_list [AString []] = Inr c" "data = b @ c" by fastforce
  have c: "c = [2, 0, 0]" using e(2) by (simp add: EncodeAmf0String_def encode_string_def bytes_of_def numeral_2_eq_2)
  from batch_loop_encoded [OF e(1) assms(2), of c "Suc (length data)" amf3 "[]"] obtain m where
    m: "batch_loop amf3 (Suc (length data)) [] data = batch_loop amf3 m (map amf_norm args) c" "0 < m"
    by (auto simp: e(3) c)
  have "DecodeAmf0 amf3 (Suc (length c)) c = (Err (ErrNew ''decode amf0: unable to decode string value''), [])"
    by (simp add: c DecodeAmf0_markers DecodeAmf0String_def go_bind_def go_errorf_def binary_Read_def be_in_def
        ReadBytes_def)
  with m show ?thesis by (cases m) (simp_all add: DecodeBatch_def)
qed

text \<open>Reforming metadata: adding puts the \<open>@setDataFrame\<close> string in front of a message that starts with another string, and deleting takes it off again and leaves what a player is to receive.\<close>

lemma metadata_reform:
  assumes "EncodeAmf0 (AString name) = Inr bs" "length name < 2 ^ 32" "name \<noteq> SetDataFrame" "name \<noteq> []"
  shows "MetaDataReform amf3 (bs @ body) 0 = Ok (setFrameFrame @ bs @ body)
    \<and> MetaDataReform amf3 (setFrameFrame @ bs @ body) 3 = Ok (bs @ body)
    \<and> MetaDataReform amf3 (bs @ body) 3 = Ok (bs @ body)"
proof -
  have "DecodeAmf0 amf3 (Suc (length (bs @ body))) (bs @ body) = (Ok (amf_norm (AString name)), body)"
    using assms by (intro decode_encode_mutual(1)) auto
  moreover have "DecodeAmf0 amf3 (Suc (length (setFrameFrame @ bs @ body))) (setFrameFrame @ bs @ body)
      = (Ok (amf_norm (AString SetDataFrame)), bs @ body)"
    by (intro decode_encode_mutual(1)) (auto simp: setFrameFrame_def SetDataFrame_def)
  ultimately show ?thesis
    using assms(3) by (simp add: MetaDataReform_def)
qed

end
