(* ===== verification/Av_Flv.thy ===== *)
theory Av_Flv
  imports Go_Prelude
begin

text \<open>
  Audio and video packets (\<open>pkg/av\<close>) and the FLV tag header decoder (\<open>pkg/av/flv\<close>). A \<open>*Tag\<close> is stored
  in a packet as its \<open>PacketHeader\<close>, where the session asks it what kind of frame it holds.
\<close>

section \<open>Packets\<close>

type_synonym AVPacketType = u32

definition AudioType :: AVPacketType where "AudioType = 0x08"
definition VideoType :: AVPacketType where "VideoType = 0x09"
definition MetaData :: AVPacketType where "MetaData = 0x12"

lemmas packet_types = AudioType_def VideoType_def MetaData_def

section \<open>Tags\<close>

record flvTag =
  TagType :: u8
  DataSize :: u32
  tag_Timestamp :: u32
  tag_StreamID :: u32

record mediaTag =
  m_SoundFormat :: u8
  m_SoundRate :: u8
  m_SoundSize :: u8
  m_SoundType :: u8
  m_AACPacketType :: u8
  m_FrameType :: u8
  m_CodecID :: u8
  m_AvcPacketType :: u8
  m_CompostioinTime :: i32

record Tag =
  flv_tag :: flvTag
  media_tag :: mediaTag

definition zero_Tag :: Tag where
  "zero_Tag =
     \<lparr>flv_tag = \<lparr>TagType = 0, DataSize = 0, tag_Timestamp = 0, tag_StreamID = 0\<rparr>,
      media_tag = \<lparr>m_SoundFormat = 0, m_SoundRate = 0, m_SoundSize = 0, m_SoundType = 0,
        m_AACPacketType = 0, m_FrameType = 0, m_CodecID = 0, m_AvcPacketType = 0,
        m_CompostioinTime = 0\<rparr>\<rparr>"

definition SoundFormat :: "Tag \<Rightarrow> u8" where "SoundFormat t = m_SoundFormat (media_tag t)"

definition AACPacketType :: "Tag \<Rightarrow> u8" where "AACPacketType t = m_AACPacketType (media_tag t)"

definition IsKeyFrame :: "Tag \<Rightarrow> bool" where "IsKeyFrame t \<longleftrightarrow> m_FrameType (media_tag t) = 1"

definition IsSequenceHeader :: "Tag \<Rightarrow> bool" where
  "IsSequenceHeader t \<longleftrightarrow> IsKeyFrame t \<and> m_AvcPacketType (media_tag t) = 0"

definition CodecID :: "Tag \<Rightarrow> u8" where "CodecID t = m_CodecID (media_tag t)"

definition CompostioinTime :: "Tag \<Rightarrow> i32" where "CompostioinTime t = m_CompostioinTime (media_tag t)"

definition upd_media :: "(mediaTag \<Rightarrow> mediaTag) \<Rightarrow> Tag \<Rightarrow> Tag" where
  "upd_media f t = t\<lparr>media_tag := f (media_tag t)\<rparr>"

definition decodeVideoHeader :: "bytes \<Rightarrow> (Tag, nat) go" where
  "decodeVideoHeader b t =
     (if length b < 5 then (Err (ErrNew ''invalid Video Data len''), t)
      else
        (let flags = b ! 0;
             t = upd_media (\<lambda>m. m\<lparr>m_FrameType := drop_bit 4 flags\<rparr>) t;
             t = upd_media (\<lambda>m. m\<lparr>m_CodecID := flags AND 0xf\<rparr>) t
         in if m_CodecID (media_tag t) = 7
               \<and> (m_FrameType (media_tag t) = 1 \<or> m_FrameType (media_tag t) = 2)
            then
              (let t = upd_media (\<lambda>m. m\<lparr>m_AvcPacketType := b ! 1\<rparr>) t;
                   t = fold (\<lambda>i. upd_media (\<lambda>m. m\<lparr>m_CompostioinTime :=
                         push_bit 8 (m_CompostioinTime m) + ucast (b ! i)\<rparr>)) [2..<5] t
               in (Ok 5, t))
            else (Ok 1, t)))"

definition decodeAudioHeader :: "bytes \<Rightarrow> (Tag, nat) go" where
  "decodeAudioHeader b t =
     (if length b < 1 then (Err (ErrNew ''invalid audio data len''), t)
      else
        (let flags = b ! 0;
             t = upd_media (\<lambda>m. m\<lparr>m_SoundFormat := drop_bit 4 flags,
                                  m_SoundRate := drop_bit 2 flags AND 0x3,
                                  m_SoundSize := drop_bit 1 flags AND 0x1,
                                  m_SoundType := flags AND 0x1\<rparr>) t
         in if m_SoundFormat (media_tag t) = 10
            then (if 1 < length b
                  then (Ok 2, upd_media (\<lambda>m. m\<lparr>m_AACPacketType := b ! 1\<rparr>) t)
                  else (Panic IndexOutOfRange, t))
            else (Ok 1, t)))"

definition DecodeMediaTagHeader :: "bytes \<Rightarrow> AVPacketType \<Rightarrow> (Tag, nat) go" where
  "DecodeMediaTagHeader b typ =
     (if typ = VideoType then decodeVideoHeader b else decodeAudioHeader b)"

section \<open>Packets and the demuxer\<close>

record av_packet =
  PacketHeader :: "Tag option"
  Data :: bytes
  pkt_Timestamp :: u32
  pkt_StreamID :: u32
  PacketType :: AVPacketType

definition zero_packet :: av_packet where
  "zero_packet = \<lparr>PacketHeader = None, Data = [], pkt_Timestamp = 0, pkt_StreamID = 0, PacketType = 0\<rparr>"

definition packet_loadOptions :: "(av_packet \<Rightarrow> av_packet) list \<Rightarrow> av_packet \<Rightarrow> av_packet" where
  "packet_loadOptions opts p = fold (\<lambda>opt x. opt x) opts p"

definition NewPacket :: "(av_packet \<Rightarrow> av_packet) list \<Rightarrow> av_packet" where
  "NewPacket opts = packet_loadOptions opts zero_packet"

definition WithPacketData :: "bytes \<Rightarrow> av_packet \<Rightarrow> av_packet" where
  "WithPacketData d p = p\<lparr>Data := d\<rparr>"

definition WithPacketType :: "AVPacketType \<Rightarrow> av_packet \<Rightarrow> av_packet" where
  "WithPacketType t p = p\<lparr>PacketType := t\<rparr>"

definition WithPacketTimestamp :: "u32 \<Rightarrow> av_packet \<Rightarrow> av_packet" where
  "WithPacketTimestamp t p = p\<lparr>pkt_Timestamp := t\<rparr>"

definition WithPacketStreamID :: "u32 \<Rightarrow> av_packet \<Rightarrow> av_packet" where
  "WithPacketStreamID i p = p\<lparr>pkt_StreamID := i\<rparr>"

definition DecodeHeader :: "(av_packet, unit) go" where
  "DecodeHeader pkt =
     (case DecodeMediaTagHeader (Data pkt) (PacketType pkt) zero_Tag of
        (Err e, _) \<Rightarrow> (Err (Wrap ''decode media tag header'' e), pkt)
      | (Panic p, _) \<Rightarrow> (Panic p, pkt)
      | (Ok n, tag) \<Rightarrow> (Ok (), pkt\<lparr>PacketHeader := Some tag\<rparr>))"

section \<open>What the decoder finds\<close>

lemma upd_media_simps [simp]:
  "media_tag (upd_media f t) = f (media_tag t)" "flv_tag (upd_media f t) = flv_tag t"
  by (simp_all add: upd_media_def)

lemma and_low_bits:
  "unat ((w :: u8) AND 0xf) = unat w mod 16" "unat (w AND 0x3) = unat w mod 4"
  "unat (w AND 0x1) = unat w mod 2"
proof -
  have a: "w AND 0xf = take_bit 4 w" "w AND 0x3 = take_bit 2 w" "w AND 0x1 = take_bit 1 w"
    by (simp_all add: take_bit_eq_mask mask_eq_exp_minus_1)
  have n: "unat (take_bit k w) = unat w mod 2 ^ k" for k
    by (simp only: unsigned_take_bit_eq take_bit_nat_def)
  show "unat (w AND 0xf) = unat w mod 16" "unat (w AND 0x3) = unat w mod 4"
    "unat (w AND 0x1) = unat w mod 2"
    unfolding a n by simp_all
qed

lemma drop_bits: "unat (drop_bit k (w :: u8)) = unat w div 2 ^ k"
  by (simp only: unat_drop_bit_eq drop_bit_nat_def)

lemma composition_value:
  "fold (\<lambda>i. upd_media (\<lambda>m. m\<lparr>m_CompostioinTime := push_bit 8 (m_CompostioinTime m) + ucast (b ! i)\<rparr>))
      [2..<5] t
   = upd_media (\<lambda>m. m\<lparr>m_CompostioinTime :=
       push_bit 8 (push_bit 8 (push_bit 8 (m_CompostioinTime m) + ucast (b ! 2)) + ucast (b ! 3)) + ucast (b ! 4)\<rparr>) t"
  by (simp add: upt_rec upd_media_def)

lemma byte_nat: "unat (ucast (x :: u8) :: u32) = unat x" "unat (x :: u8) < 256"
proof -
  have "unat x < 2 ^ 8" by (rule order_less_le_trans [OF unsigned_less]) simp
  then show "unat (ucast x :: u32) = unat x" "unat x < 256"
    by (simp_all add: unsigned_ucast_eq take_bit_nat_eq_self)
qed

lemma snoc_byte:
  assumes "unat (w :: u32) < 2 ^ 24"
  shows "unat (push_bit 8 w + ucast (x :: u8)) = 256 * unat w + unat x"
  using assms byte_nat [of x] by (simp add: push_bit_eq_mult unat_word_ariths)

lemma composition_bound:
  fixes x y z :: u8
  shows "unat (push_bit 8 (push_bit 8 (ucast x) + ucast y) + ucast z :: u32)
     = unat x * 2 ^ 16 + unat y * 2 ^ 8 + unat z"
proof -
  note b = byte_nat(2) [of x] byte_nat(2) [of y]
  have 1: "unat (push_bit 8 (ucast x) + ucast y :: u32) = 256 * unat x + unat y"
    using snoc_byte [of "ucast x" y] b byte_nat(1) [of x] by simp
  show ?thesis
    using snoc_byte [of "push_bit 8 (ucast x) + ucast y" z] b 1 by simp
qed

text \<open>The decoder's result on every input, by the codec of the first byte.\<close>

lemma decodeVideoHeader_short: "length b < 5 \<Longrightarrow> \<exists>e. decodeVideoHeader b t = (Err e, t)"
  by (simp add: decodeVideoHeader_def)

lemma decodeVideoHeader_fields:
  assumes "5 \<le> length b" "decodeVideoHeader b zero_Tag = (r, t)"
  shows "unat (m_FrameType (media_tag t)) = unat (b ! 0) div 16"
    "unat (CodecID t) = unat (b ! 0) mod 16"
    "r = Ok (if unat (b ! 0) mod 16 = 7 \<and> unat (b ! 0) div 16 \<in> {1, 2} then 5 else 1)"
    "m_AvcPacketType (media_tag t) = (if r = Ok 5 then b ! 1 else 0)"
    "unat (CompostioinTime t) =
      (if r = Ok 5 then unat (b ! 2) * 2 ^ 16 + unat (b ! 3) * 2 ^ 8 + unat (b ! 4) else 0)"
proof -
  have f: "drop_bit 4 (b ! 0) = 1 \<longleftrightarrow> unat (b ! 0) div 16 = 1" "drop_bit 4 (b ! 0) = 2 \<longleftrightarrow> unat (b ! 0) div 16 = 2"
    "b ! 0 AND 0xf = 7 \<longleftrightarrow> unat (b ! 0) mod 16 = 7"
    by (simp_all add: word_unat_eq_iff drop_bits and_low_bits)
  have "decodeVideoHeader b zero_Tag =
    (if unat (b ! 0) mod 16 = 7 \<and> unat (b ! 0) div 16 \<in> {1, 2}
     then (Ok 5, upd_media (\<lambda>m. m\<lparr>m_FrameType := drop_bit 4 (b ! 0), m_CodecID := b ! 0 AND 0xf,
            m_AvcPacketType := b ! 1, m_CompostioinTime :=
              push_bit 8 (push_bit 8 (ucast (b ! 2)) + ucast (b ! 3)) + ucast (b ! 4)\<rparr>) zero_Tag)
     else (Ok 1, upd_media (\<lambda>m. m\<lparr>m_FrameType := drop_bit 4 (b ! 0), m_CodecID := b ! 0 AND 0xf\<rparr>) zero_Tag))"
    using assms(1) f unfolding decodeVideoHeader_def Let_def composition_value
    by (simp add: upd_media_def zero_Tag_def)
  with assms(2) show "unat (m_FrameType (media_tag t)) = unat (b ! 0) div 16"
    "unat (CodecID t) = unat (b ! 0) mod 16"
    "r = Ok (if unat (b ! 0) mod 16 = 7 \<and> unat (b ! 0) div 16 \<in> {1, 2} then 5 else 1)"
    "m_AvcPacketType (media_tag t) = (if r = Ok 5 then b ! 1 else 0)"
    "unat (CompostioinTime t) =
      (if r = Ok 5 then unat (b ! 2) * 2 ^ 16 + unat (b ! 3) * 2 ^ 8 + unat (b ! 4) else 0)"
    by (auto simp: drop_bits and_low_bits CodecID_def CompostioinTime_def composition_bound zero_Tag_def
        split: if_splits)
qed

lemma decodeAudioHeader_cases:
  "decodeAudioHeader b t =
    (if b = [] then (Err (ErrNew ''invalid audio data len''), t)
     else
       (let u = upd_media (\<lambda>m. m\<lparr>m_SoundFormat := drop_bit 4 (hd b), m_SoundRate := drop_bit 2 (hd b) AND 0x3,
              m_SoundSize := drop_bit 1 (hd b) AND 0x1, m_SoundType := hd b AND 0x1\<rparr>) t
        in if unat (hd b) div 16 \<noteq> 10 then (Ok 1, u)
           else if tl b = [] then (Panic IndexOutOfRange, u)
           else (Ok 2, upd_media (\<lambda>m. m\<lparr>m_AACPacketType := hd (tl b)\<rparr>) u)))"
proof -
  have "drop_bit 4 (hd b) = 10 \<longleftrightarrow> unat (hd b) div 16 = 10"
    by (simp add: word_unat_eq_iff drop_bits)
  then show ?thesis
    by (cases b; cases "tl b") (simp_all add: decodeAudioHeader_def Let_def)
qed

section \<open>Properties\<close>

text \<open>What a video packet's first bytes say. With five bytes or more the decoder finds the frame type and
  the codec in the two halves of the first byte; only for AVC key and inter frames it reads the
  packet type and the 24-bit composition time, most significant byte first, and has consumed 5.\<close>

lemma video_header_fields:
  assumes "5 \<le> length b"
  shows "let avc = unat (b ! 0) mod 16 = 7 \<and> unat (b ! 0) div 16 \<in> {1, 2};
             r = fst (decodeVideoHeader b zero_Tag); t = snd (decodeVideoHeader b zero_Tag)
         in r = Ok (if avc then 5 else 1) \<and> unat (CodecID t) = unat (b ! 0) mod 16
          \<and> (IsKeyFrame t \<longleftrightarrow> unat (b ! 0) div 16 = 1)
          \<and> unat (CompostioinTime t) =
              (if avc then unat (b ! 2) * 2 ^ 16 + unat (b ! 3) * 2 ^ 8 + unat (b ! 4) else 0)"
  using decodeVideoHeader_fields [OF assms prod.collapse [symmetric]]
  by (auto simp: Let_def IsKeyFrame_def word_unat_eq_iff)

text \<open>C38: a key frame of any other codec passes for a sequence header. For packets of five bytes or more,
  \<open>IsSequenceHeader\<close> holds of the decoded tag exactly for AVC key frames of packet type 0 and for all key
  frames whose codec is not AVC.\<close>

theorem sequence_header_of_other_codecs:
  assumes "5 \<le> length b"
  shows "IsSequenceHeader (snd (decodeVideoHeader b zero_Tag)) \<longleftrightarrow>
    unat (b ! 0) div 16 = 1 \<and> (unat (b ! 0) mod 16 = 7 \<longrightarrow> b ! 1 = 0)"
  using decodeVideoHeader_fields [OF assms prod.collapse [symmetric]]
  by (auto simp: IsSequenceHeader_def IsKeyFrame_def word_unat_eq_iff)

theorem sequence_header_of_other_codecs_witness:
  "IsSequenceHeader (snd (decodeVideoHeader [0x12, 9, 9, 9, 9] zero_Tag))
    \<and> \<not> IsSequenceHeader (snd (decodeVideoHeader [0x17, 1, 0, 0, 0] zero_Tag))"
  using sequence_header_of_other_codecs [of "[0x12, 9, 9, 9, 9]"]
    sequence_header_of_other_codecs [of "[0x17, 1, 0, 0, 0]"] by simp

text \<open>C37: the demuxer panics on exactly one kind of packet. \<open>DecodeHeader\<close> indexes out of range if and only if
  the packet is not video and its data is a single byte whose sound format is AAC; any other packet
  gets a tag or an error.\<close>

theorem demuxer_panics_iff:
  "(\<exists>p. fst (DecodeHeader pkt) = Panic p) \<longleftrightarrow>
    PacketType pkt \<noteq> VideoType \<and> (\<exists>x. Data pkt = [x] \<and> unat x div 16 = 10)"
proof (cases "PacketType pkt = VideoType")
  case True
  then show ?thesis
    by (simp add: DecodeHeader_def DecodeMediaTagHeader_def decodeVideoHeader_def Let_def)
next
  case False
  then show ?thesis
    by (cases "Data pkt"; cases "tl (Data pkt)")
      (simp_all add: DecodeHeader_def DecodeMediaTagHeader_def decodeAudioHeader_cases Let_def)
qed

end
