(* ===== verification/Sha256.thy ===== *)
theory Sha256
  imports Go_Prelude
begin

text \<open>
  What the handshake uses of the standard library: \<open>sha256.New\<close> and \<open>hmac.New(sha256.New, key)\<close> with
  \<open>Write\<close> and \<open>Sum(nil)\<close>, as functions of the bytes written (FIPS 180-4, RFC 2104). They are executable;
  the proofs use only the length of a digest.
\<close>

definition rotr :: "nat \<Rightarrow> u32 \<Rightarrow> u32" where
  "rotr n w = drop_bit n w OR push_bit (32 - n) w"

text \<open>
  The constants are the first 32 bits of the fractional parts of roots of primes: the cube roots of the
  first 64 for the rounds, the square roots of the first 8 for the initial state. \<open>iroot\<close> finds the
  integer part of a root bit by bit.
\<close>

primrec iroot :: "nat \<Rightarrow> nat \<Rightarrow> nat \<Rightarrow> nat \<Rightarrow> nat" where
  "iroot c n 0 r = r"
| "iroot c n (Suc b) r = iroot c n b (if (r + 2 ^ b) ^ c \<le> n then r + 2 ^ b else r)"

definition primes_below :: "nat \<Rightarrow> nat list" where
  "primes_below n = filter (\<lambda>p. list_all (\<lambda>d. p mod d \<noteq> 0) [2..<p]) [2..<n]"

definition sha_K :: "u32 list" where
  "sha_K = map (\<lambda>p. of_nat (iroot 3 (p * 2 ^ 96) 36 0)) (primes_below 312)"

type_synonym sha_state = "u32 \<times> u32 \<times> u32 \<times> u32 \<times> u32 \<times> u32 \<times> u32 \<times> u32"

definition sha_H0 :: sha_state where
  "sha_H0 =
     (let r = (\<lambda>p. of_nat (iroot 2 (p * 2 ^ 64) 37 0))
      in (r 2, r 3, r 5, r 7, r 11, r 13, r 17, r 19))"

definition be32 :: "bytes \<Rightarrow> u32" where
  "be32 bs = fold (\<lambda>b w. push_bit 8 w OR ucast b) bs 0"

definition word_bytes :: "u32 \<Rightarrow> bytes" where
  "word_bytes w = map (\<lambda>k. ucast (drop_bit k w)) [24, 16, 8, 0]"

fun words_of :: "bytes \<Rightarrow> u32 list" where
  "words_of (a # b # c # d # bs) = be32 [a, b, c, d] # words_of bs"
| "words_of bs = []"

text \<open>The message schedule, kept newest word first.\<close>

definition schedule_step :: "u32 list \<Rightarrow> u32 list" where
  "schedule_step W =
     (let w2 = W ! 1; w7 = W ! 6; w15 = W ! 14; w16 = W ! 15;
          s0 = rotr 7 w15 XOR rotr 18 w15 XOR drop_bit 3 w15;
          s1 = rotr 17 w2 XOR rotr 19 w2 XOR drop_bit 10 w2
      in (w16 + s0 + w7 + s1) # W)"

definition schedule :: "bytes \<Rightarrow> u32 list" where
  "schedule block = rev ((schedule_step ^^ 48) (rev (words_of block)))"

definition sha_round :: "u32 \<times> u32 \<Rightarrow> sha_state \<Rightarrow> sha_state" where
  "sha_round kw s =
     (case kw of (k, w) \<Rightarrow> case s of (a, b, c, d, e, f, g, h) \<Rightarrow>
        (let s1 = rotr 6 e XOR rotr 11 e XOR rotr 25 e;
             ch = (e AND f) XOR (NOT e AND g);
             t1 = h + s1 + ch + k + w;
             s0 = rotr 2 a XOR rotr 13 a XOR rotr 22 a;
             maj = (a AND b) XOR (a AND c) XOR (b AND c);
             t2 = s0 + maj
         in (t1 + t2, a, b, c, d + t1, e, f, g)))"

definition compress :: "sha_state \<Rightarrow> bytes \<Rightarrow> sha_state" where
  "compress s block =
     (case s of (a, b, c, d, e, f, g, h) \<Rightarrow>
        case fold sha_round (zip sha_K (schedule block)) s of (a', b', c', d', e', f', g', h') \<Rightarrow>
          (a + a', b + b', c + c', d + d', e + e', f + f', g + g', h + h'))"

definition sha_pad :: "bytes \<Rightarrow> bytes" where
  "sha_pad m =
     m @ [0x80] @ replicate ((119 - length m mod 64) mod 64) 0
       @ map (\<lambda>k. of_nat (8 * length m div 2 ^ k)) [56, 48, 40, 32, 24, 16, 8, 0]"

text \<open>The padded message block by block; the length of the list bounds the recursion.\<close>

primrec blocks :: "nat \<Rightarrow> bytes \<Rightarrow> bytes list" where
  "blocks 0 m = []"
| "blocks (Suc n) m = take 64 m # blocks n (drop 64 m)"

definition sha256 :: "bytes \<Rightarrow> bytes" where
  "sha256 m =
     (let p = sha_pad m
      in case fold (\<lambda>block s. compress s block) (blocks (length p div 64) p) sha_H0 of
           (a, b, c, d, e, f, g, h) \<Rightarrow> concat (map word_bytes [a, b, c, d, e, f, g, h]))"

definition hmac_sha256 :: "bytes \<Rightarrow> bytes \<Rightarrow> bytes" where
  "hmac_sha256 key m =
     (let key = (if length key > 64 then sha256 key else key);
          key = key @ replicate (64 - length key) 0
      in sha256 (map (\<lambda>b. b XOR 0x5c) key @ sha256 (map (\<lambda>b. b XOR 0x36) key @ m)))"

lemma length_sha256 [simp]: "length (sha256 m) = 32"
  by (simp add: sha256_def word_bytes_def Let_def split_beta)

lemma length_hmac_sha256 [simp]: "length (hmac_sha256 key m) = 32"
  by (simp add: hmac_sha256_def Let_def)

lemma length_sha_pad: "length (sha_pad m) mod 64 = 0"
proof -
  have "(length m + 9 + (119 - length m mod 64) mod 64) mod 64 = 0"
  proof -
    have "length m mod 64 < 64" by simp
    then have "(length m mod 64 + 9 + (119 - length m mod 64)) mod 64 = 0" by simp
    then show ?thesis by (metis mod_add_left_eq mod_add_right_eq)
  qed
  moreover have "length (sha_pad m) = length m + 9 + (119 - length m mod 64) mod 64"
    by (simp add: sha_pad_def)
  ultimately show ?thesis by simp
qed

end
