(* ===== verification/Handshake.thy ===== *)
theory Handshake
  imports Common Sha256
begin

text \<open>
  The server's handshake (\<open>pkg/rtmp/handshake/handshake_server.go\<close>): it reads C0 and C1, answers with
  S0, S1 and S2, in the digest scheme when C1 carries a version and by echoing otherwise, and reads C2.

  A digest block is 1536 bytes with a 32-byte digest at a position computed from four of them; the
  digest is the HMAC of the block without it. \<open>digest_scheme\<close> is that contract, proved once and
  interpreted for the two places the position bytes can be. The connection is its unread input, the
  error after it, and its output; the bytes \<open>rand.Read\<close> fills in are an argument, by call and length.
\<close>

section \<open>Digests\<close>

definition complexHandshakeCalcDigestPos :: "bytes \<Rightarrow> nat \<Rightarrow> nat res" where
  "complexHandshakeCalcDigestPos p base =
     (if base + 4 \<le> length p
      then Ok (sum_list (map (\<lambda>i. unat (p ! (base + i))) [0..<4]) mod 728 + base + 4)
      else Panic IndexOutOfRange)"

definition complexHandshakeMakeDigest :: "bytes \<Rightarrow> bytes \<Rightarrow> int \<Rightarrow> bytes res" where
  "complexHandshakeMakeDigest key src gap =
     (if gap \<le> 0 then Ok (hmac_sha256 key src)
      else if nat gap + 32 \<le> length src
      then Ok (hmac_sha256 key (take (nat gap) src @ drop (nat gap + 32) src))
      else Panic SliceOutOfRange)"

definition complexHandshakeFindDigest :: "bytes \<Rightarrow> bytes \<Rightarrow> nat \<Rightarrow> int res" where
  "complexHandshakeFindDigest p key base =
     res_bind (complexHandshakeCalcDigestPos p base) (\<lambda>gap.
     res_bind (complexHandshakeMakeDigest key p (int gap)) (\<lambda>digest.
     if gap + 32 \<le> length p
     then Ok (if take 32 (drop gap p) \<noteq> digest then - 1 else int gap)
     else Panic SliceOutOfRange))"

definition complexHandshakeParseC1 :: "bytes \<Rightarrow> bytes \<Rightarrow> bytes \<Rightarrow> (bool \<times> bytes) res" where
  "complexHandshakeParseC1 p peerkey key =
     res_bind (complexHandshakeFindDigest p peerkey 772) (\<lambda>pos.
     res_bind (if pos = - 1 then complexHandshakeFindDigest p peerkey 8 else Ok pos) (\<lambda>pos.
     if pos = - 1 then Ok (False, [])
     else
       res_bind (complexHandshakeMakeDigest key (take 32 (drop (nat pos) p)) (- 1)) (\<lambda>digest.
       Ok (True, digest))))"

text \<open>\<open>copy(dst[lo:], src)\<close>\<close>

definition copy_at :: "nat \<Rightarrow> bytes \<Rightarrow> bytes \<Rightarrow> bytes" where
  "copy_at lo src dst =
     take lo dst @ take (length dst - lo) src @ drop (lo + length src) dst"

definition complexHandshakeCreateS0S1 ::
  "(nat \<Rightarrow> bytes) \<Rightarrow> bytes \<Rightarrow> u32 \<Rightarrow> u32 \<Rightarrow> bytes \<Rightarrow> bytes res" where
  "complexHandshakeCreateS0S1 rand p time ver key =
     (let p1 = drop 1 p;
          p1 = copy_at 8 (rand (length p1 - 8)) p1;
          p1 = copy_at 0 (UintAsBytes time (take 4 p1) True) p1;
          p1 = copy_at 4 (UintAsBytes ver (take 4 (drop 4 p1)) True) p1
      in res_bind (complexHandshakeCalcDigestPos p1 8) (\<lambda>gap.
         res_bind (complexHandshakeMakeDigest key p1 (int gap)) (\<lambda>digest.
         Ok (take 1 p @ copy_at gap digest p1))))"

definition complexHandshakeCreateS2 :: "(nat \<Rightarrow> bytes) \<Rightarrow> bytes \<Rightarrow> bytes \<Rightarrow> bytes res" where
  "complexHandshakeCreateS2 rand p key =
     (let p = copy_at 0 (rand (length p)) p; gap = length p - 32
      in res_bind (complexHandshakeMakeDigest key p (int gap)) (\<lambda>digest.
         Ok (copy_at gap digest p)))"

section \<open>Keys\<close>

definition ascii :: "string \<Rightarrow> bytes" where
  "ascii s = map of_char s"

definition key_tail :: bytes where
  "key_tail =
    [0xF0, 0xEE, 0xC2, 0x4A, 0x80, 0x68, 0xBE, 0xE8, 0x2E, 0x00, 0xD0, 0xD1,
     0x02, 0x9E, 0x7E, 0x57, 0x6E, 0xEC, 0x5D, 0x2D, 0x29, 0x80, 0x6F, 0xAB,
     0x93, 0xB8, 0xE6, 0x36, 0xCF, 0xEB, 0x31, 0xAE]"

definition hsClientFullKey :: bytes where
  "hsClientFullKey = ascii ''Genuine Adobe Flash Player 001'' @ key_tail"

definition hsServerFullKey :: bytes where
  "hsServerFullKey = ascii ''Genuine Adobe Flash Media Server 001'' @ key_tail"

definition hsClientPartialKey :: bytes where "hsClientPartialKey = take 30 hsClientFullKey"

definition hsServerPartialKey :: bytes where "hsServerPartialKey = take 36 hsServerFullKey"

section \<open>The exchange\<close>

record hs_conn =
  hs_in :: bytes
  hs_end :: error
  hs_out :: bytes

text \<open>\<open>io.ReadFull\<close>, and a write that the network takes or refuses after some bytes.\<close>

definition hs_read :: "nat \<Rightarrow> (hs_conn, bytes) go" where
  "hs_read n s =
     (if n \<le> length (hs_in s) then (Ok (take n (hs_in s)), s\<lparr>hs_in := drop n (hs_in s)\<rparr>)
      else (Err (if hs_end s = ErrEOF \<and> hs_in s \<noteq> [] then ErrUnexpectedEOF else hs_end s), s\<lparr>hs_in := []\<rparr>))"

definition hs_write :: "(nat \<times> error) option \<Rightarrow> bytes \<Rightarrow> (hs_conn, unit) go" where
  "hs_write fault p s =
     (case fault of
        None \<Rightarrow> (Ok (), s\<lparr>hs_out := hs_out s @ p\<rparr>)
      | Some (k, e) \<Rightarrow> (Err e, s\<lparr>hs_out := hs_out s @ take k p\<rparr>))"

text \<open>S0, S1 and S2 for a C1. In the simple mode \<open>c2\<close> is still the zeroes of the fresh array.\<close>

definition make_s0s1s2 :: "(nat \<Rightarrow> nat \<Rightarrow> bytes) \<Rightarrow> bytes \<Rightarrow> (hs_conn, bytes) go" where
  "make_s0s1s2 rand c1 =
     (let cliTime = BytesAsUint32 (take 4 c1) True;
          cliVer = BytesAsUint32 (take 4 (drop 4 c1)) True;
          s0s1 = 3 # replicate 1536 0; s2 = replicate 1536 0; c2 = replicate 1536 0
      in if cliVer \<noteq> 0 then
           go_bind (go_lift (complexHandshakeParseC1 c1 hsClientPartialKey hsServerFullKey)) (\<lambda>(ok, digest).
           if \<not> ok then go_fail (ErrNew ''rtmp: handshake server: C1 invalid'')
           else
             go_bind (go_lift (complexHandshakeCreateS0S1 (rand 0) s0s1 cliTime 0x0d0e0a0d hsServerPartialKey)) (\<lambda>s0s1.
             go_bind (go_lift (complexHandshakeCreateS2 (rand 1) s2 digest)) (\<lambda>s2.
             go_return (s0s1 @ s2))))
         else go_return (copy_at 1 c2 s0s1 @ copy_at 0 c1 s2))"

definition serverHandshke ::
  "(nat \<Rightarrow> nat \<Rightarrow> bytes) \<Rightarrow> (nat \<times> error) option \<Rightarrow> (hs_conn, unit) go" where
  "serverHandshke rand fault =
     go_bind (go_wrap ''read c0c1'' (hs_read 1537)) (\<lambda>c0c1.
     if hd c0c1 \<noteq> 3 then go_fail (ErrNew ''rtmp: handshake version invalid'')
     else
       go_bind (make_s0s1s2 rand (drop 1 c0c1)) (\<lambda>s0s1s2.
       go_bind (go_wrap ''write s0s1s2'' (hs_write fault s0s1s2)) (\<lambda>_.
       go_bind (go_wrap ''read c2'' (hs_read 1536)) (\<lambda>_.
       go_return ()))))"

text \<open>
  \<open>timeout\<close> is \<open>Some progress\<close> when the timer fires before the handshake's result is there; what the
  handshake's goroutine has read and written by then is \<open>progress\<close>.
\<close>

definition WithClient ::
  "(hs_conn \<Rightarrow> hs_conn) option \<Rightarrow> (nat \<Rightarrow> nat \<Rightarrow> bytes) \<Rightarrow> (nat \<times> error) option \<Rightarrow> (hs_conn, unit) go" where
  "WithClient timeout rand fault s =
     (case timeout of
        Some progress \<Rightarrow> (Err (ErrNew ''handshake timeout''), progress s)
      | None \<Rightarrow> serverHandshke rand fault s)"

section \<open>The contract of a digest block\<close>

definition put_digest :: "nat \<Rightarrow> bytes \<Rightarrow> bytes \<Rightarrow> bytes" where
  "put_digest g d p = take g p @ d @ drop (g + 32) p"

definition cut_digest :: "nat \<Rightarrow> bytes \<Rightarrow> bytes" where
  "cut_digest g p = take g p @ drop (g + 32) p"

definition sign_block :: "(bytes \<Rightarrow> nat) \<Rightarrow> (bytes \<Rightarrow> bytes) \<Rightarrow> bytes \<Rightarrow> bytes" where
  "sign_block pos mac p = put_digest (pos p) (mac (cut_digest (pos p) p)) p"

definition check_block :: "(bytes \<Rightarrow> nat) \<Rightarrow> (bytes \<Rightarrow> bytes) \<Rightarrow> bytes \<Rightarrow> bool" where
  "check_block pos mac p \<longleftrightarrow> take 32 (drop (pos p) p) = mac (cut_digest (pos p) p)"

text \<open>
  A position that leaves room for the digest and does not depend on it, and a digest of 32 bytes: then
  a block that was signed is accepted, and signing it again changes nothing.
\<close>

locale digest_scheme =
  fixes n :: nat and pos :: "bytes \<Rightarrow> nat" and mac :: "bytes \<Rightarrow> bytes"
  assumes pos_bound: "length p = n \<Longrightarrow> pos p + 32 \<le> n"
    and pos_stable: "length p = n \<Longrightarrow> length d = 32 \<Longrightarrow> pos (put_digest (pos p) d p) = pos p"
    and mac_length: "length (mac x) = 32"
begin

lemma length_sign: "length p = n \<Longrightarrow> length (sign_block pos mac p) = n"
  using pos_bound [of p] by (simp add: sign_block_def put_digest_def mac_length)

lemma pos_sign: "length p = n \<Longrightarrow> pos (sign_block pos mac p) = pos p"
  by (simp add: sign_block_def pos_stable mac_length)

lemma sign_digest:
  assumes "length p = n"
  shows "take 32 (drop (pos p) (sign_block pos mac p)) = mac (cut_digest (pos p) p)"
    "cut_digest (pos p) (sign_block pos mac p) = cut_digest (pos p) p"
  using pos_bound [OF assms] assms
  by (simp_all add: sign_block_def put_digest_def cut_digest_def mac_length)

lemma check_sign: "length p = n \<Longrightarrow> check_block pos mac (sign_block pos mac p)"
  by (simp add: check_block_def pos_sign sign_digest)

lemma sign_sign: "length p = n \<Longrightarrow> sign_block pos mac (sign_block pos mac p) = sign_block pos mac p"
  using pos_bound [of p]
  by (simp add: sign_block_def [of pos mac "sign_block pos mac p"] pos_sign sign_digest)
    (simp add: sign_block_def put_digest_def mac_length)

text \<open>Signing keeps the bytes before the digest.\<close>

lemma sign_prefix: "length p = n \<Longrightarrow> k \<le> pos p \<Longrightarrow> take k (sign_block pos mac p) = take k p"
  using pos_bound [of p] by (simp add: sign_block_def put_digest_def min_def)

end

text \<open>The position the code computes, with its four bytes at 8 or at 772.\<close>

definition digest_pos :: "nat \<Rightarrow> bytes \<Rightarrow> nat" where
  "digest_pos base p = sum_list (map (\<lambda>i. unat (p ! (base + i))) [0..<4]) mod 728 + base + 4"

lemma digest_pos_bounds: "base + 4 \<le> digest_pos base p" "digest_pos base p < base + 732"
  by (simp_all add: digest_pos_def)

lemma digest_pos_cong: "take (base + 4) p = take (base + 4) q \<Longrightarrow> digest_pos base p = digest_pos base q"
proof -
  assume "take (base + 4) p = take (base + 4) q"
  then have "p ! (base + i) = q ! (base + i)" if "i < 4" for i
    using that nth_take [of "base + i" "base + 4" p] nth_take [of "base + i" "base + 4" q] by simp
  then have "map (\<lambda>i. unat (p ! (base + i))) [0..<4] = map (\<lambda>i. unat (q ! (base + i))) [0..<4]"
    by simp
  then show ?thesis unfolding digest_pos_def by (rule arg_cong)
qed

lemma digest_pos_stable:
  "length p = 1536 \<Longrightarrow> base \<le> 772 \<Longrightarrow> digest_pos base (put_digest (digest_pos base p) d p) = digest_pos base p"
  using digest_pos_bounds [of base p]
  by (intro digest_pos_cong) (simp add: put_digest_def min_def)

lemma digest_pos_room: "base \<le> 772 \<Longrightarrow> digest_pos base p + 32 \<le> 1536"
  using digest_pos_bounds(2) [of base p] by linarith

interpretation near: digest_scheme 1536 "digest_pos 8" "hmac_sha256 key" for key
  by unfold_locales (simp_all add: digest_pos_stable digest_pos_room)

interpretation far: digest_scheme 1536 "digest_pos 772" "hmac_sha256 key" for key
  by unfold_locales (simp_all add: digest_pos_stable digest_pos_room)

section \<open>The code against the contract\<close>

lemma CalcDigestPos_ok:
  "length p = 1536 \<Longrightarrow> base \<le> 772 \<Longrightarrow> complexHandshakeCalcDigestPos p base = Ok (digest_pos base p)"
  by (simp add: complexHandshakeCalcDigestPos_def digest_pos_def)

lemma MakeDigest_gap:
  "0 < g \<Longrightarrow> g + 32 \<le> length p \<Longrightarrow>
    complexHandshakeMakeDigest key p (int g) = Ok (hmac_sha256 key (cut_digest g p))"
  by (simp add: complexHandshakeMakeDigest_def cut_digest_def)

lemma FindDigest_ok:
  assumes "length p = 1536" "base \<le> 772"
  shows "complexHandshakeFindDigest p key base =
    Ok (if check_block (digest_pos base) (hmac_sha256 key) p then int (digest_pos base p) else - 1)"
proof -
  have g: "0 < digest_pos base p" "digest_pos base p + 32 \<le> length p"
    using digest_pos_bounds(1) [of base p] digest_pos_room [OF assms(2), of p] assms(1) by simp_all
  from MakeDigest_gap [OF g] g(2) assms show ?thesis
    by (simp add: complexHandshakeFindDigest_def CalcDigestPos_ok check_block_def)
qed

text \<open>The digest of a C1, where it is accepted: the far position first.\<close>

definition c1_position :: "bytes \<Rightarrow> bytes \<Rightarrow> nat option" where
  "c1_position key p =
     (if check_block (digest_pos 772) (hmac_sha256 key) p then Some (digest_pos 772 p)
      else if check_block (digest_pos 8) (hmac_sha256 key) p then Some (digest_pos 8 p)
      else None)"

lemma ParseC1_ok:
  assumes "length p = 1536"
  shows "complexHandshakeParseC1 p peerkey key =
    Ok (case c1_position peerkey p of
          None \<Rightarrow> (False, [])
        | Some g \<Rightarrow> (True, hmac_sha256 key (take 32 (drop g p))))"
  using assms
  by (simp add: complexHandshakeParseC1_def FindDigest_ok c1_position_def complexHandshakeMakeDigest_def)

lemma length_copy_at [simp]: "lo \<le> length dst \<Longrightarrow> length (copy_at lo src dst) = length dst"
  by (simp add: copy_at_def)

lemma copy_at_digest:
  "length d = 32 \<Longrightarrow> g + 32 \<le> length p \<Longrightarrow> copy_at g d p = put_digest g d p"
  by (simp add: copy_at_def put_digest_def)

text \<open>S1 before it is signed: time, version, and bytes of the random generator.\<close>

definition s1_body :: "(nat \<Rightarrow> bytes) \<Rightarrow> u32 \<Rightarrow> u32 \<Rightarrow> bytes \<Rightarrow> bytes" where
  "s1_body rand time ver p =
     copy_at 4 (be_bytes 4 ver) (copy_at 0 (be_bytes 4 time) (copy_at 8 (rand (length p - 8)) p))"

lemma length_s1_body [simp]: "8 \<le> length p \<Longrightarrow> length (s1_body rand time ver p) = length p"
  by (simp add: s1_body_def)

lemma s1_body_head: "8 \<le> length p \<Longrightarrow> take 8 (s1_body rand time ver p) = be_bytes 4 time @ be_bytes 4 ver"
  by (simp add: s1_body_def copy_at_def)

lemma CreateS0S1_ok:
  assumes "length p = 1537"
  shows "complexHandshakeCreateS0S1 rand p time ver key =
    Ok (take 1 p @ sign_block (digest_pos 8) (hmac_sha256 key) (s1_body rand time ver (drop 1 p)))"
proof -
  let ?b = "s1_body rand time ver (drop 1 p)"
  have len: "length ?b = 1536" using assms by simp
  have b: "copy_at 4 (UintAsBytes ver (take 4 (drop 4 (copy_at 0 (UintAsBytes time
      (take 4 (copy_at 8 (rand (length (drop 1 p) - 8)) (drop 1 p))) True)
      (copy_at 8 (rand (length (drop 1 p) - 8)) (drop 1 p))))) True)
      (copy_at 0 (UintAsBytes time (take 4 (copy_at 8 (rand (length (drop 1 p) - 8)) (drop 1 p))) True)
        (copy_at 8 (rand (length (drop 1 p) - 8)) (drop 1 p))) = ?b"
    using assms by (simp add: s1_body_def)
  have g: "0 < digest_pos 8 ?b" "digest_pos 8 ?b + 32 \<le> length ?b"
    using digest_pos_bounds(1) [of 8 ?b] digest_pos_room [of 8 ?b] len by simp_all
  show ?thesis
    unfolding complexHandshakeCreateS0S1_def Let_def b
    using MakeDigest_gap [OF g] g len
    by (simp add: CalcDigestPos_ok copy_at_digest sign_block_def)
qed

text \<open>S2 is random bytes with the digest of the first 1504 at the end.\<close>

definition s2_signed :: "bytes \<Rightarrow> bytes \<Rightarrow> bool" where
  "s2_signed key s2 \<longleftrightarrow> length s2 = 1536 \<and> drop 1504 s2 = hmac_sha256 key (take 1504 s2)"

lemma CreateS2_ok:
  assumes "length p = 1536"
  shows "\<exists>s2. complexHandshakeCreateS2 rand p key = Ok s2 \<and> s2_signed key s2"
proof -
  let ?p = "copy_at 0 (rand (length p)) p"
  have len: "length ?p = 1536" using assms by simp
  have "complexHandshakeMakeDigest key ?p (int (length ?p - 32)) = Ok (hmac_sha256 key (cut_digest (length ?p - 32) ?p))"
    using len by (intro MakeDigest_gap) simp_all
  then have "complexHandshakeCreateS2 rand p key = Ok (copy_at 1504 (hmac_sha256 key (take 1504 ?p)) ?p)"
    using len by (simp add: complexHandshakeCreateS2_def Let_def cut_digest_def)
  moreover have "s2_signed key (copy_at 1504 (hmac_sha256 key (take 1504 ?p)) ?p)"
    using len by (simp add: s2_signed_def copy_at_def [of 1504])
  ultimately show ?thesis by blast
qed

section \<open>The exchange\<close>

definition c1_version :: "bytes \<Rightarrow> u32" where
  "c1_version c1 = BytesAsUint32 (take 4 (drop 4 c1)) True"

text \<open>What a client can check of the answer to its C1, whose digest is at \<open>g\<close>.\<close>

definition good_reply :: "bytes \<Rightarrow> nat \<Rightarrow> bytes \<Rightarrow> bool" where
  "good_reply c1 g reply \<longleftrightarrow> (\<exists>s1 s2. reply = 3 # s1 @ s2 \<and> length s1 = 1536
     \<and> check_block (digest_pos 8) (hmac_sha256 hsServerPartialKey) s1 \<and> take 4 s1 = take 4 c1
     \<and> s2_signed (hmac_sha256 hsServerFullKey (take 32 (drop g c1))) s2)"

lemma make_reply:
  assumes len: "length c1 = 1536"
  shows "c1_version c1 = 0 \<Longrightarrow> make_s0s1s2 rand c1 s = (Ok (3 # replicate 1536 0 @ c1), s)"
    "c1_version c1 \<noteq> 0 \<Longrightarrow> c1_position hsClientPartialKey c1 = None \<Longrightarrow>
      make_s0s1s2 rand c1 s = (Err (ErrNew ''rtmp: handshake server: C1 invalid''), s)"
    "c1_version c1 \<noteq> 0 \<Longrightarrow> c1_position hsClientPartialKey c1 = Some g \<Longrightarrow>
      \<exists>reply. make_s0s1s2 rand c1 s = (Ok reply, s) \<and> good_reply c1 g reply"
proof -
  show "c1_version c1 = 0 \<Longrightarrow> make_s0s1s2 rand c1 s = (Ok (3 # replicate 1536 0 @ c1), s)"
    using len by (simp add: make_s0s1s2_def c1_version_def Let_def go_return_def copy_at_def)
  show "c1_version c1 \<noteq> 0 \<Longrightarrow> c1_position hsClientPartialKey c1 = None \<Longrightarrow>
      make_s0s1s2 rand c1 s = (Err (ErrNew ''rtmp: handshake server: C1 invalid''), s)"
    by (simp add: make_s0s1s2_def c1_version_def Let_def ParseC1_ok [OF len] go_fail_def)
  assume v: "c1_version c1 \<noteq> 0" and g: "c1_position hsClientPartialKey c1 = Some g"
  let ?time = "BytesAsUint32 (take 4 c1) True"
  let ?b = "s1_body (rand 0) ?time 0x0d0e0a0d (replicate 1536 0)"
  let ?s1 = "sign_block (digest_pos 8) (hmac_sha256 hsServerPartialKey) ?b"
  have b: "length ?b = 1536" by simp
  obtain s2 where s2: "complexHandshakeCreateS2 (rand 1) (replicate 1536 0)
      (hmac_sha256 hsServerFullKey (take 32 (drop g c1))) = Ok s2"
    "s2_signed (hmac_sha256 hsServerFullKey (take 32 (drop g c1))) s2"
    using CreateS2_ok [of "replicate 1536 0"] by auto
  have "complexHandshakeCreateS0S1 (rand 0) (3 # replicate 1536 0) ?time 0x0d0e0a0d hsServerPartialKey
      = Ok (3 # ?s1)"
    using CreateS0S1_ok [of "3 # replicate 1536 0"] by simp
  with v s2(1) have "make_s0s1s2 rand c1 s = (Ok (3 # ?s1 @ s2), s)"
    by (simp add: make_s0s1s2_def c1_version_def Let_def ParseC1_ok [OF len] g go_return_def)
  moreover have "take 4 ?s1 = take 4 c1"
  proof -
    have "take 4 ?s1 = take 4 ?b" by (rule near.sign_prefix [OF b]) (simp add: digest_pos_def)
    also have "\<dots> = take 4 (take 8 ?b)" by simp
    also have "\<dots> = be_bytes 4 ?time" by (simp only: s1_body_head length_replicate) simp
    also have "\<dots> = take 4 c1"
      using UintAsBytes_BytesAsUint32 [of "take 4 c1" "take 4 c1" True] len by simp
    finally show ?thesis .
  qed
  ultimately show "\<exists>reply. make_s0s1s2 rand c1 s = (Ok reply, s) \<and> good_reply c1 g reply"
    using s2(2) near.check_sign [OF b] near.length_sign [OF b] unfolding good_reply_def by blast
qed

lemma make_reply_cases:
  assumes "length c1 = 1536"
  obtains r where "make_s0s1s2 rand c1 s = (r, s)" "\<And>p. r \<noteq> Panic p"
  using make_reply [OF assms, where rand = rand and s = s]
  by (cases "c1_version c1 = 0"; cases "c1_position hsClientPartialKey c1") force+

lemma serverHandshke_start:
  assumes "hs_in s = 3 # c1 @ rest" "length c1 = 1536"
  shows "serverHandshke rand fault s =
    go_bind (make_s0s1s2 rand c1) (\<lambda>s0s1s2.
      go_bind (go_wrap ''write s0s1s2'' (hs_write fault s0s1s2)) (\<lambda>_.
      go_bind (go_wrap ''read c2'' (hs_read 1536)) (\<lambda>_. go_return ()))) (s\<lparr>hs_in := rest\<rparr>)"
  using assms by (simp add: serverHandshke_def go_bind_def go_wrap_def hs_read_def)

section \<open>A C1 without a digest\<close>

text \<open>
  A C1 of ones, with the byte \<open>a\<close> throughout the near digest and \<open>b\<close> throughout the far one. Each digest
  depends on the other byte only, so some choice of three bytes is right at neither place.
\<close>

definition plain_c1 :: "u8 \<Rightarrow> u8 \<Rightarrow> bytes" where
  "plain_c1 a b = replicate 16 1 @ replicate 32 a @ replicate 732 1 @ replicate 32 b @ replicate 724 1"

lemma digest_pos_ones: "(\<And>i. i < 4 \<Longrightarrow> p ! (base + i) = 1) \<Longrightarrow> digest_pos base p = base + 8"
proof -
  assume "\<And>i. i < 4 \<Longrightarrow> p ! (base + i) = 1"
  then have e: "map (\<lambda>i. unat (p ! (base + i))) [0..<4] = map (\<lambda>i. 1) [0..<4]" by simp
  have "sum_list (map (\<lambda>i. unat (p ! (base + i))) [0..<4]) = 4" unfolding e by (simp add: upt_rec)
  then show ?thesis unfolding digest_pos_def by (simp only:) simp
qed

lemma plain_c1_checks:
  "length (plain_c1 a b) = 1536"
  "check_block (digest_pos 8) h (plain_c1 a b) \<longleftrightarrow>
    replicate 32 a = h (replicate 16 1 @ replicate 732 1 @ replicate 32 b @ replicate 724 1)"
  "check_block (digest_pos 772) h (plain_c1 a b) \<longleftrightarrow>
    replicate 32 b = h (replicate 16 1 @ replicate 32 a @ replicate 732 1 @ replicate 724 1)"
proof -
  obtain i j k :: nat where n: "i = 16" "j = 732" "k = 724" by simp
  let ?c = "replicate i 1 @ replicate 32 a @ replicate j 1 @ replicate 32 b @ replicate k 1"
  have c: "plain_c1 a b = ?c" by (simp only: plain_c1_def n)
  show "length (plain_c1 a b) = 1536" unfolding c by (simp add: n)
  have "digest_pos 8 ?c = 8 + 8" by (rule digest_pos_ones) (simp add: nth_append n)
  then show "check_block (digest_pos 8) h (plain_c1 a b) \<longleftrightarrow>
      replicate 32 a = h (replicate 16 1 @ replicate 732 1 @ replicate 32 b @ replicate 724 1)"
    unfolding c n [symmetric] by (simp add: check_block_def cut_digest_def n(1))
  have "digest_pos 772 ?c = 772 + 8" by (rule digest_pos_ones) (simp add: nth_append n)
  then show "check_block (digest_pos 772) h (plain_c1 a b) \<longleftrightarrow>
      replicate 32 b = h (replicate 16 1 @ replicate 32 a @ replicate 732 1 @ replicate 724 1)"
    unfolding c n [symmetric] by (simp add: check_block_def cut_digest_def n(1,2))
qed

lemma plain_c1_refused: "\<exists>a b. c1_position key (plain_c1 a b) = None"
proof -
  define near where "near a b \<longleftrightarrow> check_block (digest_pos 8) (hmac_sha256 key) (plain_c1 a b)" for a b
  define far where "far a b \<longleftrightarrow> check_block (digest_pos 772) (hmac_sha256 key) (plain_c1 a b)" for a b
  have ne: "replicate 32 (x :: u8) = replicate 32 y \<longleftrightarrow> x = y" for x y by (simp only: replicate_eq_replicate) simp
  have two: "x = y" if "near x b" "near y b" for x y b
    using that unfolding near_def plain_c1_checks ne [symmetric] by (rule trans [OF _ sym])
  have three: "x = y" if "far a x" "far a y" for x y a
    using that unfolding far_def plain_c1_checks ne [symmetric] by (rule trans [OF _ sym])
  have n: "(0 :: u8) \<noteq> 1" "(0 :: u8) \<noteq> 2" "(1 :: u8) \<noteq> 2" by simp_all
  have near: "\<not> (near 0 b \<and> near 1 b)" for b using two n(1) by blast
  have far: "\<not> (far a 0 \<and> far a 1)" "\<not> (far a 0 \<and> far a 2)" "\<not> (far a 1 \<and> far a 2)" for a
    using three n by blast+
  have "\<exists>b \<in> {0, 1, 2}. \<not> far 0 b \<and> \<not> far 1 b" using far [of 0] far [of 1] by auto
  then obtain b where "\<not> far 0 b" "\<not> far 1 b" by blast
  with near [of b] have "\<exists>a b. \<not> near a b \<and> \<not> far a b" by blast
  then show ?thesis by (auto simp: c1_position_def near_def far_def)
qed

lemma plain_c1_version: "c1_version (plain_c1 a b) \<noteq> 0"
proof -
  have "take 4 (drop 4 (plain_c1 a b)) = [1, 1, 1, 1]" by (simp add: plain_c1_def numeral_eq_Suc)
  then show ?thesis by (simp add: c1_version_def BytesAsUint32_def BytesAsUint32_step_def upt_rec)
qed

section \<open>Properties\<close>

text \<open>C30: the handshake never panics. Whatever the client sends, whatever the random generator returns and
  however the write ends, \<open>serverHandshke\<close> stays within the bounds of its arrays: it returns or fails.\<close>

theorem handshake_no_panic:
  "fst (serverHandshke rand fault s) \<noteq> Panic p"
proof (cases "length (hs_in s) < 1537 \<or> hd (take 1537 (hs_in s)) \<noteq> 3")
  case True
  then show ?thesis
    by (auto simp: serverHandshke_def go_bind_def go_wrap_def hs_read_def go_fail_def split: res.splits)
next
  case False
  define c1 where "c1 = take 1536 (tl (hs_in s))"
  have "length c1 = 1536" using False by (auto simp: c1_def min_def)
  moreover have "hs_in s = 3 # c1 @ drop 1536 (tl (hs_in s))"
    using False by (cases "hs_in s") (simp_all add: c1_def)
  ultimately have st: "serverHandshke rand fault s =
    go_bind (make_s0s1s2 rand c1) (\<lambda>s0s1s2.
      go_bind (go_wrap ''write s0s1s2'' (hs_write fault s0s1s2)) (\<lambda>_.
      go_bind (go_wrap ''read c2'' (hs_read 1536)) (\<lambda>_. go_return ()))) (s\<lparr>hs_in := drop 1536 (tl (hs_in s))\<rparr>)"
    and len: "length c1 = 1536"
    using serverHandshke_start by blast+
  obtain r where "make_s0s1s2 rand c1 (s\<lparr>hs_in := drop 1536 (tl (hs_in s))\<rparr>)
      = (r, s\<lparr>hs_in := drop 1536 (tl (hs_in s))\<rparr>)" "\<And>p. r \<noteq> Panic p"
    using make_reply_cases [OF len] by blast
  then show ?thesis unfolding st
    by (cases r) (auto simp: go_bind_def go_wrap_def hs_write_def hs_read_def go_return_def split: option.splits)
qed

text \<open>C12: the digest handshake. A client that sends version 3 and a C1 signed with the client key, with its
  digest at either place and a version other than zero, then any C2, completes the handshake; the
  server's bytes are 3, an S1 whose digest the client can check and which repeats C1's time, and an S2
  signed with the key derived from the digest of C1.\<close>

theorem digest_handshake:
  assumes "base = 8 \<or> base = 772" "length p = 1536" "take 4 (drop 4 p) \<noteq> [0, 0, 0, 0]" "length c2 = 1536"
    "hs_in s = 3 # sign_block (digest_pos base) (hmac_sha256 hsClientPartialKey) p @ c2"
  shows "\<exists>t reply g. serverHandshke rand None s = (Ok (), t) \<and> hs_out t = hs_out s @ reply \<and> hs_in t = []
    \<and> c1_position hsClientPartialKey (sign_block (digest_pos base) (hmac_sha256 hsClientPartialKey) p) = Some g
    \<and> good_reply (sign_block (digest_pos base) (hmac_sha256 hsClientPartialKey) p) g reply"
proof -
  let ?c1 = "sign_block (digest_pos base) (hmac_sha256 hsClientPartialKey) p"
  have len: "length ?c1 = 1536" using assms(1,2) near.length_sign far.length_sign by blast
  have "check_block (digest_pos base) (hmac_sha256 hsClientPartialKey) ?c1"
    using assms(1,2) near.check_sign far.check_sign by blast
  then have "c1_position hsClientPartialKey ?c1 \<noteq> None"
    using assms(1) by (auto simp: c1_position_def)
  then obtain g where g: "c1_position hsClientPartialKey ?c1 = Some g" by blast
  have "8 \<le> digest_pos base p" using assms(1) by (auto simp: digest_pos_def)
  then have "take 8 ?c1 = take 8 p" using assms(1,2) near.sign_prefix far.sign_prefix by blast
  then have t4: "take 4 (drop 4 ?c1) = take 4 (drop 4 p)"
    using take_drop [of 4 4 ?c1] take_drop [of 4 4 p] by simp
  have v: "c1_version ?c1 \<noteq> 0"
  proof
    assume "c1_version ?c1 = 0"
    then have "take 4 (drop 4 p) = be_bytes 4 0"
      using UintAsBytes_BytesAsUint32 [of "take 4 (drop 4 p)" "take 4 (drop 4 p)" True] assms(2) t4
      by (simp add: c1_version_def)
    moreover have "be_bytes 4 0 = [0, 0, 0, 0]" by (simp add: be_bytes_def be_byte_def upt_rec)
    ultimately show False using assms(3) by simp
  qed
  obtain reply where r: "make_s0s1s2 rand ?c1 (s\<lparr>hs_in := c2\<rparr>) = (Ok reply, s\<lparr>hs_in := c2\<rparr>)"
    "good_reply ?c1 g reply"
    using make_reply(3) [OF len v g] by blast
  have "serverHandshke rand None s = (Ok (), s\<lparr>hs_in := [], hs_out := hs_out s @ reply\<rparr>)"
    unfolding serverHandshke_start [OF assms(5) len] using r(1) assms(4)
    by (simp add: go_bind_def go_wrap_def hs_write_def hs_read_def go_return_def)
  with r(2) g show ?thesis by auto
qed

theorem digest_handshake_witness:
  "let p = replicate 1536 1; c1 = sign_block (digest_pos 772) (hmac_sha256 hsClientPartialKey) p;
       s = \<lparr>hs_in = 3 # c1 @ replicate 1536 0, hs_end = ErrEOF, hs_out = []\<rparr>
   in \<exists>t reply g. serverHandshke (\<lambda>_ n. replicate n 7) None s = (Ok (), t) \<and> hs_out t = reply
    \<and> c1_position hsClientPartialKey c1 = Some g \<and> good_reply c1 g reply"
proof -
  have "replicate 4 (1 :: u8) \<noteq> [0, 0, 0, 0]" by (simp add: numeral_eq_Suc)
  then show ?thesis
  using digest_handshake [of 772 "replicate 1536 1" "replicate 1536 0" "\<lparr>hs_in = 3 #
      sign_block (digest_pos 772) (hmac_sha256 hsClientPartialKey) (replicate 1536 1) @ replicate 1536 0,
      hs_end = ErrEOF, hs_out = []\<rparr>" "\<lambda>_ n. replicate n 7"]
  unfolding Let_def by auto
qed

text \<open>C39: the plain handshake answers with an S1 of zeroes. For a C1 without a version the server sends 3,
  1536 zero bytes (it copies C2, which it has not read yet) and C1 itself.\<close>

theorem plain_handshake:
  assumes "length c1 = 1536" "c1_version c1 = 0" "length c2 = 1536" "hs_in s = 3 # c1 @ c2"
  shows "\<exists>t. serverHandshke rand None s = (Ok (), t) \<and> hs_out t = hs_out s @ 3 # replicate 1536 0 @ c1"
  unfolding serverHandshke_start [OF assms(4,1)] using make_reply(1) [OF assms(1,2)] assms(3)
  by (simp add: go_bind_def go_wrap_def hs_write_def hs_read_def go_return_def)

theorem plain_handshake_witness:
  "let c1 = [0, 0, 0, 5, 0, 0, 0, 0] @ replicate 1528 9
   in \<exists>t. serverHandshke (\<lambda>_ n. replicate n 7) None \<lparr>hs_in = 3 # c1 @ replicate 1536 4, hs_end = ErrEOF, hs_out = []\<rparr>
      = (Ok (), t) \<and> hs_out t = 3 # replicate 1536 0 @ c1"
proof -
  let ?c1 = "[0, 0, 0, 5, 0, 0, 0, 0] @ replicate 1528 (9 :: u8)"
  have "c1_version ?c1 = 0"
    by (simp add: c1_version_def BytesAsUint32_def BytesAsUint32_step_def upt_rec)
  then show ?thesis
    using plain_handshake [of ?c1 "replicate 1536 4"
      "\<lparr>hs_in = 3 # ?c1 @ replicate 1536 4, hs_end = ErrEOF, hs_out = []\<rparr>" "\<lambda>_ n. replicate n 7"]
    unfolding Let_def by simp
qed

text \<open>C40: nothing is sent to a client that is refused. When the first byte is not 3, when C1 carries a
  version and no digest the server accepts, or when C0 and C1 do not arrive whole, the handshake fails and
  not a byte is written.\<close>

theorem refused_client_gets_nothing:
  assumes "length (hs_in s) < 1537 \<or> hd (hs_in s) \<noteq> 3
    \<or> (c1_version (take 1536 (tl (hs_in s))) \<noteq> 0
       \<and> c1_position hsClientPartialKey (take 1536 (tl (hs_in s))) = None)"
  shows "\<exists>e t. serverHandshke rand fault s = (Err e, t) \<and> hs_out t = hs_out s"
proof (cases "length (hs_in s) < 1537 \<or> hd (hs_in s) \<noteq> 3")
  case True
  then show ?thesis
    by (auto simp: serverHandshke_def go_bind_def go_wrap_def hs_read_def go_fail_def)
next
  case False
  define c1 where "c1 = take 1536 (tl (hs_in s))"
  have len: "length c1 = 1536" using False by (auto simp: c1_def min_def)
  have i: "hs_in s = 3 # c1 @ drop 1536 (tl (hs_in s))"
    using False by (cases "hs_in s") (simp_all add: c1_def)
  have "c1_version c1 \<noteq> 0" "c1_position hsClientPartialKey c1 = None"
    using False assms by (auto simp: c1_def)
  from make_reply(2) [OF len this] show ?thesis
    unfolding serverHandshke_start [OF i len] by (simp add: go_bind_def)
qed

theorem refused_client_gets_nothing_witness:
  "\<exists>c1 e t. length c1 = 1536 \<and> c1_version c1 \<noteq> 0 \<and> c1_position hsClientPartialKey c1 = None
    \<and> serverHandshke (\<lambda>_ n. replicate n 7) None \<lparr>hs_in = 3 # c1, hs_end = ErrEOF, hs_out = []\<rparr> = (Err e, t) \<and> hs_out t = []"
proof -
  obtain a b where c1: "c1_position hsClientPartialKey (plain_c1 a b) = None" using plain_c1_refused by blast
  have "\<exists>e t. serverHandshke (\<lambda>_ n. replicate n 7) None \<lparr>hs_in = 3 # plain_c1 a b, hs_end = ErrEOF, hs_out = []\<rparr> = (Err e, t)
      \<and> hs_out t = hs_out \<lparr>hs_in = 3 # plain_c1 a b, hs_end = ErrEOF, hs_out = []\<rparr>"
    by (rule refused_client_gets_nothing) (simp add: c1 plain_c1_version plain_c1_checks(1))
  then show ?thesis
    using c1 plain_c1_version [of a b] plain_c1_checks(1) [of a b] by (intro exI [of _ "plain_c1 a b"]) auto
qed

end
