(* ===== verification/Packet_Buffer.thy ===== *)
theory Packet_Buffer
  imports Av_Flv
begin

text \<open>
  The packet buffer of a player (\<open>buffPackets\<close>, \<open>closePacketBuffer\<close> in \<open>pkg/rtmp/server/player.go\<close>):
  a channel between the goroutines that call them, the publisher's and those that drop the player, and
  the player's own loop, which receives. Both functions run under \<open>bufferMutex\<close>; each goroutine is a
  program counter at the points where it can be interrupted.

  Goroutine 0 is the player's: it receives while it plays, and calls \<open>closePacketBuffer\<close> (through
  \<open>session.delPlayer\<close>) when its loop ends. A send on a closed channel and a second close are panics of
  Go; here they set \<open>crashed\<close>. \<open>sent\<close> and \<open>got\<close> record what went through the channel.
\<close>

section \<open>Goroutines at the buffer\<close>

datatype buf_op = BuffPacket av_packet | ClosePacketBuffer

datatype buf_pc =
    Playing                    \<comment> \<open>the player's loop\<close>
  | AtLock buf_op              \<comment> \<open>at \<open>p.bufferMutex.Lock()\<close>\<close>
  | Testing buf_op             \<comment> \<open>locked, at the test of \<open>bufferClosed\<close>\<close>
  | Sending av_packet          \<comment> \<open>at \<open>p.packetBuffer <- avPacket\<close>\<close>
  | AtClose                    \<comment> \<open>\<open>bufferClosed++\<close> done, at \<open>close(p.packetBuffer)\<close>\<close>
  | AtUnlock                   \<comment> \<open>at the deferred \<open>Unlock\<close>\<close>
  | Outside

record buf_state =
  pcs :: "nat \<Rightarrow> buf_pc"
  mutex :: "nat option"
  queue :: "av_packet list"
  chan_closed :: bool
  closedFlag :: u32
  crashed :: bool
  sent :: "av_packet list"
  got :: "av_packet list"

definition goto :: "nat \<Rightarrow> buf_pc \<Rightarrow> buf_state \<Rightarrow> buf_state" where
  "goto t pc s = s\<lparr>pcs := (pcs s)(t := pc)\<rparr>"

inductive buf_step :: "nat \<Rightarrow> buf_state \<Rightarrow> buf_state \<Rightarrow> bool" for cap where
  buf_call: "pcs s t = Outside \<Longrightarrow> t \<noteq> 0 \<Longrightarrow> buf_step cap s (goto t (AtLock oper) s)"
| buf_lock: "pcs s t = AtLock oper \<Longrightarrow> mutex s = None \<Longrightarrow>
    buf_step cap s ((goto t (Testing oper) s)\<lparr>mutex := Some t\<rparr>)"
| buf_closed: "pcs s t = Testing oper \<Longrightarrow> closedFlag s = 1 \<Longrightarrow> buf_step cap s (goto t AtUnlock s)"
| buf_open: "pcs s t = Testing (BuffPacket pkt) \<Longrightarrow> closedFlag s \<noteq> 1 \<Longrightarrow> buf_step cap s (goto t (Sending pkt) s)"
| buf_send: "pcs s t = Sending pkt \<Longrightarrow> \<not> chan_closed s \<Longrightarrow> length (queue s) < cap \<Longrightarrow>
    buf_step cap s ((goto t AtUnlock s)\<lparr>queue := queue s @ [pkt], sent := sent s @ [pkt]\<rparr>)"
| buf_send_panic: "pcs s t = Sending pkt \<Longrightarrow> chan_closed s \<Longrightarrow>
    buf_step cap s ((goto t AtUnlock s)\<lparr>crashed := True\<rparr>)"
| buf_mark: "pcs s t = Testing ClosePacketBuffer \<Longrightarrow> closedFlag s \<noteq> 1 \<Longrightarrow>
    buf_step cap s ((goto t AtClose s)\<lparr>closedFlag := closedFlag s + 1\<rparr>)"
| buf_close: "pcs s t = AtClose \<Longrightarrow> \<not> chan_closed s \<Longrightarrow>
    buf_step cap s ((goto t AtUnlock s)\<lparr>chan_closed := True\<rparr>)"
| buf_close_panic: "pcs s t = AtClose \<Longrightarrow> chan_closed s \<Longrightarrow>
    buf_step cap s ((goto t AtUnlock s)\<lparr>crashed := True\<rparr>)"
| buf_unlock: "pcs s t = AtUnlock \<Longrightarrow> buf_step cap s ((goto t Outside s)\<lparr>mutex := None\<rparr>)"
| buf_recv: "pcs s 0 = Playing \<Longrightarrow> queue s = pkt # rest \<Longrightarrow>
    buf_step cap s (s\<lparr>queue := rest, got := got s @ [pkt]\<rparr>)"
| buf_leave: "pcs s 0 = Playing \<Longrightarrow> buf_step cap s (goto 0 (AtLock ClosePacketBuffer) s)"

inductive_cases buf_stepE: "buf_step cap s t"

definition buf_start :: buf_state where
  "buf_start = \<lparr>pcs = (\<lambda>t. if t = 0 then Playing else Outside), mutex = None, queue = [],
     chan_closed = False, closedFlag = 0, crashed = False, sent = [], got = []\<rparr>"

section \<open>The invariant\<close>

fun holds :: "buf_pc \<Rightarrow> bool" where
  "holds (Testing oper) = True"
| "holds (Sending pkt) = True"
| "holds AtClose = True"
| "holds AtUnlock = True"
| "holds pc = False"

text \<open>The program counter of the goroutine that holds the mutex.\<close>

definition holder :: "buf_state \<Rightarrow> buf_pc" where
  "holder s = (case mutex s of None \<Rightarrow> Outside | Some t \<Rightarrow> pcs s t)"

definition buf_inv :: "nat \<Rightarrow> buf_state \<Rightarrow> bool" where
  "buf_inv cap s \<longleftrightarrow> \<not> crashed s \<and> length (queue s) \<le> cap \<and> sent s = got s @ queue s
     \<and> (\<forall>t. holds (pcs s t) \<longleftrightarrow> mutex s = Some t)
     \<and> closedFlag s = (if chan_closed s \<or> holder s = AtClose then 1 else 0)
     \<and> (chan_closed s \<longrightarrow> holder s \<noteq> AtClose \<and> (\<forall>pkt. holder s \<noteq> Sending pkt))"

lemma buf_inv_start: "buf_inv cap buf_start"
  by (auto simp: buf_inv_def buf_start_def holder_def)

lemma buf_inv_step:
  assumes step: "buf_step cap s s1" and inv: "buf_inv cap s"
  shows "buf_inv cap s1"
proof -
  have h: "mutex s = Some t \<longleftrightarrow> holds (pcs s t)" for t using inv by (simp add: buf_inv_def)
  show ?thesis
    using step
  proof cases
    case (buf_call t oper)
    then have "mutex s \<noteq> Some t" by (simp add: h)
    with buf_call inv show ?thesis by (auto simp: buf_inv_def goto_def holder_def split: option.splits)
  next
    case (buf_lock t oper)
    with inv show ?thesis by (auto simp: buf_inv_def goto_def holder_def split: option.splits)
  next
    case (buf_closed t oper)
    then have "mutex s = Some t" by (simp add: h)
    with buf_closed inv show ?thesis by (auto simp: buf_inv_def goto_def holder_def split: if_splits)
  next
    case (buf_open t pkt)
    then have "mutex s = Some t" by (simp add: h)
    with buf_open inv show ?thesis by (auto simp: buf_inv_def goto_def holder_def split: if_splits)
  next
    case (buf_send t pkt)
    then have "mutex s = Some t" by (simp add: h)
    with buf_send inv show ?thesis by (auto simp: buf_inv_def goto_def holder_def split: if_splits)
  next
    case (buf_send_panic t pkt)
    then have "mutex s = Some t" by (simp add: h)
    with buf_send_panic inv show ?thesis by (auto simp: buf_inv_def holder_def)
  next
    case (buf_mark t)
    then have "mutex s = Some t" by (simp add: h)
    with buf_mark inv show ?thesis by (auto simp: buf_inv_def goto_def holder_def split: if_splits)
  next
    case (buf_close t)
    then have "mutex s = Some t" by (simp add: h)
    with buf_close inv show ?thesis by (auto simp: buf_inv_def goto_def holder_def split: if_splits)
  next
    case (buf_close_panic t)
    then have "mutex s = Some t" by (simp add: h)
    with buf_close_panic inv show ?thesis by (auto simp: buf_inv_def holder_def)
  next
    case (buf_unlock t)
    then have "mutex s = Some t" by (simp add: h)
    with buf_unlock inv show ?thesis by (auto simp: buf_inv_def goto_def holder_def split: if_splits)
  next
    case (buf_recv pkt rest)
    with inv show ?thesis by (auto simp: buf_inv_def holder_def split: option.splits)
  next
    case buf_leave
    then have "mutex s \<noteq> Some 0" by (simp add: h)
    with buf_leave inv show ?thesis by (auto simp: buf_inv_def goto_def holder_def split: option.splits)
  qed
qed

lemma buf_inv_reachable: "(buf_step cap)\<^sup>*\<^sup>* buf_start s \<Longrightarrow> buf_inv cap s"
  by (induction rule: rtranclp_induct) (auto intro: buf_inv_start buf_inv_step)

section \<open>Progress while the player plays\<close>

lemma release_unlock:
  assumes "pcs s t = AtUnlock" "t \<noteq> 0" "pcs s 0 = Playing"
  shows "\<exists>s1. (buf_step cap)\<^sup>*\<^sup>* s s1 \<and> mutex s1 = None \<and> pcs s1 t = Outside \<and> pcs s1 0 = Playing"
  using assms by (intro exI [of _ "(goto t Outside s)\<lparr>mutex := None\<rparr>"])
    (auto simp: goto_def intro!: r_into_rtranclp buf_unlock [unfolded goto_def])

text \<open>One more step before a run that is already known.\<close>

lemma release_step:
  assumes "buf_step cap s s0" "\<exists>s1. (buf_step cap)\<^sup>*\<^sup>* s0 s1 \<and> P s1"
  shows "\<exists>s1. (buf_step cap)\<^sup>*\<^sup>* s s1 \<and> P s1"
  using assms by (meson converse_rtranclp_into_rtranclp)

lemma release_send:
  assumes "pcs s t = Sending pkt" "t \<noteq> 0" "pcs s 0 = Playing" "\<not> chan_closed s" "length (queue s) \<le> cap" "0 < cap"
  shows "\<exists>s1. (buf_step cap)\<^sup>*\<^sup>* s s1 \<and> mutex s1 = None \<and> pcs s1 t = Outside \<and> pcs s1 0 = Playing"
proof -
  have room: "\<exists>s1. (buf_step cap)\<^sup>*\<^sup>* r s1 \<and> mutex s1 = None \<and> pcs s1 t = Outside \<and> pcs s1 0 = Playing"
    if "pcs r t = Sending pkt" "pcs r 0 = Playing" "\<not> chan_closed r" "length (queue r) < cap" for r
    using that assms(2) by (intro release_step [OF buf_send release_unlock]) (auto simp: goto_def)
  show ?thesis
  proof (cases "queue s")
    case Nil
    with assms show ?thesis by (intro room) auto
  next
    case (Cons x rest)
    with assms show ?thesis by (intro release_step [OF buf_recv room]) auto
  qed
qed

lemma release:
  assumes inv: "buf_inv cap s" and p: "pcs s 0 = Playing" and m: "mutex s = Some t" and cap: "0 < cap"
  shows "\<exists>s1. (buf_step cap)\<^sup>*\<^sup>* s s1 \<and> mutex s1 = None \<and> pcs s1 t = Outside \<and> pcs s1 0 = Playing"
proof -
  have h: "holds (pcs s t)" and hp: "holder s = pcs s t" using inv m by (auto simp: buf_inv_def holder_def)
  have t: "t \<noteq> 0" using h p by (cases "t = 0") auto
  have close: "\<exists>s1. (buf_step cap)\<^sup>*\<^sup>* r s1 \<and> mutex s1 = None \<and> pcs s1 t = Outside \<and> pcs s1 0 = Playing"
    if "pcs r t = AtClose" "pcs r 0 = Playing" "\<not> chan_closed r" for r
    using that t by (intro release_step [OF buf_close release_unlock]) (auto simp: goto_def)
  show ?thesis
  proof (cases "pcs s t")
    case (Testing oper)
    show ?thesis
    proof (cases "closedFlag s = 1")
      case True
      with Testing t p show ?thesis
        by (intro release_step [OF buf_closed release_unlock]) (auto simp: goto_def)
    next
      case False
      then have c: "\<not> chan_closed s" using inv by (auto simp: buf_inv_def)
      show ?thesis
      proof (cases oper)
        case (BuffPacket pkt)
        with False Testing t p c inv cap show ?thesis
          by (intro release_step [OF buf_open release_send]) (auto simp: goto_def buf_inv_def)
      next
        case ClosePacketBuffer
        with False Testing t p c show ?thesis
          by (intro release_step [OF buf_mark close]) (auto simp: goto_def)
      qed
    qed
  next
    case (Sending pkt)
    with inv hp t p cap show ?thesis by (intro release_send) (auto simp: buf_inv_def)
  next
    case AtClose
    with inv hp t p show ?thesis by (intro close) (auto simp: buf_inv_def)
  next
    case AtUnlock
    with t p show ?thesis by (intro release_unlock)
  qed (use h in simp_all)
qed

section \<open>A player that leaves while its buffer is full\<close>

text \<open>Goroutine 1 sends \<open>n\<close> packets that the player does not take.\<close>

lemma fill_buffer:
  "n \<le> cap \<Longrightarrow> \<exists>s. (buf_step cap)\<^sup>*\<^sup>* buf_start s \<and> length (queue s) = n \<and> mutex s = None
    \<and> pcs s 0 = Playing \<and> pcs s 1 = Outside \<and> pcs s 2 = Outside \<and> \<not> chan_closed s \<and> closedFlag s = 0"
proof (induction n)
  case 0
  have "(buf_step cap)\<^sup>*\<^sup>* buf_start buf_start" by simp
  then show ?case by (rule exI [of _ buf_start, OF conjI]) (simp add: buf_start_def)
next
  case (Suc n)
  then obtain s where s: "(buf_step cap)\<^sup>*\<^sup>* buf_start s" "length (queue s) = n" "mutex s = None"
    "pcs s 0 = Playing" "pcs s 1 = Outside" "pcs s 2 = Outside" "\<not> chan_closed s" "closedFlag s = 0" by auto
  have "\<exists>s1. (buf_step cap)\<^sup>*\<^sup>* s s1 \<and> length (queue s1) = Suc n \<and> mutex s1 = None
    \<and> pcs s1 0 = Playing \<and> pcs s1 1 = Outside \<and> pcs s1 2 = Outside \<and> \<not> chan_closed s1 \<and> closedFlag s1 = 0"
    apply (rule release_step [OF buf_call [where t = 1 and oper = "BuffPacket pkt"]])
      apply (use s in \<open>simp_all\<close>)
    apply (rule release_step [OF buf_lock [where t = 1]], simp add: goto_def, simp add: goto_def s)
    apply (rule release_step [OF buf_open [where t = 1]], simp add: goto_def, simp add: goto_def s)
    apply (rule release_step [OF buf_send [where t = 1]], simp add: goto_def, simp add: goto_def s)
     apply (use Suc.prems s in \<open>simp add: goto_def\<close>)
    apply (rule release_step [OF buf_unlock [where t = 1]], simp add: goto_def)
    apply (rule exI, rule conjI, rule rtranclp.rtrancl_refl)
    apply (simp add: goto_def s)
    done
  with s(1) show ?case by (meson rtranclp_trans)
qed

text \<open>Goroutine \<open>t\<close> waits for room in the full channel while the player's waits for the mutex.\<close>

definition buffer_stuck :: "nat \<Rightarrow> nat \<Rightarrow> av_packet \<Rightarrow> buf_state \<Rightarrow> bool" where
  "buffer_stuck cap t pkt s \<longleftrightarrow> pcs s 0 = AtLock ClosePacketBuffer \<and> pcs s t = Sending pkt \<and> mutex s = Some t
     \<and> \<not> chan_closed s \<and> length (queue s) = cap \<and> buf_inv cap s"

lemma buffer_stuckI:
  assumes "(buf_step cap)\<^sup>*\<^sup>* buf_start s" "pcs s 0 = AtLock ClosePacketBuffer" "pcs s t = Sending pkt" "length (queue s) = cap"
  shows "buffer_stuck cap t pkt s"
proof -
  have inv: "buf_inv cap s" using assms(1) by (rule buf_inv_reachable)
  moreover have "holds (pcs s t)" using assms(3) by simp
  ultimately have "mutex s = Some t" by (simp add: buf_inv_def)
  with inv assms(3) have "\<not> chan_closed s" by (auto simp: buf_inv_def holder_def)
  with inv assms \<open>mutex s = Some t\<close> show ?thesis by (simp add: buffer_stuck_def)
qed

lemma buffer_stuck_step:
  assumes "buf_step cap s s1" "buffer_stuck cap t pkt s"
  shows "buffer_stuck cap t pkt s1"
proof -
  have inv: "buf_inv cap s1" using assms by (auto simp: buffer_stuck_def intro: buf_inv_step)
  have h: "holds (pcs s u) \<longleftrightarrow> u = t" for u using assms(2) by (auto simp: buffer_stuck_def buf_inv_def)
  have pc: "u = t \<and> pc = Sending pkt" if "pcs s u = pc" "holds pc" for u pc
    using that h [of u] assms(2) by (auto simp: buffer_stuck_def)
  have "t \<noteq> 0" using assms(2) by (cases t) (auto simp: buffer_stuck_def)
  show ?thesis
    using assms(1)
  proof cases
    case (buf_close u)
    with pc [of u AtClose] show ?thesis by simp
  next
    case (buf_unlock u)
    with pc [of u AtUnlock] show ?thesis by simp
  next
    case (buf_send u p)
    with pc [of u "Sending p"] assms(2) show ?thesis by (simp add: buffer_stuck_def)
  qed (use assms(2) inv \<open>t \<noteq> 0\<close> in \<open>auto simp: buffer_stuck_def goto_def intro: gr0I\<close>)
qed

lemma buffer_stuck_forever: "(buf_step cap)\<^sup>*\<^sup>* s s1 \<Longrightarrow> buffer_stuck cap t pkt s \<Longrightarrow> buffer_stuck cap t pkt s1"
  by (induction rule: rtranclp_induct) (auto intro: buffer_stuck_step)

lemma buffer_stuck_reachable: "\<exists>s. (buf_step cap)\<^sup>*\<^sup>* buf_start s \<and> buffer_stuck cap 1 pkt s \<and> pcs s 2 = Outside"
proof -
  obtain s where s: "(buf_step cap)\<^sup>*\<^sup>* buf_start s" "length (queue s) = cap" "mutex s = None"
    "pcs s 0 = Playing" "pcs s 1 = Outside" "pcs s 2 = Outside" "\<not> chan_closed s" "closedFlag s = 0"
    using fill_buffer [of cap cap] by auto
  have "\<exists>s1. (buf_step cap)\<^sup>*\<^sup>* s s1 \<and> pcs s1 0 = AtLock ClosePacketBuffer \<and> pcs s1 1 = Sending pkt
    \<and> mutex s1 = Some 1 \<and> \<not> chan_closed s1 \<and> length (queue s1) = cap \<and> pcs s1 2 = Outside"
    apply (rule release_step [OF buf_call [where t = 1 and oper = "BuffPacket pkt"]])
      apply (use s in \<open>simp_all\<close>)
    apply (rule release_step [OF buf_lock [where t = 1]], simp add: goto_def, simp add: goto_def s)
    apply (rule release_step [OF buf_open [where t = 1]], simp add: goto_def, simp add: goto_def s)
    apply (rule release_step [OF buf_leave], simp add: goto_def s)
    apply (rule exI, rule conjI, rule rtranclp.rtrancl_refl)
    apply (simp add: goto_def s)
    done
  then obtain s1 where s1: "(buf_step cap)\<^sup>*\<^sup>* s s1" "pcs s1 0 = AtLock ClosePacketBuffer" "pcs s1 1 = Sending pkt"
    "mutex s1 = Some 1" "\<not> chan_closed s1" "length (queue s1) = cap" "pcs s1 2 = Outside" by blast
  have "(buf_step cap)\<^sup>*\<^sup>* buf_start s1" using s(1) s1(1) by (rule rtranclp_trans)
  with buffer_stuckI [OF this s1(2,3,6)] s1(7) show ?thesis by blast
qed

section \<open>Properties\<close>

text \<open>C13: However publishers, cleaners and the player interleave at a packet buffer, nobody sends on the closed channel or closes it twice, at most one goroutine is between lock and unlock, the channel keeps to its capacity, and the player gets the packets in the order they were sent, none lost and none repeated.\<close>

theorem packet_buffer_safe:
  assumes "(buf_step cap)\<^sup>*\<^sup>* buf_start s"
  shows "\<not> crashed s \<and> length (queue s) \<le> cap \<and> sent s = got s @ queue s
    \<and> (\<forall>t u. holds (pcs s t) \<and> holds (pcs s u) \<longrightarrow> t = u)"
proof -
  have inv: "buf_inv cap s" using assms by (rule buf_inv_reachable)
  then have "holds (pcs s t) \<longleftrightarrow> mutex s = Some t" for t by (simp add: buf_inv_def)
  with inv show ?thesis by (auto simp: buf_inv_def)
qed

theorem packet_buffer_safe_witness:
  "\<exists>s. (buf_step 10)\<^sup>*\<^sup>* buf_start s \<and> buffer_stuck 10 1 zero_packet s \<and> \<not> crashed s \<and> length (queue s) \<le> 10
    \<and> sent s = got s @ queue s"
proof -
  obtain s where s: "(buf_step 10)\<^sup>*\<^sup>* buf_start s" "buffer_stuck 10 1 zero_packet s"
    using buffer_stuck_reachable by blast
  with packet_buffer_safe [OF s(1)] show ?thesis by blast
qed

text \<open>C23: While the player is in its loop, whoever holds the buffer's mutex can always get on and release it: a publisher is held up by a full buffer no longer than the player takes to receive one packet.\<close>

theorem publisher_progress:
  assumes "(buf_step cap)\<^sup>*\<^sup>* buf_start s" "pcs s 0 = Playing" "mutex s = Some t" "0 < cap"
  shows "\<exists>s1. (buf_step cap)\<^sup>*\<^sup>* s s1 \<and> mutex s1 = None \<and> pcs s1 t = Outside \<and> pcs s1 0 = Playing"
  using release [OF buf_inv_reachable [OF assms(1)] assms(2-4)] .

theorem publisher_progress_witness:
  "\<exists>s1. (buf_step 10)\<^sup>*\<^sup>* ((goto 1 (Testing ClosePacketBuffer) (goto 1 (AtLock ClosePacketBuffer) buf_start))\<lparr>mutex := Some 1\<rparr>) s1
    \<and> mutex s1 = None \<and> pcs s1 1 = Outside \<and> pcs s1 0 = Playing"
proof (rule publisher_progress)
  have "buf_step 10 buf_start (goto 1 (AtLock ClosePacketBuffer) buf_start)"
    by (rule buf_call) (simp_all add: buf_start_def)
  moreover have "buf_step 10 (goto 1 (AtLock ClosePacketBuffer) buf_start)
      ((goto 1 (Testing ClosePacketBuffer) (goto 1 (AtLock ClosePacketBuffer) buf_start))\<lparr>mutex := Some 1\<rparr>)"
    by (rule buf_lock) (simp_all add: buf_start_def goto_def)
  ultimately show "(buf_step 10)\<^sup>*\<^sup>* buf_start
      ((goto 1 (Testing ClosePacketBuffer) (goto 1 (AtLock ClosePacketBuffer) buf_start))\<lparr>mutex := Some 1\<rparr>)"
    by (rule converse_rtranclp_into_rtranclp [OF _ r_into_rtranclp])
qed (simp_all add: goto_def buf_start_def)

text \<open>C22: a player that leaves while a publisher waits at its full buffer blocks both for ever. \<open>buffPackets\<close> keeps
  the mutex while it waits for room, so once the player's loop has ended, with the buffer full and a goroutine
  at the send, the player never gets the mutex to close the buffer and the goroutine never gets past the
  send: whatever else happens, both are where they were.\<close>

theorem player_leaves_full_buffer:
  assumes "(buf_step cap)\<^sup>*\<^sup>* buf_start s" "pcs s 0 = AtLock ClosePacketBuffer" "pcs s t = Sending pkt"
    "length (queue s) = cap" "(buf_step cap)\<^sup>*\<^sup>* s s1"
  shows "pcs s1 0 = AtLock ClosePacketBuffer \<and> pcs s1 t = Sending pkt \<and> mutex s1 = Some t
    \<and> length (queue s1) = cap \<and> \<not> chan_closed s1"
  using buffer_stuck_forever [OF assms(5) buffer_stuckI [OF assms(1-4)]] by (simp add: buffer_stuck_def)

theorem player_leaves_full_buffer_witness:
  "\<exists>s s1. buf_step 10 s s1 \<and> pcs s 2 = Outside \<and> pcs s1 0 = AtLock ClosePacketBuffer \<and> pcs s1 1 = Sending zero_packet
    \<and> mutex s1 = Some 1"
proof -
  obtain s where s: "(buf_step 10)\<^sup>*\<^sup>* buf_start s" "buffer_stuck 10 1 zero_packet s" "pcs s 2 = Outside"
    using buffer_stuck_reachable by blast
  let ?s1 = "goto 2 (AtLock ClosePacketBuffer) s"
  have step: "buf_step 10 s ?s1" using s(3) by (rule buf_call) simp
  have pcs: "pcs s 0 = AtLock ClosePacketBuffer" "pcs s 1 = Sending zero_packet" "length (queue s) = 10"
    using s(2) by (simp_all add: buffer_stuck_def)
  have "(buf_step 10)\<^sup>*\<^sup>* s ?s1" using step by (rule r_into_rtranclp)
  from player_leaves_full_buffer [OF s(1) pcs this]
  have stuck: "pcs ?s1 0 = AtLock ClosePacketBuffer" "pcs ?s1 1 = Sending zero_packet" "mutex ?s1 = Some 1" by blast+
  show ?thesis
    using step s(3) stuck by blast
qed

end
