(* ===== verification/Player.thy ===== *)
theory Player
  imports Conn_Send Av_Flv
begin

text \<open>
  Players (\<open>pkg/rtmp/server/player.go\<close>): the rewriting of timestamps, the sending of a packet and the
  merged flush run on the pair of the player and its connection. \<open>amf.MetaDataReform\<close> (the AMF codec), the
  buffers and chunks the pools return, the clock and the outcome of a network write are arguments.

  The packet buffer, a channel under a mutex between the publisher's goroutine and the player's, is the
  step relation of \<open>Packet_Buffer\<close>; here it is the sequence of packets the loop receives.
\<close>

record player =
  packetBufSize :: int
  packetBuffer :: "av_packet list"
  bufferClosed :: u32
  basicTimestamp :: u32
  basicAudioTimestamp :: u32
  basicVideoTimestamp :: u32
  msgCount :: int
  bytesCount :: int
  mwWaitTime :: int               \<comment> \<open>nanoseconds\<close>
  lastMwTime :: int

definition zero_player :: player where
  "zero_player = \<lparr>packetBufSize = 0, packetBuffer = [], bufferClosed = 0, basicTimestamp = 0,
     basicAudioTimestamp = 0, basicVideoTimestamp = 0, msgCount = 0, bytesCount = 0, mwWaitTime = 0,
     lastMwTime = 0\<rparr>"

definition errPlayerConn :: error where "errPlayerConn = ErrNew ''player conn require''"

definition withPlayerPacketBufSize :: "int \<Rightarrow> player \<Rightarrow> player" where
  "withPlayerPacketBufSize n p = p\<lparr>packetBufSize := n\<rparr>"

definition withMergeWriteWaitTime :: "int \<Rightarrow> player \<Rightarrow> player" where
  "withMergeWriteWaitTime d p = p\<lparr>mwWaitTime := d\<rparr>"

text \<open>\<open>has_conn\<close>: the options set \<open>p.c\<close>.\<close>

definition player_loadOptions :: "bool \<Rightarrow> (player \<Rightarrow> player) list \<Rightarrow> player \<Rightarrow> player res" where
  "player_loadOptions has_conn opts p0 =
     (let p = fold (\<lambda>opt x. opt x) opts p0
      in if \<not> has_conn then Err errPlayerConn
         else
           (let p = (if packetBufSize p \<le> 0 then p\<lparr>packetBufSize := 10\<rparr> else p);
                p = p\<lparr>packetBuffer := []\<rparr>;
                p = (if mwWaitTime p \<le> 0 then p\<lparr>mwWaitTime := 350000000\<rparr> else p)
            in Ok p))"

definition newPlayer :: "bool \<Rightarrow> (player \<Rightarrow> player) list \<Rightarrow> player res" where
  "newPlayer has_conn opts = player_loadOptions has_conn opts zero_player"

section \<open>Timestamps\<close>

definition updateBaseTimestamp :: "RtmpMessageTypeID \<Rightarrow> u32 \<Rightarrow> player \<Rightarrow> player" where
  "updateBaseTimestamp messageTypeId timestamp p =
     (let p = (if messageTypeId = MsgAudioMessage then p\<lparr>basicAudioTimestamp := timestamp\<rparr>
               else if messageTypeId = MsgVideoMessage then p\<lparr>basicVideoTimestamp := timestamp\<rparr>
               else p)
      in if basicAudioTimestamp p > basicVideoTimestamp p
         then p\<lparr>basicTimestamp := basicAudioTimestamp p\<rparr>
         else p\<lparr>basicTimestamp := basicVideoTimestamp p\<rparr>)"

definition getBaseTimestamp :: "player \<Rightarrow> u32" where
  "getBaseTimestamp p = basicTimestamp p"

text \<open>The timestamp a packet is sent with.\<close>

definition send_timestamp :: "player \<Rightarrow> av_packet \<Rightarrow> u32" where
  "send_timestamp p pkt =
     (let timestamp = pkt_Timestamp pkt; baseTimestamp = getBaseTimestamp p
      in if timestamp < baseTimestamp then baseTimestamp + 40 else timestamp)"

definition packet_csid_type :: "AVPacketType \<Rightarrow> u32 \<times> RtmpMessageTypeID" where
  "packet_csid_type t =
     (if t = AudioType then (4, MsgAudioMessage)
      else if t = VideoType then (6, MsgVideoMessage)
      else if t = MetaData then (6, MSGAMF0DataMessage)
      else (0, 0))"

section \<open>Sending\<close>

type_synonym pstate = "player \<times> connection"

text \<open>The chunk from the pool, as \<open>sendAvPacket\<close> fills it.\<close>

definition packet_message :: "player \<Rightarrow> av_packet \<Rightarrow> chunk \<Rightarrow> chunk" where
  "packet_message p pkt msg =
     (case packet_csid_type (PacketType pkt) of (csid, messageTypeId) \<Rightarrow>
        (let msg = WithChunkFmt 0 msg;
             msg = WithChunkCsid csid msg;
             msg = WithChunkTimestamp (send_timestamp p pkt) msg;
             msg = WithChunkMessageLength (of_nat (length (Data pkt))) msg;
             msg = WithChunkMessageTypeID messageTypeId msg;
             msg = WithChunkMessageStreamID (pkt_StreamID pkt) msg
         in WithChunkData (Data pkt) msg))"

definition sendAvPacket ::
  "(bytes \<Rightarrow> bytes res) \<Rightarrow> (nat \<Rightarrow> nat) \<Rightarrow> chunk \<Rightarrow> chunk \<Rightarrow> av_packet \<Rightarrow> (pstate, unit) go" where
  "sendAvPacket reform pick ck msg0 pkt s =
     (case s of (p, c) \<Rightarrow>
        (let msg = packet_message p pkt msg0;
             body = (if PacketType pkt = MetaData then reform (GetChunkData msg) else Ok (ChunkData msg))
         in case body of
              Err e \<Rightarrow> (Err (Wrap ''amf encode metaData'' e), (p, c))
            | Panic x \<Rightarrow> (Panic x, (p, c))
            | Ok d \<Rightarrow>
                (let msg = (if PacketType pkt = MetaData
                            then WithChunkMessageLength (of_nat (length d)) (WithChunkData d msg) else msg);
                     p = updateBaseTimestamp (GetChunkMessageTypeID msg) (GetChunkTimestamp msg) p
                 in case SendIntegralMessage pick ck msg c of
                      (Err e, c) \<Rightarrow> (Err (Wrap ''write chunk message'' e), (p, c))
                    | (Panic x, c) \<Rightarrow> (Panic x, (p, c))
                    | (Ok nw, c) \<Rightarrow>
                        (Ok (), (p\<lparr>bytesCount := bytesCount p + int nw, msgCount := msgCount p + 1\<rparr>, c)))))"

definition flushAvPacket :: "int \<Rightarrow> (nat \<times> error) option \<Rightarrow> bool \<Rightarrow> (pstate, unit) go" where
  "flushAvPacket now fault small_cap s =
     (case s of (p, c) \<Rightarrow>
        if msgCount p \<le> 0 \<or> now - lastMwTime p < mwWaitTime p then (Ok (), (p, c))
        else
          (case conn_Flush fault small_cap c of
             (Err e, c) \<Rightarrow> (Err (Wrap ''flush merged chunk message data'' e), (p, c))
           | (Panic x, c) \<Rightarrow> (Panic x, (p, c))
           | (Ok nf, c) \<Rightarrow>
               if int nf \<noteq> bytesCount p then (Err (ErrNew ''need write''), (p, c))
               else (Ok (), (p\<lparr>lastMwTime := now, msgCount := 0, bytesCount := 0\<rparr>, c))))"

text \<open>
  \<open>sendAvMetaPacket\<close>: the session's metadata and sequence headers, those it has, in this order; each
  with the choices of its send.
\<close>

primrec send_stored ::
  "(bytes \<Rightarrow> bytes res) \<Rightarrow> (string \<times> av_packet option \<times> (nat \<Rightarrow> nat) \<times> chunk \<times> chunk) list
    \<Rightarrow> (pstate, unit) go" where
  "send_stored reform [] = go_return ()"
| "send_stored reform (x # xs) =
     (case x of (what, pkt, pick, ck, msg0) \<Rightarrow>
        (case pkt of
           None \<Rightarrow> send_stored reform xs
         | Some pkt \<Rightarrow> go_bind (go_wrap what (sendAvPacket reform pick ck msg0 pkt))
                               (\<lambda>_. send_stored reform xs)))"

definition sendAvMetaPacket ::
  "(bytes \<Rightarrow> bytes res) \<Rightarrow> (nat \<Rightarrow> nat \<Rightarrow> nat) \<Rightarrow> chunk \<Rightarrow> chunk
    \<Rightarrow> av_packet option \<Rightarrow> av_packet option \<Rightarrow> av_packet option \<Rightarrow> (pstate, unit) go" where
  "sendAvMetaPacket reform pick ck msg0 metaData audioSeqHeader videoSeqHeader =
     send_stored reform
       [(''send onMeta packet to player'', metaData, pick 0, ck, msg0),
        (''send audio sequence header to player'', audioSeqHeader, pick 1, ck, msg0),
        (''send video sequence header to player'', videoSeqHeader, pick 2, ck, msg0)]"

section \<open>The packet buffer, called without interference\<close>

text \<open>
  \<open>buffPackets\<close> and \<open>closePacketBuffer\<close> when no other goroutine is in them (\<open>Packet_Buffer\<close> has the
  interleavings). A send that finds the channel full blocks: \<open>None\<close>.
\<close>

definition buffPackets :: "av_packet \<Rightarrow> player \<Rightarrow> player option" where
  "buffPackets pkt p =
     (if bufferClosed p = 1 then Some p
      else if int (length (packetBuffer p)) < packetBufSize p
      then Some (p\<lparr>packetBuffer := packetBuffer p @ [pkt]\<rparr>)
      else None)"

definition closePacketBuffer :: "player \<Rightarrow> player" where
  "closePacketBuffer p = (if bufferClosed p = 1 then p else p\<lparr>bufferClosed := bufferClosed p + 1\<rparr>)"

section \<open>Timestamps never go back\<close>

text \<open>The base is the later of the last audio and the last video timestamp.\<close>

definition base_inv :: "player \<Rightarrow> bool" where
  "base_inv p \<longleftrightarrow> basicTimestamp p = max (basicAudioTimestamp p) (basicVideoTimestamp p)"

lemma update_base:
  assumes "base_inv p" "basicTimestamp p \<le> t"
  shows "base_inv (updateBaseTimestamp i t p)"
    "basicTimestamp (updateBaseTimestamp i t p)
      = (if i = MsgAudioMessage \<or> i = MsgVideoMessage then t else basicTimestamp p)"
proof -
  have "basicAudioTimestamp p \<le> t" "basicVideoTimestamp p \<le> t"
    using assms by (auto simp: base_inv_def)
  then show "base_inv (updateBaseTimestamp i t p)"
    "basicTimestamp (updateBaseTimestamp i t p)
      = (if i = MsgAudioMessage \<or> i = MsgVideoMessage then t else basicTimestamp p)"
    using assms(1)
    by (auto simp: base_inv_def updateBaseTimestamp_def Let_def max_def not_less msg_ids)
qed

lemma send_timestamp_ge:
  assumes "unat (basicTimestamp p) + 40 < 2 ^ 32"
  shows "basicTimestamp p \<le> send_timestamp p pkt"
    "unat (send_timestamp p pkt) \<le> max (unat (pkt_Timestamp pkt)) (unat (basicTimestamp p) + 40)"
proof -
  have "unat (basicTimestamp p + 40) = unat (basicTimestamp p) + 40"
    using assms by (simp add: unat_word_ariths)
  then show "basicTimestamp p \<le> send_timestamp p pkt"
    "unat (send_timestamp p pkt) \<le> max (unat (pkt_Timestamp pkt)) (unat (basicTimestamp p) + 40)"
    by (auto simp: send_timestamp_def getBaseTimestamp_def Let_def word_le_nat_alt word_less_nat_alt)
qed

definition packet_type_id :: "av_packet \<Rightarrow> RtmpMessageTypeID" where
  "packet_type_id pkt = snd (packet_csid_type (PacketType pkt))"

definition after_packet :: "player \<Rightarrow> av_packet \<Rightarrow> player" where
  "after_packet p pkt = updateBaseTimestamp (packet_type_id pkt) (send_timestamp p pkt) p"

lemma after_packet_base:
  assumes "base_inv p" "unat (basicTimestamp p) + 40 < 2 ^ 32"
  shows "base_inv (after_packet p pkt)" "basicTimestamp p \<le> basicTimestamp (after_packet p pkt)"
    "unat (basicTimestamp (after_packet p pkt)) \<le> max (unat (pkt_Timestamp pkt)) (unat (basicTimestamp p) + 40)"
    "PacketType pkt = AudioType \<or> PacketType pkt = VideoType \<Longrightarrow>
      basicTimestamp (after_packet p pkt) = send_timestamp p pkt"
proof -
  note ge = send_timestamp_ge [OF assms(2), of pkt]
  note u = update_base [OF assms(1) ge(1), of "packet_type_id pkt"]
  show "base_inv (after_packet p pkt)" "basicTimestamp p \<le> basicTimestamp (after_packet p pkt)"
    "unat (basicTimestamp (after_packet p pkt)) \<le> max (unat (pkt_Timestamp pkt)) (unat (basicTimestamp p) + 40)"
    using u ge by (auto simp: after_packet_def)
  show "basicTimestamp (after_packet p pkt) = send_timestamp p pkt"
    if "PacketType pkt = AudioType \<or> PacketType pkt = VideoType"
    using that u by (auto simp: after_packet_def packet_type_id_def packet_csid_type_def packet_types)
qed

section \<open>The playing loop\<close>

text \<open>
  What one turn of \<open>doPlaying\<close>'s loop meets: an error of the receiving goroutine, a packet (a nil
  pointer among them) or the closed channel; with the choices of the calls it makes.
\<close>

record play_env =
  env_now :: int
  env_fault :: "(nat \<times> error) option"
  env_small :: bool
  env_pick :: "nat \<Rightarrow> nat"
  env_ck :: chunk
  env_msg :: chunk

datatype play_event =
    RecvFailed error
  | Received play_env "av_packet option"
  | ChannelClosed play_env

definition flush_env :: "play_env \<Rightarrow> (pstate, unit) go" where
  "flush_env env = go_wrap ''flush av packet to player''
     (flushAvPacket (env_now env) (env_fault env) (env_small env))"

text \<open>The loop on a sequence of turns; \<open>Ok ()\<close> when it is still running after them.\<close>

fun play_loop :: "(bytes \<Rightarrow> bytes res) \<Rightarrow> play_event list \<Rightarrow> (pstate, unit) go" where
  "play_loop reform [] = go_return ()"
| "play_loop reform (RecvFailed e # evs) = go_fail e"
| "play_loop reform (ChannelClosed env # evs) =
     go_bind (flush_env env) (\<lambda>_. go_fail (ErrNew ''channel closed by writer''))"
| "play_loop reform (Received env None # evs) =
     go_bind (flush_env env) (\<lambda>_. play_loop reform evs)"
| "play_loop reform (Received env (Some pkt) # evs) =
     go_bind (flush_env env) (\<lambda>_.
     go_bind (go_wrap ''sent av packet to player''
               (sendAvPacket reform (env_pick env) (env_ck env) (env_msg env) pkt)) (\<lambda>_.
     play_loop reform evs))"

definition doPlaying ::
  "(bytes \<Rightarrow> bytes res) \<Rightarrow> (nat \<Rightarrow> nat \<Rightarrow> nat) \<Rightarrow> chunk \<Rightarrow> chunk
    \<Rightarrow> av_packet option \<Rightarrow> av_packet option \<Rightarrow> av_packet option \<Rightarrow> play_event list \<Rightarrow> (pstate, unit) go" where
  "doPlaying reform pick ck msg0 metaData audioSeqHeader videoSeqHeader evs =
     go_bind (go_wrap ''send meta/audio/video packet''
               (sendAvMetaPacket reform pick ck msg0 metaData audioSeqHeader videoSeqHeader)) (\<lambda>_.
     play_loop reform evs)"

section \<open>What a playing client is sent\<close>

text \<open>The messages the loop sends, in order.\<close>

fun played :: "player \<Rightarrow> play_event list \<Rightarrow> chunk list" where
  "played p (Received env (Some pkt) # evs) = packet_message p pkt (env_msg env) # played (after_packet p pkt) evs"
| "played p (Received env None # evs) = played p evs"
| "played p _ = []"

definition is_av :: "av_packet \<Rightarrow> bool" where
  "is_av pkt \<longleftrightarrow> (PacketType pkt = AudioType \<or> PacketType pkt = VideoType)
     \<and> Data pkt \<noteq> [] \<and> length (Data pkt) < 2 ^ 32"

text \<open>A turn that brings an audio or video packet no later than \<open>m\<close>, and whose flush the network takes.\<close>

fun smooth :: "nat \<Rightarrow> play_event \<Rightarrow> bool" where
  "smooth m (Received env (Some pkt)) \<longleftrightarrow> env_fault env = None \<and> is_av pkt \<and> unat (pkt_Timestamp pkt) \<le> m"
| "smooth m (Received env None) \<longleftrightarrow> env_fault env = None"
| "smooth m _ \<longleftrightarrow> False"

definition outgoing :: "connection \<Rightarrow> bytes" where
  "outgoing c = wire_out c @ buffers_bytes (writeBuf c)"

definition player_inv :: "pstate \<Rightarrow> bool" where
  "player_inv s \<longleftrightarrow> (case s of (p, c) \<Rightarrow> bytesCount p = int (length (buffers_bytes (writeBuf c)))
     \<and> queue_ok c \<and> pool_ok 1 c \<and> LocalChunkSize c \<noteq> 0 \<and> base_inv p)"

definition same_base :: "player \<Rightarrow> player \<Rightarrow> bool" where
  "same_base p q \<longleftrightarrow> basicTimestamp p = basicTimestamp q \<and> basicAudioTimestamp p = basicAudioTimestamp q
     \<and> basicVideoTimestamp p = basicVideoTimestamp q"

lemma same_base_cong:
  assumes "same_base p q"
  shows "send_timestamp p pkt = send_timestamp q pkt" "packet_message p pkt = packet_message q pkt"
    "same_base (after_packet p pkt) (after_packet q pkt)" "base_inv p = base_inv q"
  using assms
  by (auto simp: same_base_def send_timestamp_def getBaseTimestamp_def packet_message_def after_packet_def
      updateBaseTimestamp_def base_inv_def Let_def fun_eq_iff)

lemma played_cong: "same_base p q \<Longrightarrow> played p evs = played q evs"
  by (induction p evs arbitrary: q rule: played.induct) (auto simp: same_base_cong)

text \<open>A flush changes where the bytes are, not which bytes they are.\<close>

lemma flushAvPacket_ok:
  assumes "player_inv (p, c)"
  shows "\<exists>p1 c1. flushAvPacket now None small (p, c) = (Ok (), (p1, c1)) \<and> player_inv (p1, c1)
    \<and> outgoing c1 = outgoing c \<and> LocalChunkSize c1 = LocalChunkSize c \<and> same_base p1 p"
proof (cases "msgCount p \<le> 0 \<or> now - lastMwTime p < mwWaitTime p")
  case True
  with assms show ?thesis by (auto simp: flushAvPacket_def same_base_def)
next
  case False
  from assms have q: "queue_ok c" "pool_ok 1 c" "bytesCount p = int (length (buffers_bytes (writeBuf c)))"
    "LocalChunkSize c \<noteq> 0" "base_inv p" by (auto simp: player_inv_def)
  from Flush_ok [OF q(1,2), of small] obtain c1 where
    "conn_Flush None small c = (Ok (length (buffers_bytes (writeBuf c))), c1)"
    "wire_out c1 = wire_out c @ buffers_bytes (writeBuf c)" "writeBuf c1 = []" "queue_ok c1"
    "pool_ok 1 c1" "LocalChunkSize c1 = LocalChunkSize c" by blast
  with False q show ?thesis
    by (simp add: flushAvPacket_def player_inv_def outgoing_def same_base_def buffers_bytes_def base_inv_def)
qed

lemma of_nat_u32:
  assumes "n < 2 ^ 32"
  shows "unat (of_nat n :: u32) = n" "0 < (of_nat n :: u32) \<longleftrightarrow> 0 < n"
  using assms by (auto simp: unat_of_nat word_less_nat_alt)

lemma packet_message_fields:
  "is_av pkt \<Longrightarrow> sendable (packet_message p pkt m)"
  "is_av pkt \<Longrightarrow> length (basic_bytes (basic_header (hdr (packet_message p pkt m)))) = 1"
  "is_av pkt \<Longrightarrow> ChunkData (packet_message p pkt m) = Data pkt"
  "GetChunkTimestamp (packet_message p pkt m) = send_timestamp p pkt"
  "GetChunkMessageTypeID (packet_message p pkt m) = packet_type_id pkt"
  by (auto simp: packet_message_def packet_csid_type_def packet_types is_av_def sendable_def chunk_options
      chunk_getters Let_def length_basic_bytes packet_type_id_def of_nat_u32 split: if_splits)

lemma sendAvPacket_ok:
  assumes inv: "player_inv (p, c)" and pkt: "is_av pkt" and t: "unat (basicTimestamp p) + 40 < 2 ^ 32"
  shows "\<exists>p1 c1. sendAvPacket reform pick ck m pkt (p, c) = (Ok (), (p1, c1)) \<and> player_inv (p1, c1)
    \<and> outgoing c1 = outgoing c @ wire_bytes (unat (LocalChunkSize c)) (packet_message p pkt m)
    \<and> LocalChunkSize c1 = LocalChunkSize c \<and> same_base p1 (after_packet p pkt)"
proof -
  let ?msg = "packet_message p pkt m" and ?L = "unat (LocalChunkSize c)"
  from inv have q: "queue_ok c" "pool_ok 1 c" "bytesCount p = int (length (buffers_bytes (writeBuf c)))"
    "LocalChunkSize c \<noteq> 0" "base_inv p" by (auto simp: player_inv_def)
  note f = packet_message_fields [where p = p and pkt = pkt and m = m]
  have L: "0 < ?L" using q(4) by (simp add: unat_gt_0)
  from SendIntegralMessage_ok [OF f(1) [OF pkt] _ _ q(2,1) refl L, of pick ck] f(2) [OF pkt] obtain c1 where
    s: "SendIntegralMessage pick ck ?msg c = (Ok (length (wire_bytes ?L ?msg)), c1)"
    and qd: "queued 1 c (wire_bytes ?L ?msg) c1" by auto
  have nm: "PacketType pkt \<noteq> MetaData" using pkt by (auto simp: is_av_def packet_types)
  define p1 where "p1 = (after_packet p pkt)\<lparr>bytesCount := bytesCount (after_packet p pkt)
    + int (length (wire_bytes ?L ?msg)), msgCount := msgCount (after_packet p pkt) + 1\<rparr>"
  have "sendAvPacket reform pick ck m pkt (p, c) = (Ok (), (p1, c1))"
    using nm s f(4,5) by (simp add: sendAvPacket_def Let_def p1_def after_packet_def)
  moreover have "bytesCount (after_packet p pkt) = bytesCount p"
    by (simp add: after_packet_def updateBaseTimestamp_def Let_def)
  moreover have "wire_out c1 = wire_out c" using qd by (auto simp: queued_def)
  moreover have "base_inv p1" "same_base p1 (after_packet p pkt)"
    using after_packet_base(1) [OF q(5) t] by (auto simp: p1_def base_inv_def same_base_def)
  ultimately show ?thesis
    using q qd queued_frame [OF qd]
    by (auto simp: player_inv_def outgoing_def queued_def p1_def)
qed

lemma play_loop_ok:
  "player_inv (p, c) \<Longrightarrow> \<forall>ev \<in> set evs. smooth m ev \<Longrightarrow> unat (basicTimestamp p) \<le> m \<Longrightarrow>
    m + 40 * length evs < 2 ^ 32 \<Longrightarrow>
    \<exists>p1 c1. play_loop reform evs (p, c) = (Ok (), (p1, c1)) \<and> player_inv (p1, c1)
      \<and> outgoing c1 = outgoing c @ concat (map (wire_bytes (unat (LocalChunkSize c))) (played p evs))
      \<and> sorted (map (\<lambda>x. unat (GetChunkTimestamp x)) (played p evs))
      \<and> (\<forall>x \<in> set (played p evs). basicTimestamp p \<le> GetChunkTimestamp x)"
proof (induction reform evs arbitrary: p c m rule: play_loop.induct)
  case (1 reform)
  then show ?case by (simp add: go_return_def)
next
  case (4 reform env evs)
  from 4(3) have f: "env_fault env = None" by simp
  from flushAvPacket_ok [OF 4(2), of "env_now env" "env_small env"] obtain p1 c1 where
    r: "flush_env env (p, c) = (Ok (), (p1, c1))" and o: "player_inv (p1, c1)" "outgoing c1 = outgoing c"
    "LocalChunkSize c1 = LocalChunkSize c" "same_base p1 p" by (auto simp: flush_env_def f)
  have b: "basicTimestamp p1 = basicTimestamp p" using o(4) by (simp add: same_base_def)
  have "\<forall>ev \<in> set evs. smooth m ev" "unat (basicTimestamp p1) \<le> m" "m + 40 * length evs < 2 ^ 32"
    using 4 b by auto
  from 4(1) [OF o(1) this] show ?case
    by (simp add: go_bind_def r o played_cong [OF o(4)] b)
next
  case (5 reform env pkt evs)
  let ?q = "after_packet p pkt"
  from 5(3) have f: "env_fault env = None" and a: "is_av pkt" and pm: "unat (pkt_Timestamp pkt) \<le> m" by auto
  from flushAvPacket_ok [OF 5(2), of "env_now env" "env_small env"] obtain p1 c1 where
    r: "flush_env env (p, c) = (Ok (), (p1, c1))" and o: "player_inv (p1, c1)" "outgoing c1 = outgoing c"
    "LocalChunkSize c1 = LocalChunkSize c" "same_base p1 p" by (auto simp: flush_env_def f)
  have b: "basicTimestamp p1 = basicTimestamp p" using o(4) by (simp add: same_base_def)
  have t: "unat (basicTimestamp p1) + 40 < 2 ^ 32" using 5(4,5) b by simp
  from sendAvPacket_ok [OF o(1) a t, of reform "env_pick env" "env_ck env" "env_msg env"] obtain p2 c2 where
    r2: "sendAvPacket reform (env_pick env) (env_ck env) (env_msg env) pkt (p1, c1) = (Ok (), (p2, c2))"
    and o2: "player_inv (p2, c2)"
      "outgoing c2 = outgoing c @ wire_bytes (unat (LocalChunkSize c)) (packet_message p pkt (env_msg env))"
      "LocalChunkSize c2 = LocalChunkSize c" "same_base p2 (after_packet p1 pkt)"
    using o same_base_cong(2) [OF o(4)] by auto
  have sb: "same_base p2 ?q"
    using o2(4) same_base_cong(3) [OF o(4), of pkt] by (auto simp: same_base_def)
  have bi: "base_inv p" using 5(2) by (simp add: player_inv_def)
  have tp: "unat (basicTimestamp p) + 40 < 2 ^ 32" using t b by simp
  note ap = after_packet_base [OF bi tp, of pkt]
  have bq: "basicTimestamp ?q = send_timestamp p pkt" using a by (intro ap(4)) (auto simp: is_av_def)
  have b2: "basicTimestamp p2 = basicTimestamp ?q" using sb by (simp add: same_base_def)
  have "smooth m ev \<Longrightarrow> smooth (m + 40) ev" for ev by (induction m ev rule: smooth.induct) auto
  then have "\<forall>ev \<in> set evs. smooth (m + 40) ev" using 5(3) by simp
  moreover have "unat (basicTimestamp p2) \<le> m + 40" using ap(3) pm 5(4) b2 by (auto simp: max_def split: if_splits)
  moreover have "m + 40 + 40 * length evs < 2 ^ 32" using 5(5) by simp
  ultimately obtain p3 c3 where "play_loop reform evs (p2, c2) = (Ok (), (p3, c3)) \<and> player_inv (p3, c3)
      \<and> outgoing c3 = outgoing c2 @ concat (map (wire_bytes (unat (LocalChunkSize c2))) (played p2 evs))
      \<and> sorted (map (\<lambda>x. unat (GetChunkTimestamp x)) (played p2 evs))
      \<and> (\<forall>x \<in> set (played p2 evs). basicTimestamp p2 \<le> GetChunkTimestamp x)"
    using 5(1) [OF o2(1)] by blast
  moreover have "play_loop reform (Received env (Some pkt) # evs) (p, c) = play_loop reform evs (p2, c2)"
    by (simp add: go_bind_def r go_wrap_def r2)
  moreover have "basicTimestamp p \<le> x" if "send_timestamp p pkt \<le> x" for x
    using order_trans [OF ap(2) that [folded bq]] .
  ultimately show ?case
    using ap(2) by (auto simp: o2 played_cong [OF sb] b2 bq packet_message_fields(4) word_le_nat_alt)
qed simp_all

section \<open>Properties\<close>


definition sample_env :: "int \<Rightarrow> play_env" where
  "sample_env now = \<lparr>env_now = now, env_fault = None, env_small = False, env_pick = (\<lambda>_. 0),
     env_ck = zero_chunk, env_msg = zero_chunk\<rparr>"

definition sample_packet :: "AVPacketType \<Rightarrow> u32 \<Rightarrow> bytes \<Rightarrow> av_packet" where
  "sample_packet typ t d = zero_packet\<lparr>PacketType := typ, pkt_Timestamp := t, Data := d, pkt_StreamID := 1\<rparr>"

definition sample_events :: "play_event list" where
  "sample_events = [Received (sample_env 0) (Some (sample_packet VideoType 1000 [0x17, 1])),
     Received (sample_env 1) (Some (sample_packet AudioType 5 [0xaf, 1])), Received (sample_env 2) None]"

lemma sample_player_inv: "player_inv (zero_player, sample_conn [])"
  by (simp add: player_inv_def zero_player_def sample_conn_def buffers_bytes_def queue_ok_def pool_ok_def
      base_inv_def)


text \<open>Once messages are queued and the merge wait is over, \<open>flushAvPacket\<close> puts every queued byte on the wire and starts counting again; before that it does nothing. It never reports a length mismatch.\<close>

lemma merged_flush:
  assumes "player_inv (p, c)"
  shows "flushAvPacket now None small (p, c) =
      (if msgCount p \<le> 0 \<or> now - lastMwTime p < mwWaitTime p then (Ok (), (p, c))
       else (Ok (), (p\<lparr>lastMwTime := now, msgCount := 0, bytesCount := 0\<rparr>, snd (conn_Flush None small c))))
    \<and> wire_out (snd (conn_Flush None small c)) = wire_out c @ buffers_bytes (writeBuf c)
    \<and> writeBuf (snd (conn_Flush None small c)) = []"
proof -
  from assms have q: "queue_ok c" "pool_ok 1 c" "bytesCount p = int (length (buffers_bytes (writeBuf c)))"
    by (auto simp: player_inv_def)
  from Flush_ok [OF q(1,2), of small] obtain c1 where
    "conn_Flush None small c = (Ok (length (buffers_bytes (writeBuf c))), c1)"
    "wire_out c1 = wire_out c @ buffers_bytes (writeBuf c)" "writeBuf c1 = []" by blast
  with q show ?thesis by (simp add: flushAvPacket_def)
qed

end
