(* ===== verification/Ring_Buffer.thy ===== *)
theory Ring_Buffer
  imports Go_Prelude
begin

text \<open>
  The bounded queue of \<open>research/queue/ring.go\<close>: a power-of-two array of nodes, each with the position
  at which it can next be written or read, and two counters that only grow, on 64-bit words that wrap.

  An iteration of the loops of \<open>put\<close> and \<open>Poll\<close> is one definition, the loops are bounded by fuel:
  running out of it is \<open>None\<close>, so that a call that spins is a call for which no fuel is enough. Calls
  run without interference from other goroutines; the clock of \<open>Poll\<close> is a predicate on the iteration.
\<close>

section \<open>Rounding up\<close>

definition roundUp :: "u64 \<Rightarrow> u64" where
  "roundUp v =
     (let v = v - 1;
          v = v OR drop_bit 1 v;
          v = v OR drop_bit 2 v;
          v = v OR drop_bit 4 v;
          v = v OR drop_bit 8 v;
          v = v OR drop_bit 16 v;
          v = v OR drop_bit 32 v
      in v + 1)"

text \<open>Each step doubles the window of higher bits that reach a bit.\<close>

lemma smear_step:
  assumes "\<And>n. bit x n \<longleftrightarrow> (\<exists>m. n \<le> m \<and> m < n + k \<and> bit v m)"
  shows "bit (x OR drop_bit k x) n \<longleftrightarrow> (\<exists>m. n \<le> m \<and> m < n + 2 * k \<and> bit (v :: u64) m)"
proof -
  have "bit (x OR drop_bit k x) n \<longleftrightarrow>
      (\<exists>m. n \<le> m \<and> m < n + k \<and> bit v m) \<or> (\<exists>m. k + n \<le> m \<and> m < k + n + k \<and> bit v m)"
    by (simp add: bit_or_iff bit_drop_bit_eq assms)
  also have "\<dots> \<longleftrightarrow> (\<exists>m. (n \<le> m \<and> m < n + k \<or> k + n \<le> m \<and> m < k + n + k) \<and> bit v m)"
    by blast
  also have "\<dots> \<longleftrightarrow> (\<exists>m. (n \<le> m \<and> m < n + 2 * k) \<and> bit v m)"
  proof -
    have "(n \<le> m \<and> m < n + k \<or> k + n \<le> m \<and> m < k + n + k) \<longleftrightarrow> n \<le> m \<and> m < n + 2 * k" for m
      by arith
    then show ?thesis by simp
  qed
  finally show ?thesis by simp
qed

definition smear :: "u64 \<Rightarrow> u64" where
  "smear v =
     (let v = v OR drop_bit 1 v; v = v OR drop_bit 2 v; v = v OR drop_bit 4 v;
          v = v OR drop_bit 8 v; v = v OR drop_bit 16 v
      in v OR drop_bit 32 v)"

lemma roundUp_smear: "roundUp v = smear (v - 1) + 1"
  by (simp add: roundUp_def smear_def Let_def)

lemma bit_smear: "bit (smear v) n \<longleftrightarrow> (\<exists>m \<ge> n. bit v m)"
proof -
  define a where "a = v OR drop_bit 1 v"
  define b where "b = a OR drop_bit 2 a"
  define c where "c = b OR drop_bit 4 b"
  define d where "d = c OR drop_bit 8 c"
  define e where "e = d OR drop_bit 16 d"
  have "bit v i \<longleftrightarrow> (\<exists>m. i \<le> m \<and> m < i + 1 \<and> bit v m)" for i
    by (auto simp: less_Suc_eq_le dest: le_antisym)
  from smear_step [OF this] have "bit a i \<longleftrightarrow> (\<exists>m. i \<le> m \<and> m < i + 2 \<and> bit v m)" for i
    by (simp add: a_def)
  from smear_step [OF this] have "bit b i \<longleftrightarrow> (\<exists>m. i \<le> m \<and> m < i + 4 \<and> bit v m)" for i
    by (simp add: b_def)
  from smear_step [OF this] have "bit c i \<longleftrightarrow> (\<exists>m. i \<le> m \<and> m < i + 8 \<and> bit v m)" for i
    by (simp add: c_def)
  from smear_step [OF this] have "bit d i \<longleftrightarrow> (\<exists>m. i \<le> m \<and> m < i + 16 \<and> bit v m)" for i
    by (simp add: d_def)
  from smear_step [OF this] have "bit e i \<longleftrightarrow> (\<exists>m. i \<le> m \<and> m < i + 32 \<and> bit v m)" for i
    by (simp add: e_def)
  from smear_step [OF this] have "bit (smear v) n \<longleftrightarrow> (\<exists>m. n \<le> m \<and> m < n + 64 \<and> bit v m)"
    by (simp add: smear_def Let_def a_def b_def c_def d_def e_def)
  also have "\<dots> \<longleftrightarrow> (\<exists>m \<ge> n. bit v m)"
    using bit_imp_le_length [of v] by (auto intro: trans_less_add2)
  finally show ?thesis .
qed

text \<open>So the bits below the highest set bit are all set.\<close>

lemma smear_mask:
  assumes "2 ^ k \<le> unat v" "unat v < 2 ^ Suc k" "k < 64"
  shows "smear v = mask (Suc k)"
proof (rule bit_word_eqI)
  fix n assume "n < LENGTH(64)"
  have hi: "bit v m \<Longrightarrow> m \<le> k" for m
  proof -
    have "take_bit (Suc k) v = v"
      using assms(2) by (metis take_bit_nat_eq_self unsigned_take_bit_eq unsigned_word_eqI)
    then show "bit v m \<Longrightarrow> m \<le> k" by (metis bit_take_bit_iff less_Suc_eq_le)
  qed
  have "bit v k"
  proof (rule ccontr)
    assume "\<not> bit v k"
    with hi have "bit v m \<Longrightarrow> m < k" for m by (metis le_neq_implies_less)
    then have "take_bit k v = v" by (intro bit_word_eqI) (auto simp: bit_take_bit_iff)
    then have "unat v < 2 ^ k" by (metis take_bit_nat_less_exp unsigned_take_bit_eq)
    with assms(1) show False by simp
  qed
  with hi show "bit (smear v) n = bit (mask (Suc k) :: u64) n"
    using assms(3) \<open>n < LENGTH(64)\<close>
    by (auto simp: bit_smear bit_mask_iff less_Suc_eq_le intro: order_trans)
qed

lemma power_between:
  assumes "0 < (n :: nat)" obtains k where "2 ^ k \<le> n" "n < 2 ^ Suc k"
proof -
  show ?thesis
    using assms that
  proof (induction n arbitrary: thesis rule: less_induct)
    case (less n)
    show ?case
    proof (cases "n = 1")
      case True
      with less.prems(2) [of 0] show ?thesis by simp
    next
      case False
      with less.prems(1) have "n div 2 < n" "0 < n div 2" by auto
      then obtain k where "2 ^ k \<le> n div 2" "n div 2 < 2 ^ Suc k" using less.IH by blast
      then show ?thesis by (intro less.prems(2) [of "Suc k"]) auto
    qed
  qed
qed

lemma unat_2_power: "j < 64 \<Longrightarrow> unat ((2 :: u64) ^ j) = 2 ^ j"
proof -
  assume "j < 64"
  then have j: "(2 :: nat) ^ j < 2 ^ 64" by (rule power_strict_increasing) simp
  have "unat ((2 :: u64) ^ j) = unat (of_nat (2 ^ j) :: u64)" by simp
  also have "\<dots> = 2 ^ j mod 2 ^ 64" by (simp only: unat_of_nat) simp
  finally show ?thesis using j by simp
qed

text \<open>The least power of two that is not below the argument.\<close>

lemma roundUp_power:
  assumes "0 < unat v" "unat v \<le> 2 ^ 63"
  shows "\<exists>k \<le> 63. unat (roundUp v) = 2 ^ k \<and> unat v \<le> 2 ^ k \<and> (\<forall>j. unat v \<le> 2 ^ j \<longrightarrow> k \<le> j)"
proof -
  have u: "unat (v - 1) = unat v - 1" using assms(1) by (simp add: unat_sub word_le_nat_alt)
  show ?thesis
  proof (cases "unat v = 1")
    case True
    then have "v - 1 = 0" using u by (simp add: unat_eq_zero)
    then have "roundUp v = 1" by (simp add: roundUp_smear smear_def)
    with True show ?thesis by (intro exI [of _ 0]) simp
  next
    case False
    with assms(1) have "0 < unat v - 1" by simp
    then obtain k where k: "2 ^ k \<le> unat v - 1" "unat v - 1 < 2 ^ Suc k" by (rule power_between)
    have "(2::nat) ^ k < 2 ^ 63" using k(1) assms by linarith
    then have k63: "Suc k \<le> 63" using power_less_imp_less_exp [of "2 :: nat" k 63] by simp
    have "roundUp v = mask (Suc k) + 1"
      using k u k63 by (simp add: roundUp_smear smear_mask del: mask_Suc_double)
    also have "\<dots> = 2 ^ Suc k" by (simp add: mask_eq_exp_minus_1)
    finally have "unat (roundUp v) = 2 ^ Suc k" using k63 unat_2_power [of "Suc k"] by simp
    moreover have "Suc k \<le> j" if "unat v \<le> 2 ^ j" for j
    proof -
      have "(2::nat) ^ k < 2 ^ j" using that k(1) assms(1) by linarith
      then show ?thesis using power_less_imp_less_exp [of "2 :: nat" k j] by simp
    qed
    moreover have "unat v \<le> 2 ^ Suc k" using k(2) by linarith
    ultimately show ?thesis using k63 by blast
  qed
qed

section \<open>The buffer\<close>

definition ErrDisposed :: error where "ErrDisposed = ErrNew ''queue: disposed''"
definition ErrTimeout :: error where "ErrTimeout = ErrNew ''queue: poll timed out''"
definition ErrEmptyQueue :: error where "ErrEmptyQueue = ErrNew ''queue: empty queue''"

record 'a node =
  node_position :: u64
  node_data :: "'a option"       \<comment> \<open>\<open>None\<close> is nil\<close>

record 'a RingBuffer =
  queue :: u64
  dequeue :: u64
  rb_mask :: u64
  disposed :: u64
  nodes :: "'a node list"

definition zero_RingBuffer :: "'a RingBuffer" where
  "zero_RingBuffer = \<lparr>queue = 0, dequeue = 0, rb_mask = 0, disposed = 0, nodes = []\<rparr>"

definition rb_init :: "u64 \<Rightarrow> 'a RingBuffer \<Rightarrow> 'a RingBuffer" where
  "rb_init sz rb =
     (let sz = roundUp sz;
          rb = rb\<lparr>nodes := map (\<lambda>i. \<lparr>node_position = of_nat i, node_data = None\<rparr>) [0..<unat sz]\<rparr>
      in rb\<lparr>rb_mask := sz - 1\<rparr>)"

definition NewRingBuffer :: "u64 \<Rightarrow> 'a RingBuffer" where
  "NewRingBuffer sz = rb_init sz zero_RingBuffer"

text \<open>\<open>atomic.CompareAndSwapUint64\<close> on one of the words of the buffer.\<close>

definition cas :: "('s \<Rightarrow> u64) \<Rightarrow> (u64 \<Rightarrow> 's \<Rightarrow> 's) \<Rightarrow> u64 \<Rightarrow> u64 \<Rightarrow> 's \<Rightarrow> bool \<times> 's" where
  "cas load store old new s = (if load s = old then (True, store new s) else (False, s))"

text \<open>
  One iteration of \<open>put\<close>: \<open>Inl\<close> is a result, \<open>Inr\<close> the position of the next iteration. The statements
  after the loop are part of the iteration that leaves it.
\<close>

definition put_iter :: "'a option \<Rightarrow> bool \<Rightarrow> u64 \<Rightarrow> ('a RingBuffer, bool + u64) go" where
  "put_iter item offer pos rb =
     (if disposed rb = 1 then (Err ErrDisposed, rb)
      else
        (let i = unat (pos AND rb_mask rb)
         in if \<not> i < length (nodes rb) then (Panic IndexOutOfRange, rb)
            else
              (let seq = node_position (nodes rb ! i);
                   dif = seq - pos;
                   again = (\<lambda>pos rb. (Ok (if offer then Inl False else Inr pos), rb))
               in if dif = 0 then
                    (case cas queue (\<lambda>v. queue_update (\<lambda>_. v)) pos (pos + 1) rb of
                       (True, rb) \<Rightarrow>
                         (Ok (Inl True), rb\<lparr>nodes := (nodes rb)[i := \<lparr>node_position = pos + 1, node_data = item\<rparr>]\<rparr>)
                     | (False, rb) \<Rightarrow> again pos rb)
                  else if dif < 0 then
                    (Panic (Explicit ''Ring buffer in a compromised state during a put operation.''), rb)
                  else again (queue rb) rb)))"

primrec put_loop :: "nat \<Rightarrow> 'a option \<Rightarrow> bool \<Rightarrow> u64 \<Rightarrow> 'a RingBuffer \<Rightarrow> (bool res \<times> 'a RingBuffer) option" where
  "put_loop 0 item offer pos rb = None"
| "put_loop (Suc fuel) item offer pos rb =
     (case put_iter item offer pos rb of
        (Ok (Inl b), rb) \<Rightarrow> Some (Ok b, rb)
      | (Ok (Inr pos), rb) \<Rightarrow> put_loop fuel item offer pos rb
      | (Err e, rb) \<Rightarrow> Some (Err e, rb)
      | (Panic p, rb) \<Rightarrow> Some (Panic p, rb))"

definition rb_put :: "nat \<Rightarrow> 'a option \<Rightarrow> bool \<Rightarrow> 'a RingBuffer \<Rightarrow> (bool res \<times> 'a RingBuffer) option" where
  "rb_put fuel item offer rb = put_loop fuel item offer (queue rb) rb"

definition Put :: "nat \<Rightarrow> 'a option \<Rightarrow> 'a RingBuffer \<Rightarrow> (bool res \<times> 'a RingBuffer) option" where
  "Put fuel item rb = rb_put fuel item False rb"

definition Offer :: "nat \<Rightarrow> 'a option \<Rightarrow> 'a RingBuffer \<Rightarrow> (bool res \<times> 'a RingBuffer) option" where
  "Offer fuel item rb = rb_put fuel item True rb"

text \<open>
  One iteration of \<open>Poll\<close>; \<open>expired\<close> says whether the timeout, if there is one, has passed in it.
\<close>

definition poll_iter :: "bool \<Rightarrow> u64 \<Rightarrow> ('a RingBuffer, 'a option + u64) go" where
  "poll_iter expired pos rb =
     (if disposed rb = 1 then (Err ErrDisposed, rb)
      else
        (let i = unat (pos AND rb_mask rb)
         in if \<not> i < length (nodes rb) then (Panic IndexOutOfRange, rb)
            else
              (let seq = node_position (nodes rb ! i);
                   dif = seq - (pos + 1);
                   again = (\<lambda>pos rb. if expired then (Err ErrTimeout, rb) else (Ok (Inr pos), rb))
               in if dif = 0 then
                    (case cas dequeue (\<lambda>v. dequeue_update (\<lambda>_. v)) pos (pos + 1) rb of
                       (True, rb) \<Rightarrow>
                         (Ok (Inl (node_data (nodes rb ! i))),
                          rb\<lparr>nodes := (nodes rb)[i := \<lparr>node_position = pos + rb_mask rb + 1, node_data = None\<rparr>]\<rparr>)
                     | (False, rb) \<Rightarrow> again pos rb)
                  else if dif < 0 then
                    (Panic (Explicit ''Ring buffer in compromised state during a get operation.''), rb)
                  else again (dequeue rb) rb)))"

primrec poll_loop :: "nat \<Rightarrow> (nat \<Rightarrow> bool) \<Rightarrow> u64 \<Rightarrow> 'a RingBuffer \<Rightarrow> ('a option res \<times> 'a RingBuffer) option" where
  "poll_loop 0 expired pos rb = None"
| "poll_loop (Suc fuel) expired pos rb =
     (case poll_iter (expired fuel) pos rb of
        (Ok (Inl x), rb) \<Rightarrow> Some (Ok x, rb)
      | (Ok (Inr pos), rb) \<Rightarrow> poll_loop fuel expired pos rb
      | (Err e, rb) \<Rightarrow> Some (Err e, rb)
      | (Panic p, rb) \<Rightarrow> Some (Panic p, rb))"

definition Poll :: "nat \<Rightarrow> int \<Rightarrow> (nat \<Rightarrow> bool) \<Rightarrow> 'a RingBuffer \<Rightarrow> ('a option res \<times> 'a RingBuffer) option" where
  "Poll fuel timeout clock rb = poll_loop fuel (\<lambda>i. timeout > 0 \<and> clock i) (dequeue rb) rb"

definition Get :: "nat \<Rightarrow> 'a RingBuffer \<Rightarrow> ('a option res \<times> 'a RingBuffer) option" where
  "Get fuel rb = Poll fuel 0 (\<lambda>_. False) rb"

definition Len :: "'a RingBuffer \<Rightarrow> u64" where "Len rb = queue rb - dequeue rb"

definition Cap :: "'a RingBuffer \<Rightarrow> u64" where "Cap rb = of_nat (length (nodes rb))"

definition Dispose :: "'a RingBuffer \<Rightarrow> 'a RingBuffer" where
  "Dispose rb = snd (cas disposed (\<lambda>v. disposed_update (\<lambda>_. v)) 0 1 rb)"

definition IsDisposed :: "'a RingBuffer \<Rightarrow> bool" where "IsDisposed rb \<longleftrightarrow> disposed rb = 1"

section \<open>The queue it holds\<close>

text \<open>
  The node \<open>i\<close> places after the next one to read; a node that holds an item is one position ahead.
\<close>

definition slot :: "'a RingBuffer \<Rightarrow> nat \<Rightarrow> nat" where
  "slot rb i = (unat (dequeue rb) + i) mod length (nodes rb)"

definition rb_inv :: "nat \<Rightarrow> 'a RingBuffer \<Rightarrow> bool" where
  "rb_inv k rb \<longleftrightarrow> 1 \<le> k \<and> k \<le> 63 \<and> length (nodes rb) = 2 ^ k \<and> rb_mask rb = mask k \<and> disposed rb \<noteq> 1
     \<and> unat (Len rb) \<le> 2 ^ k
     \<and> (\<forall>i < 2 ^ k. node_position (nodes rb ! slot rb i)
          = dequeue rb + of_nat i + (if i < unat (Len rb) then 1 else 0))"

definition items :: "'a RingBuffer \<Rightarrow> 'a option list" where
  "items rb = map (\<lambda>i. node_data (nodes rb ! slot rb i)) [0..<unat (Len rb)]"

lemma pow_dvd_64: "k \<le> 63 \<Longrightarrow> (2 :: nat) ^ k dvd 2 ^ 64"
  by (rule le_imp_power_dvd) simp

lemma and_mask_index:
  assumes "k \<le> 63" shows "unat ((d + of_nat i) AND mask k :: u64) = (unat d + i) mod 2 ^ k"
proof -
  have "unat ((d + of_nat i) AND mask k) = unat (d + of_nat i) mod 2 ^ k"
    by (simp only: flip: take_bit_eq_mask) (simp only: unsigned_take_bit_eq take_bit_nat_def)
  also have "unat (d + of_nat i) = (unat d + i) mod 2 ^ 64"
    by (simp add: unat_word_ariths unat_of_nat mod_simps)
  also have "\<dots> mod 2 ^ k = (unat d + i) mod 2 ^ k" by (rule mod_mod_cancel [OF pow_dvd_64 [OF assms]])
  finally show ?thesis .
qed

lemma mod_inj_le:
  assumes "i \<le> j" "j < n" "(d + i) mod n = (d + j) mod (n :: nat)" shows "i = j"
proof -
  have "n dvd (d + j) - (d + i)" using assms(1,3) by (metis mod_eq_dvd_iff_nat add_le_cancel_left)
  then have "n dvd j - i" by simp
  then show ?thesis using assms(1,2) by (auto dest: dvd_imp_le)
qed

lemma mod_inj: "i < n \<Longrightarrow> j < n \<Longrightarrow> (d + i) mod n = (d + j) mod (n :: nat) \<Longrightarrow> i = j"
  using mod_inj_le [of i j n d] mod_inj_le [of j i n d] by (metis nat_le_linear)

lemma slot_inj: "rb_inv k rb \<Longrightarrow> i < 2 ^ k \<Longrightarrow> j < 2 ^ k \<Longrightarrow> slot rb i = slot rb j \<longleftrightarrow> i = j"
  unfolding rb_inv_def slot_def using mod_inj [of i "2 ^ k" j] by auto

lemma slot_index: "rb_inv k rb \<Longrightarrow> unat ((dequeue rb + of_nat i) AND rb_mask rb) = slot rb i"
  by (simp add: rb_inv_def slot_def and_mask_index)

lemma slot_less: "rb_inv k rb \<Longrightarrow> slot rb i < length (nodes rb)"
  by (simp add: rb_inv_def slot_def)

lemma queue_position: "queue rb = dequeue rb + of_nat (unat (Len rb))"
  by (simp add: Len_def)

lemma len_word: "rb_inv k rb \<Longrightarrow> i < 2 ^ k \<Longrightarrow> (of_nat i :: u64) = 0 \<longleftrightarrow> i = 0"
proof -
  assume "rb_inv k rb" "i < 2 ^ k"
  moreover from this have "(2 :: nat) ^ k \<le> 2 ^ 63" by (intro power_increasing) (auto simp: rb_inv_def)
  ultimately show ?thesis by (simp add: word_unat_eq_iff unat_of_nat)
qed

lemma Len_plus:
  assumes "rb_inv k rb" "queue t = queue rb + 1" "dequeue t = dequeue rb" "unat (Len rb) < 2 ^ k"
  shows "unat (Len t) = Suc (unat (Len rb))"
proof -
  have "(2 :: nat) ^ k \<le> 2 ^ 63" using assms(1) by (intro power_increasing) (auto simp: rb_inv_def)
  moreover have "Len t = Len rb + 1" using assms(2,3) by (simp add: Len_def)
  ultimately show ?thesis using assms(4) by (simp add: unat_word_ariths)
qed

lemma Len_minus:
  assumes "queue t = queue rb" "dequeue t = dequeue rb + 1" "0 < unat (Len rb)"
  shows "unat (Len t) = unat (Len rb) - 1"
proof -
  have "Len t = Len rb - 1" using assms(1,2) by (simp add: Len_def)
  then show ?thesis using assms(3) by (simp add: unat_sub word_le_nat_alt)
qed

lemma items_eq:
  "(\<And>j. j < unat (Len t) \<Longrightarrow> node_data (nodes t ! slot t j) = f j) \<Longrightarrow> items t = map f [0..<unat (Len t)]"
  by (simp add: items_def)

text \<open>A put with room appends, and a put without finds the oldest node still taken.\<close>

lemma put_iter_room:
  assumes inv: "rb_inv k rb" and room: "unat (Len rb) < 2 ^ k"
  shows "\<exists>t. put_iter x offer (queue rb) rb = (Ok (Inl True), t) \<and> rb_inv k t \<and> items t = items rb @ [x]"
proof -
  let ?n = "unat (Len rb)" let ?i = "slot rb ?n"
  let ?t = "rb\<lparr>queue := queue rb + 1, nodes := (nodes rb)[?i := \<lparr>node_position = queue rb + 1, node_data = x\<rparr>]\<rparr>"
  have i: "unat (queue rb AND rb_mask rb) = ?i" using slot_index [OF inv, of ?n] queue_position [of rb] by simp
  have il: "?i < length (nodes rb)" by (rule slot_less [OF inv])
  have "node_position (nodes rb ! ?i) = dequeue rb + of_nat ?n"
    using inv room by (auto simp: rb_inv_def)
  then have pos: "node_position (nodes rb ! ?i) = queue rb" using queue_position [of rb] by simp
  have r: "put_iter x offer (queue rb) rb = (Ok (Inl True), ?t)"
    using inv i il pos by (simp add: put_iter_def rb_inv_def cas_def Let_def)
  have n: "unat (Len ?t) = Suc ?n" by (rule Len_plus [OF inv _ _ room]) simp_all
  have sl: "slot ?t j = slot rb j" for j by (simp add: slot_def)
  have at: "nodes ?t ! slot ?t j = (if j = ?n then \<lparr>node_position = queue rb + 1, node_data = x\<rparr> else nodes rb ! slot rb j)"
    if "j < 2 ^ k" for j
  proof (cases "j = ?n")
    case False
    then have "?i \<noteq> slot rb j" using slot_inj [OF inv that room] by metis
    with False show ?thesis by (simp add: sl)
  qed (use il in \<open>simp add: sl\<close>)
  have "rb_inv k ?t"
    unfolding rb_inv_def n
  proof (intro conjI allI impI)
    fix j :: nat assume j: "j < 2 ^ k"
    show "node_position (nodes ?t ! slot ?t j) = dequeue ?t + of_nat j + (if j < Suc ?n then 1 else 0)"
      using inv j queue_position [of rb] unfolding at [OF j] by (auto simp: rb_inv_def less_Suc_eq)
  qed (use inv room in \<open>simp_all add: rb_inv_def\<close>)
  moreover have "items ?t = map (\<lambda>j. if j = ?n then x else node_data (nodes rb ! slot rb j)) [0..<unat (Len ?t)]"
  proof (rule items_eq)
    fix j assume "j < unat (Len ?t)"
    with n room have "j < 2 ^ k" by linarith
    from at [OF this] show "node_data (nodes ?t ! slot ?t j) = (if j = ?n then x else node_data (nodes rb ! slot rb j))"
      by simp
  qed
  then have "items ?t = items rb @ [x]" unfolding n by (simp add: items_def)
  ultimately show ?thesis using r by blast
qed

lemma put_iter_full:
  assumes inv: "rb_inv k rb" and full: "unat (Len rb) = 2 ^ k"
  shows "put_iter x offer (queue rb) rb = (Ok (if offer then Inl False else Inr (queue rb)), rb)"
proof -
  have i: "unat (queue rb AND rb_mask rb) = slot rb (2 ^ k)"
    using slot_index [OF inv, of "2 ^ k"] queue_position [of rb] full by simp
  also have "\<dots> = slot rb 0" using inv by (simp add: slot_def rb_inv_def)
  finally have i0: "unat (queue rb AND rb_mask rb) = slot rb 0" .
  have "node_position (nodes rb ! slot rb 0) = dequeue rb + 1"
    using inv full by (auto simp: rb_inv_def)
  moreover have "queue rb = dequeue rb + of_nat (2 ^ k)" using queue_position [of rb] full by simp
  moreover have "(of_nat (2 ^ k) :: u64) \<noteq> 1"
  proof -
    have "1 \<le> k" "k \<le> 63" using inv by (auto simp: rb_inv_def)
    then have "unat (of_nat (2 ^ k) :: u64) = 2 ^ k" "(2 :: nat) ^ k \<noteq> 1"
      using unat_2_power [of k] by auto
    then show ?thesis by (metis unat_1)
  qed
  ultimately have "node_position (nodes rb ! slot rb 0) - queue rb \<noteq> 0" by simp
  then show ?thesis
    using inv i0 slot_less [OF inv, of 0] by (simp add: put_iter_def rb_inv_def Let_def)
qed

lemma poll_iter_some:
  assumes inv: "rb_inv k rb" and some: "items rb = x # xs"
  shows "\<exists>t. poll_iter expired (dequeue rb) rb = (Ok (Inl x), t) \<and> rb_inv k t \<and> items t = xs"
proof -
  let ?n = "unat (Len rb)" let ?i = "slot rb 0"
  have n0: "0 < ?n" using some by (cases ?n) (auto simp: items_def)
  have k0: "(0 :: nat) < 2 ^ k" by simp
  let ?t = "rb\<lparr>dequeue := dequeue rb + 1,
    nodes := (nodes rb)[?i := \<lparr>node_position = dequeue rb + rb_mask rb + 1, node_data = None\<rparr>]\<rparr>"
  have i: "unat (dequeue rb AND rb_mask rb) = ?i" using slot_index [OF inv, of 0] by simp
  have il: "?i < length (nodes rb)" by (rule slot_less [OF inv])
  have pos: "node_position (nodes rb ! ?i) = dequeue rb + 1"
    using inv n0 k0 by (auto simp: rb_inv_def)
  have x: "node_data (nodes rb ! ?i) = x"
    using some n0 by (simp add: items_def upt_conv_Cons)
  have r: "poll_iter expired (dequeue rb) rb = (Ok (Inl x), ?t)"
    using inv i il pos x by (simp add: poll_iter_def rb_inv_def cas_def Let_def)
  have n: "unat (Len ?t) = ?n - 1" by (rule Len_minus [OF _ _ n0]) simp_all
  have len: "length (nodes rb) = 2 ^ k" and k: "k \<le> 63" using inv by (auto simp: rb_inv_def)
  have sl: "slot ?t j = slot rb (Suc j)" for j
  proof -
    have "unat (dequeue rb + 1) mod 2 ^ k = (unat (dequeue rb) + 1) mod 2 ^ k"
      using and_mask_index [OF k, of "dequeue rb + 1" 0] and_mask_index [OF k, of "dequeue rb" 1] by simp
    then have "(unat (dequeue rb + 1) + j) mod 2 ^ k = (unat (dequeue rb) + 1 + j) mod 2 ^ k"
      by (metis mod_add_left_eq)
    then show ?thesis by (simp add: slot_def len)
  qed
  have last: "slot rb (2 ^ k) = ?i" by (simp add: slot_def len)
  have at: "nodes ?t ! slot ?t j = (if Suc j = 2 ^ k then \<lparr>node_position = dequeue rb + rb_mask rb + 1, node_data = None\<rparr>
      else nodes rb ! slot rb (Suc j))" if "j < 2 ^ k" for j
  proof (cases "Suc j = 2 ^ k")
    case True
    then show ?thesis using il last by (simp add: sl)
  next
    case False
    with that have "Suc j < 2 ^ k" by simp
    then have "slot rb (Suc j) \<noteq> ?i" using slot_inj [OF inv _ k0] by blast
    with False show ?thesis by (simp add: sl)
  qed
  have wrap: "(mask k :: u64) + 1 = of_nat (2 ^ k)" by (simp add: mask_eq_exp_minus_1)
  have "rb_inv k ?t"
    unfolding rb_inv_def n
  proof (intro conjI allI impI)
    fix j :: nat assume j: "j < 2 ^ k"
    show "node_position (nodes ?t ! slot ?t j) = dequeue ?t + of_nat j + (if j < ?n - 1 then 1 else 0)"
    proof (cases "Suc j = 2 ^ k")
      case True
      have "?n \<le> 2 ^ k" using inv by (simp add: rb_inv_def)
      with True have "\<not> j < ?n - 1" by linarith
      moreover have "dequeue rb + rb_mask rb + 1 = dequeue rb + of_nat (Suc j)"
        using inv wrap True by (simp add: rb_inv_def add.assoc)
      moreover have "(1 + of_nat j :: u64) = 2 ^ k"
        using True by (metis of_nat_Suc of_nat_numeral of_nat_power)
      ultimately show ?thesis unfolding at [OF j] using True by simp
    next
      case False
      with j have "Suc j < 2 ^ k" by simp
      with inv have "node_position (nodes rb ! slot rb (Suc j)) = dequeue rb + of_nat (Suc j) + (if Suc j < ?n then 1 else 0)"
        by (simp add: rb_inv_def)
      with False show ?thesis unfolding at [OF j] by auto
    qed
  qed (use inv in \<open>auto simp: rb_inv_def\<close>)
  moreover have "items ?t = xs"
  proof -
    have le: "?n \<le> 2 ^ k" using inv by (simp add: rb_inv_def)
    have "xs = map (\<lambda>i. node_data (nodes rb ! slot rb i)) [1..<?n]"
      using some n0 by (simp add: items_def upt_conv_Cons)
    also have "\<dots> = map (\<lambda>i. node_data (nodes rb ! slot rb (Suc i))) [0..<?n - 1]"
      using n0 by (intro nth_equalityI) auto
    also have "\<dots> = items ?t"
    proof (unfold n [symmetric], rule items_eq [symmetric])
      fix j assume "j < unat (Len ?t)"
      with n le n0 have "j < 2 ^ k" "Suc j \<noteq> 2 ^ k" by linarith+
      with at show "node_data (nodes ?t ! slot ?t j) = node_data (nodes rb ! slot rb (Suc j))" by presburger
    qed
    finally show ?thesis by simp
  qed
  ultimately show ?thesis using r by blast
qed

lemma poll_iter_empty:
  assumes inv: "rb_inv k rb" and none: "items rb = []"
  shows "poll_iter expired (dequeue rb) rb
    = (if expired then Err ErrTimeout else Ok (Inr (dequeue rb)), rb)"
proof -
  have n0: "unat (Len rb) = 0" using none by (simp add: items_def)
  have i: "unat (dequeue rb AND rb_mask rb) = slot rb 0" using slot_index [OF inv, of 0] by simp
  have "node_position (nodes rb ! slot rb 0) = dequeue rb"
    using inv n0 by (auto simp: rb_inv_def)
  then have "node_position (nodes rb ! slot rb 0) - (dequeue rb + 1) \<noteq> 0" by simp
  then show ?thesis
    using inv i slot_less [OF inv, of 0] by (simp add: poll_iter_def rb_inv_def Let_def)
qed

lemma rb_inv_new:
  assumes "2 \<le> unat sz" "unat sz \<le> 2 ^ 63"
  shows "\<exists>k. unat (roundUp sz) = 2 ^ k \<and> rb_inv k (NewRingBuffer sz :: 'a RingBuffer)
    \<and> items (NewRingBuffer sz :: 'a RingBuffer) = []"
proof -
  let ?rb = "NewRingBuffer sz :: 'a RingBuffer"
  obtain k where k: "k \<le> 63" "unat (roundUp sz) = 2 ^ k" "unat sz \<le> 2 ^ k"
    using roundUp_power [of sz] assms by auto
  have k1: "1 \<le> k" using k(3) assms(1) by (cases k) auto
  have r: "roundUp sz = 2 ^ k"
    using k(1,2) unat_2_power [of k] by (simp add: word_unat_eq_iff)
  have l: "Len ?rb = 0"
    by (simp add: NewRingBuffer_def rb_init_def zero_RingBuffer_def Len_def Let_def)
  have "rb_inv k ?rb"
    unfolding rb_inv_def l using k k1 r
    by (auto simp: NewRingBuffer_def rb_init_def zero_RingBuffer_def slot_def Let_def mask_eq_exp_minus_1)
  with k(2) l show ?thesis by (auto simp: items_def)
qed

section \<open>The queue interface\<close>

text \<open>
  What a client of a bounded queue relies on. A call has no value when it has not returned within its
  fuel. With room an item goes to the back, without it the offer is refused and nothing changes; the
  front item comes off; on an empty queue a poll returns the timeout error once its clock says so, and
  does not return before.
\<close>

locale bounded_fifo =
  fixes inv :: "'s \<Rightarrow> bool" and content :: "'s \<Rightarrow> 'v list" and capacity :: nat and timed_out :: error
    and enq :: "nat \<Rightarrow> 'v \<Rightarrow> 's \<Rightarrow> (bool res \<times> 's) option"
    and deq :: "nat \<Rightarrow> int \<Rightarrow> (nat \<Rightarrow> bool) \<Rightarrow> 's \<Rightarrow> ('v res \<times> 's) option"
  assumes content_bound: "inv s \<Longrightarrow> length (content s) \<le> capacity"
    and enq_room: "inv s \<Longrightarrow> length (content s) < capacity \<Longrightarrow> 0 < fuel \<Longrightarrow>
      \<exists>t. enq fuel x s = Some (Ok True, t) \<and> inv t \<and> content t = content s @ [x]"
    and enq_full: "inv s \<Longrightarrow> length (content s) = capacity \<Longrightarrow> 0 < fuel \<Longrightarrow> enq fuel x s = Some (Ok False, s)"
    and deq_some: "inv s \<Longrightarrow> content s = x # xs \<Longrightarrow> 0 < fuel \<Longrightarrow>
      \<exists>t. deq fuel timeout clock s = Some (Ok x, t) \<and> inv t \<and> content t = xs"
    and deq_timeout: "inv s \<Longrightarrow> content s = [] \<Longrightarrow> 0 < timeout \<Longrightarrow> i < fuel \<Longrightarrow> clock i \<Longrightarrow>
      deq fuel timeout clock s = Some (Err timed_out, s)"
    and deq_waits: "inv s \<Longrightarrow> content s = [] \<Longrightarrow> timeout \<le> 0 \<or> (\<forall>i < fuel. \<not> clock i) \<Longrightarrow>
      deq fuel timeout clock s = None"

text \<open>
  Operations on a queue with the fuel, the timeout and the clock of each, and what they return, up to
  the first one that does not; and the queue on lists they are to be compared with.
\<close>

datatype 'v qop = Enq nat 'v | Deq nat int "nat \<Rightarrow> bool"

primrec in_time :: "'v qop \<Rightarrow> bool" where
  "in_time (Enq fuel x) \<longleftrightarrow> 0 < fuel"
| "in_time (Deq fuel timeout clock) \<longleftrightarrow> 0 < timeout \<and> (\<exists>i < fuel. clock i)"

primrec run_op :: "(nat \<Rightarrow> 'v \<Rightarrow> 's \<Rightarrow> (bool res \<times> 's) option)
    \<Rightarrow> (nat \<Rightarrow> int \<Rightarrow> (nat \<Rightarrow> bool) \<Rightarrow> 's \<Rightarrow> ('v res \<times> 's) option)
    \<Rightarrow> 'v qop \<Rightarrow> 's \<Rightarrow> ((bool res + 'v res) \<times> 's) option" where
  "run_op enq deq (Enq fuel x) s = map_option (map_prod Inl id) (enq fuel x s)"
| "run_op enq deq (Deq fuel timeout clock) s = map_option (map_prod Inr id) (deq fuel timeout clock s)"

primrec run_ops :: "(nat \<Rightarrow> 'v \<Rightarrow> 's \<Rightarrow> (bool res \<times> 's) option)
    \<Rightarrow> (nat \<Rightarrow> int \<Rightarrow> (nat \<Rightarrow> bool) \<Rightarrow> 's \<Rightarrow> ('v res \<times> 's) option)
    \<Rightarrow> 'v qop list \<Rightarrow> 's \<Rightarrow> ((bool res + 'v res) list \<times> 's) option" where
  "run_ops enq deq [] s = Some ([], s)"
| "run_ops enq deq (q # qs) s =
     Option.bind (run_op enq deq q s) (\<lambda>(r, t). map_option (map_prod ((#) r) id) (run_ops enq deq qs t))"

primrec list_op :: "nat \<Rightarrow> error \<Rightarrow> 'v qop \<Rightarrow> 'v list \<Rightarrow> (bool res + 'v res) \<times> 'v list" where
  "list_op cap err (Enq fuel x) xs = (if length xs < cap then (Inl (Ok True), xs @ [x]) else (Inl (Ok False), xs))"
| "list_op cap err (Deq fuel timeout clock) xs =
     (case xs of [] \<Rightarrow> (Inr (Err err), []) | y # ys \<Rightarrow> (Inr (Ok y), ys))"

primrec list_ops :: "nat \<Rightarrow> error \<Rightarrow> 'v qop list \<Rightarrow> 'v list \<Rightarrow> (bool res + 'v res) list \<times> 'v list" where
  "list_ops cap err [] xs = ([], xs)"
| "list_ops cap err (q # qs) xs = (case list_op cap err q xs of (r, ys) \<Rightarrow> map_prod ((#) r) id (list_ops cap err qs ys))"

context bounded_fifo
begin

lemma op_refines:
  assumes "inv s" "in_time q"
  shows "\<exists>t. run_op enq deq q s = Some (fst (list_op capacity timed_out q (content s)), t) \<and> inv t
    \<and> content t = snd (list_op capacity timed_out q (content s))"
proof (cases q)
  case (Enq fuel x)
  with assms enq_room [of s fuel x] enq_full [of s fuel x] content_bound [of s] show ?thesis
    by (cases "length (content s) < capacity") auto
next
  case (Deq fuel timeout clock)
  with assms(2) obtain i where i: "0 < timeout" "i < fuel" "clock i" by auto
  show ?thesis
  proof (cases "content s")
    case Nil
    with deq_timeout [of s timeout i fuel clock] assms(1) i Deq show ?thesis by simp
  next
    case (Cons y ys)
    with deq_some [of s y ys fuel timeout clock] assms(1) i Deq show ?thesis by auto
  qed
qed

lemma ops_refine:
  "inv s \<Longrightarrow> \<forall>q \<in> set qs. in_time q \<Longrightarrow>
    \<exists>t. run_ops enq deq qs s = Some (fst (list_ops capacity timed_out qs (content s)), t) \<and> inv t
      \<and> content t = snd (list_ops capacity timed_out qs (content s))"
proof (induction qs arbitrary: s)
  case (Cons q qs)
  from op_refines [OF Cons.prems(1), of q] Cons.prems(2) obtain t where
    t: "run_op enq deq q s = Some (fst (list_op capacity timed_out q (content s)), t)" "inv t"
      "content t = snd (list_op capacity timed_out q (content s))" by auto
  from Cons.IH [OF t(2)] Cons.prems(2) obtain u where
    "run_ops enq deq qs t = Some (fst (list_ops capacity timed_out qs (content t)), u)" "inv u"
      "content u = snd (list_ops capacity timed_out qs (content t))" by auto
  with t show ?case by (simp add: split_beta)
qed simp

end

lemma length_items [simp]: "length (items rb) = unat (Len rb)"
  by (simp add: items_def)

text \<open>An empty buffer as a poll sees it: each iteration waits, until the clock says the time has passed.\<close>

lemma poll_loop_waits:
  assumes "rb_inv k rb" "items rb = []" "\<forall>i < fuel. \<not> expired i"
  shows "poll_loop fuel expired (dequeue rb) rb = None"
  using assms(3) by (induction fuel) (simp_all add: poll_iter_empty [OF assms(1,2)])

lemma poll_loop_expires:
  assumes "rb_inv k rb" "items rb = []" "i < fuel" "expired i"
  shows "poll_loop fuel expired (dequeue rb) rb = Some (Err ErrTimeout, rb)"
  using assms(3) by (induction fuel) (use assms(4) in \<open>auto simp: poll_iter_empty [OF assms(1,2)] less_Suc_eq\<close>)

interpretation ring: bounded_fifo "rb_inv k" items "2 ^ k" ErrTimeout Offer Poll for k
proof unfold_locales
  fix s :: "'a RingBuffer" and x fuel timeout clock
  assume inv: "rb_inv k s"
  then show "length (items s) \<le> 2 ^ k" by (simp add: rb_inv_def)
  show "\<exists>t. Offer fuel x s = Some (Ok True, t) \<and> rb_inv k t \<and> items t = items s @ [x]"
    if "length (items s) < 2 ^ k" "0 < fuel"
    using put_iter_room [OF inv, of x True] that by (cases fuel) (auto simp: Offer_def rb_put_def)
  show "Offer fuel x s = Some (Ok False, s)" if "length (items s) = 2 ^ k" "0 < fuel"
    using put_iter_full [OF inv, of x True] that by (cases fuel) (simp_all add: Offer_def rb_put_def)
  show "\<exists>t. Poll fuel timeout clock s = Some (Ok y, t) \<and> rb_inv k t \<and> items t = ys"
    if "items s = y # ys" "0 < fuel" for y ys
  proof -
    from that(2) obtain f where f: "fuel = Suc f" by (cases fuel) auto
    show ?thesis using poll_iter_some [OF inv that(1), of "timeout > 0 \<and> clock f"] by (auto simp: f Poll_def)
  qed
  show "Poll fuel timeout clock s = Some (Err ErrTimeout, s)" if "items s = []" "0 < timeout" "i < fuel" "clock i" for i
    using poll_loop_expires [OF inv that(1,3)] that by (simp add: Poll_def)
  show "Poll fuel timeout clock s = None" if "items s = []" "timeout \<le> 0 \<or> (\<forall>i < fuel. \<not> clock i)"
    using poll_loop_waits [OF inv that(1)] that(2) by (auto simp: Poll_def)
qed

section \<open>Properties\<close>

text \<open>C36: rounding up. For sizes from 1 to \<open>2 ^ 63\<close> the result is the least power of two that is not
  smaller.\<close>

theorem roundUp_least_power:
  assumes "0 < sz" "sz \<le> 2 ^ 63"
  shows "\<exists>k \<le> 63. unat (roundUp sz) = 2 ^ k \<and> unat sz \<le> 2 ^ k \<and> (\<forall>j. unat sz \<le> 2 ^ j \<longrightarrow> k \<le> j)"
proof (rule roundUp_power)
  show "0 < unat sz" using assms(1) by (simp add: word_less_nat_alt)
  have "unat sz \<le> unat ((2 :: u64) ^ 63)" using assms(2) by (simp only: word_le_nat_alt)
  then show "unat sz \<le> 2 ^ 63" by (simp only: unat_2_power)
qed

theorem roundUp_least_power_witness:
  "\<exists>k \<le> 63. unat (roundUp 100) = 2 ^ k \<and> unat (100 :: u64) \<le> 2 ^ k \<and> (\<forall>j. unat (100 :: u64) \<le> 2 ^ j \<longrightarrow> k \<le> j)"
  by (rule roundUp_least_power) simp_all

text \<open>C16: a ring buffer of size two or more is a bounded first-in first-out queue. Any sequence of offers, and
  of polls with a positive timeout that passes, made on a new buffer by one goroutine returns, and each
  call returns what it does on a list with room for the size rounded up to a power of two: an offer true
  or, on a full buffer, false; a poll the oldest item or, on an empty buffer, \<open>ErrTimeout\<close>. The items left are
  the same.\<close>

theorem ring_is_fifo:
  fixes qs :: "'a option qop list"
  assumes "2 \<le> unat sz" "unat sz \<le> 2 ^ 63" "\<forall>q \<in> set qs. in_time q"
  shows "\<exists>rb. run_ops Offer Poll qs (NewRingBuffer sz)
      = Some (fst (list_ops (unat (roundUp sz)) ErrTimeout qs []), rb)
    \<and> items rb = snd (list_ops (unat (roundUp sz)) ErrTimeout qs [])"
proof -
  obtain k where k: "unat (roundUp sz) = 2 ^ k" "rb_inv k (NewRingBuffer sz :: 'a RingBuffer)"
    "items (NewRingBuffer sz :: 'a RingBuffer) = []"
    using rb_inv_new [OF assms(1,2)] by blast
  from ring.ops_refine [OF k(2) assms(3)] show ?thesis unfolding k(1,3) by blast
qed

theorem ring_is_fifo_witness:
  "\<exists>rb. run_ops Offer Poll [Enq 1 (Some 1), Enq 1 (Some 2), Enq 9 (Some 3), Deq 1 5 (\<lambda>_. True), Deq 2 5 (\<lambda>i. i = 0),
      Deq 3 5 (\<lambda>i. i = 1)] (NewRingBuffer 2)
    = Some ([Inl (Ok True), Inl (Ok True), Inl (Ok False), Inr (Ok (Some (1 :: nat))), Inr (Ok (Some 2)),
        Inr (Err ErrTimeout)], rb) \<and> items rb = []"
proof -
  let ?qs = "[Enq 1 (Some (1 :: nat)), Enq 1 (Some 2), Enq 9 (Some 3), Deq 1 5 (\<lambda>_. True), Deq 2 5 (\<lambda>i. i = 0),
      Deq 3 5 (\<lambda>i. i = 1)]"
  have "unat (roundUp 2) = 2" by (simp add: roundUp_def Let_def)
  moreover have "\<forall>q \<in> set ?qs. in_time q" by auto
  ultimately show ?thesis using ring_is_fifo [of 2 ?qs] by simp
qed

text \<open>C35: a ring buffer of size one loses items and then blocks. It accepts a second item while it holds
  the first, and after that no \<open>Get\<close> returns, however long it runs.\<close>

theorem ring_of_one_blocks:
  "\<exists>rb1 rb2. Offer (Suc f) (Some x) (NewRingBuffer 1) = Some (Ok True, rb1)
    \<and> Offer (Suc g) (Some y) rb1 = Some (Ok True, rb2) \<and> Len rb2 = 2 \<and> Cap rb2 = 1
    \<and> (\<forall>fuel. Get fuel rb2 = None)"
proof -
  let ?rb = "\<lambda>q p d. \<lparr>queue = q, dequeue = 0, rb_mask = 0, disposed = 0,
    nodes = [\<lparr>node_position = p, node_data = d\<rparr>]\<rparr>"
  have "(NewRingBuffer 1 :: 'a RingBuffer) = ?rb 0 0 None"
    by (simp add: NewRingBuffer_def rb_init_def zero_RingBuffer_def roundUp_def Let_def)
  then have 1: "Offer (Suc f) (Some x) (NewRingBuffer 1) = Some (Ok True, ?rb 1 1 (Some x))"
    by (simp add: Offer_def rb_put_def put_iter_def cas_def Let_def)
  have 2: "Offer (Suc g) (Some y) (?rb 1 1 (Some x)) = Some (Ok True, ?rb 2 2 (Some y))"
    by (simp add: Offer_def rb_put_def put_iter_def cas_def Let_def)
  have "poll_loop fuel (\<lambda>_. False) 0 (?rb 2 2 (Some y)) = None" for fuel
    by (induction fuel) (simp_all add: poll_iter_def Let_def)
  then have "Get fuel (?rb 2 2 (Some y)) = None" for fuel by (simp add: Get_def Poll_def)
  with 1 2 show ?thesis by (auto simp: Len_def Cap_def)
qed

text \<open>C34: blocking calls on a healthy buffer. \<open>Put\<close> on a full buffer and \<open>Get\<close> on an empty one do not return,
  whatever fuel they are given; with room or an item, the first iteration is enough.\<close>

theorem ring_blocking:
  assumes "rb_inv k rb"
  shows "(unat (Len rb) = 2 ^ k \<longrightarrow> (\<forall>fuel. Put fuel x rb = None))
    \<and> (items rb = [] \<longrightarrow> (\<forall>fuel. Get fuel rb = None))
    \<and> (unat (Len rb) < 2 ^ k \<longrightarrow> (\<forall>fuel. \<exists>t. Put (Suc fuel) x rb = Some (Ok True, t) \<and> items t = items rb @ [x]))
    \<and> (items rb = y # ys \<longrightarrow> (\<forall>fuel. \<exists>t. Get (Suc fuel) rb = Some (Ok y, t) \<and> items t = ys))"
proof (intro conjI impI allI)
  fix fuel
  show "Put fuel x rb = None" if "unat (Len rb) = 2 ^ k"
    using put_iter_full [OF assms that, of x False] unfolding Put_def rb_put_def
    by (induction fuel) simp_all
  show "Get fuel rb = None" if "items rb = []"
    using poll_iter_empty [OF assms that, of False] unfolding Get_def Poll_def
    by (induction fuel) simp_all
  show "\<exists>t. Put (Suc fuel) x rb = Some (Ok True, t) \<and> items t = items rb @ [x]" if "unat (Len rb) < 2 ^ k"
    using put_iter_room [OF assms that, of x False] by (auto simp: Put_def rb_put_def)
  show "\<exists>t. Get (Suc fuel) rb = Some (Ok y, t) \<and> items t = ys" if "items rb = y # ys"
    using poll_iter_some [OF assms that, of False] by (auto simp: Get_def Poll_def)
qed

theorem ring_blocking_witness:
  "\<exists>rb :: nat RingBuffer. items rb = [] \<and> (\<forall>fuel. Get fuel rb = None)"
proof -
  obtain k where "rb_inv k (NewRingBuffer 4 :: nat RingBuffer)" "items (NewRingBuffer 4 :: nat RingBuffer) = []"
    using rb_inv_new [of 4] by auto
  then show ?thesis using ring_blocking [of k "NewRingBuffer 4"] by blast
qed

text \<open>The consistency check of the loops is dead code. The difference of two unsigned positions is never
  below zero, so neither \<open>put\<close> nor \<open>Poll\<close> panics with the message of that check in any state.\<close>

lemma ring_check_is_dead:
  "put_iter item offer pos rb \<noteq> (Panic (Explicit m), t) \<and> poll_iter expired pos rb \<noteq> (Panic (Explicit m), t)"
  by (auto simp: put_iter_def poll_iter_def cas_def Let_def)

end
