(* ===== verification/Session_Broker.thy ===== *)
theory Session_Broker
  imports Av_Flv
begin

text \<open>
  Publishing sessions and the broker that keeps them (\<open>pkg/rtmp/server/session.go\<close>, \<open>broker.go\<close>,
  \<open>utils.go\<close>). Sessions and connections are pointers: a session is the number of its cell in
  \<open>sess_heap\<close>, a connection or a player a number of its own. A session starts one \<open>checkOffline\<close>
  goroutine, whose progress is \<open>watch\<close>; the channel \<open>offline\<close> has room for one token.

  The operations are functions of the broker's state. What runs concurrently, publishers that come and
  go, the goroutine and its timer, is the step relation \<open>broker_step\<close>.
\<close>

section \<open>Names\<close>

definition genStreamKey :: "string \<Rightarrow> string \<Rightarrow> string \<Rightarrow> string" where
  "genStreamKey vhost appName streamName = vhost @ ''/'' @ appName @ ''/'' @ streamName"

definition parseVhost :: "string \<Rightarrow> string res" where
  "parseVhost tcUrl = Ok ''127.0.0.1''"

section \<open>Sessions\<close>

record session =
  sess_id :: string
  sess_vhost :: string
  appName :: string
  streamName :: string
  publisher :: "nat option"
  players :: "string \<Rightarrow> nat option"
  offline :: "nat option"             \<comment> \<open>tokens in the channel; \<open>None\<close>: no channel yet\<close>
  sess_broker :: bool                 \<comment> \<open>\<open>s.broker != nil\<close>\<close>
  streamKey :: string
  metaData :: "av_packet option"
  audioSeqHeader :: "av_packet option"
  videoSeqHeader :: "av_packet option"

definition zero_session :: session where
  "zero_session = \<lparr>sess_id = [], sess_vhost = [], appName = [], streamName = [], publisher = None,
     players = Map.empty, offline = None, sess_broker = False, streamKey = [], metaData = None,
     audioSeqHeader = None, videoSeqHeader = None\<rparr>"

definition errSessionId :: error where "errSessionId = ErrNew ''session id required''"
definition errSessionVhost :: error where "errSessionVhost = ErrNew ''session belongs to vhost required''"
definition errSessionAppName :: error where "errSessionAppName = ErrNew ''session belongs to appName required''"
definition errSessionStreamName :: error where
  "errSessionStreamName = ErrNew ''session belongs to streamName required''"
definition errSessionStreamKey :: error where
  "errSessionStreamKey = ErrNew ''session belongs to streamKey required''"
definition errSessionBroker :: error where "errSessionBroker = ErrNew ''session belongs to broker required''"
definition errSessionPublisher :: error where "errSessionPublisher = ErrNew ''session publisher required''"

lemmas session_errors = errSessionId_def errSessionVhost_def errSessionAppName_def
  errSessionStreamName_def errSessionStreamKey_def errSessionBroker_def errSessionPublisher_def

definition WithSessionId :: "string \<Rightarrow> session \<Rightarrow> session" where "WithSessionId i s = s\<lparr>sess_id := i\<rparr>"
definition WithSessionVhost :: "string \<Rightarrow> session \<Rightarrow> session" where "WithSessionVhost v s = s\<lparr>sess_vhost := v\<rparr>"
definition WithSessionAppName :: "string \<Rightarrow> session \<Rightarrow> session" where "WithSessionAppName a s = s\<lparr>appName := a\<rparr>"
definition WithSessionStreamName :: "string \<Rightarrow> session \<Rightarrow> session" where
  "WithSessionStreamName n s = s\<lparr>streamName := n\<rparr>"
definition WithSessionPublisher :: "nat option \<Rightarrow> session \<Rightarrow> session" where
  "WithSessionPublisher p s = s\<lparr>publisher := p\<rparr>"
definition WithSessionBroker :: "bool \<Rightarrow> session \<Rightarrow> session" where "WithSessionBroker b s = s\<lparr>sess_broker := b\<rparr>"
definition WithSessionStreamKey :: "string \<Rightarrow> session \<Rightarrow> session" where
  "WithSessionStreamKey k s = s\<lparr>streamKey := k\<rparr>"

lemmas session_options = WithSessionId_def WithSessionVhost_def WithSessionAppName_def
  WithSessionStreamName_def WithSessionPublisher_def WithSessionBroker_def WithSessionStreamKey_def

text \<open>
  The second result says whether \<open>go s.checkOffline()\<close> was started, which happens before the last two
  checks.
\<close>

definition session_loadOptions :: "(session \<Rightarrow> session) list \<Rightarrow> session \<Rightarrow> session res \<times> bool" where
  "session_loadOptions opts s0 =
     (let s = fold (\<lambda>opt x. opt x) opts s0
      in if sess_id s = [] then (Err errSessionId, False)
         else if sess_vhost s = [] then (Err errSessionVhost, False)
         else if appName s = [] then (Err errSessionAppName, False)
         else if streamName s = [] then (Err errSessionStreamName, False)
         else if publisher s = None then (Err errSessionPublisher, False)
         else
           (let started = (offline s = None);
                s = (if offline s = None then s\<lparr>offline := Some 0\<rparr> else s)
            in if \<not> sess_broker s then (Err errSessionBroker, started)
               else if streamKey s = [] then (Err errSessionStreamKey, started)
               else (Ok s, started)))"

definition newSession :: "(session \<Rightarrow> session) list \<Rightarrow> session res \<times> bool" where
  "newSession opts = session_loadOptions opts zero_session"

definition addPlayer :: "string \<Rightarrow> nat \<Rightarrow> session \<Rightarrow> session" where
  "addPlayer addr p s = s\<lparr>players := (players s)(addr \<mapsto> p)\<rparr>"

definition delPlayer :: "string \<Rightarrow> session \<Rightarrow> session" where
  "delPlayer addr s = s\<lparr>players := (players s)(addr := None)\<rparr>"

section \<open>The broker\<close>

text \<open>
  How far the \<open>checkOffline\<close> goroutine of a session is: waiting for a token, its timer running, its
  timer's function past the test of the publisher, and at its end, without or with the clean-up.
\<close>

datatype watch = Waiting | Timer | Cleaning | Finished | Cleaned

record broker =
  sess_heap :: "nat \<Rightarrow> session option"
  sess_next :: nat
  watches :: "nat \<Rightarrow> watch"
  sessionTotal :: i32
  sessionMap :: "string \<Rightarrow> nat option"

definition empty_broker :: broker where
  "empty_broker = \<lparr>sess_heap = Map.empty, sess_next = 0, watches = (\<lambda>_. Finished), sessionTotal = 0,
     sessionMap = Map.empty\<rparr>"

definition upd_sess :: "nat \<Rightarrow> (session \<Rightarrow> session) \<Rightarrow> broker \<Rightarrow> broker" where
  "upd_sess i f b = b\<lparr>sess_heap := (sess_heap b)(i := map_option f (sess_heap b i))\<rparr>"

text \<open>
  \<open>createSession\<close> in its two parts: the lookup, which ends the call when the key is taken, and the
  creation, whose insertion does not look again.
\<close>

definition take_over :: "nat \<Rightarrow> string \<Rightarrow> nat \<Rightarrow> broker \<Rightarrow> broker" where
  "take_over pub sessionId i b = upd_sess i (\<lambda>s. s\<lparr>publisher := Some pub, sess_id := sessionId\<rparr>) b"

definition createSession_found :: "nat \<Rightarrow> string \<Rightarrow> nat \<Rightarrow> (broker, nat) go" where
  "createSession_found pub sessionId i b =
     (case sess_heap b i of
        None \<Rightarrow> (Panic NilDereference, b)
      | Some s \<Rightarrow>
          if publisher s = None then (Ok i, take_over pub sessionId i b)
          else (Err (ErrNew ''session exists''), b))"

definition createSession_new ::
  "nat \<Rightarrow> string \<Rightarrow> string \<Rightarrow> string \<Rightarrow> string \<Rightarrow> string \<Rightarrow> (broker, nat) go" where
  "createSession_new pub app stream vhost key sessionId b =
     (case newSession [WithSessionId sessionId, WithSessionVhost vhost, WithSessionAppName app,
             WithSessionStreamName stream, WithSessionPublisher (Some pub), WithSessionBroker True,
             WithSessionStreamKey key] of
        (Ok s, _) \<Rightarrow>
          (let i = sess_next b
           in (Ok i, b\<lparr>sess_heap := (sess_heap b)(i \<mapsto> s), sess_next := Suc i,
                       watches := (watches b)(i := Waiting), sessionMap := (sessionMap b)(key \<mapsto> i),
                       sessionTotal := sessionTotal b + 1\<rparr>))
      | (Err e, _) \<Rightarrow> (Err (Wrap ''new session instance'' e), b)
      | (Panic p, _) \<Rightarrow> (Panic p, b))"

definition createSession ::
  "nat \<Rightarrow> string \<Rightarrow> string \<Rightarrow> string \<Rightarrow> string \<Rightarrow> string \<Rightarrow> (broker, nat) go" where
  "createSession pub app stream vhost key sessionId b =
     (case sessionMap b key of
        Some i \<Rightarrow> createSession_found pub sessionId i b
      | None \<Rightarrow> createSession_new pub app stream vhost key sessionId b)"

text \<open>
  \<open>softDelSession\<close> up to its send on \<open>offline\<close>, and the send, which is possible while the channel has
  room.
\<close>

definition clear_publisher :: "nat \<Rightarrow> broker \<Rightarrow> broker" where
  "clear_publisher i b = upd_sess i (\<lambda>s. s\<lparr>publisher := None\<rparr>) b"

definition softDel_begin :: "string \<Rightarrow> (broker, nat) go" where
  "softDel_begin key b =
     (case sessionMap b key of
        None \<Rightarrow> (Err (ErrNew ''session not exists''), b)
      | Some i \<Rightarrow> (Ok i, clear_publisher i b))"

definition offline_room :: "nat \<Rightarrow> broker \<Rightarrow> bool" where
  "offline_room i b \<longleftrightarrow> (case sess_heap b i of Some s \<Rightarrow> offline s = Some 0 | None \<Rightarrow> False)"

definition softDel_send :: "nat \<Rightarrow> broker \<Rightarrow> broker" where
  "softDel_send i b = upd_sess i (\<lambda>s. s\<lparr>offline := map_option Suc (offline s)\<rparr>) b"

definition delSession :: "string \<Rightarrow> broker \<Rightarrow> broker" where
  "delSession key b = b\<lparr>sessionMap := (sessionMap b)(key := None), sessionTotal := sessionTotal b - 1\<rparr>"

text \<open>\<open>checkOffline\<close>: the receive, and what the timer runs thirty seconds later.\<close>

definition checkOffline_recv :: "nat \<Rightarrow> broker \<Rightarrow> broker" where
  "checkOffline_recv i b =
     (upd_sess i (\<lambda>s. s\<lparr>offline := map_option (\<lambda>n. n - 1) (offline s)\<rparr>) b)
       \<lparr>watches := (watches b)(i := Timer)\<rparr>"

definition fire_test :: "nat \<Rightarrow> broker \<Rightarrow> broker" where
  "fire_test i b =
     (case sess_heap b i of
        None \<Rightarrow> b
      | Some s \<Rightarrow> b\<lparr>watches := (watches b)(i := if publisher s \<noteq> None then Finished else Cleaning)\<rparr>)"

definition clean_up :: "nat \<Rightarrow> broker \<Rightarrow> broker" where
  "clean_up i b =
     (case sess_heap b i of
        None \<Rightarrow> b
      | Some s \<Rightarrow> (delSession (streamKey s) (upd_sess i (\<lambda>s. s\<lparr>players := Map.empty\<rparr>) b))
                    \<lparr>watches := (watches b)(i := Cleaned)\<rparr>)"

definition checkOffline_fire :: "nat \<Rightarrow> broker \<Rightarrow> broker" where
  "checkOffline_fire i b =
     (let b = fire_test i b in if watches b i = Cleaning then clean_up i b else b)"

section \<open>Publishers, goroutines and timers\<close>

text \<open>
  Calls in progress, at the points where another goroutine can come between: \<open>createSession\<close> after its
  lookup, and after it found a session without publisher; \<open>softDelSession\<close> after its lookup, and when it
  waits to send. The update of the counter that follows each change of the map is part of that step:
  nothing reads the counter. Any key can be created or left at any time.

  \<open>departures\<close> counts, per session, the calls of \<open>softDelSession\<close> that have sent their token.
\<close>

datatype call =
    Creating nat string string string string string "nat option"
      \<comment> \<open>publisher, application, stream, virtual host, key, session id, and what the lookup gave\<close>
  | Taking nat string nat
  | Leaving nat
  | Sending nat

record run_state =
  brk :: broker
  calls :: "call list"
  departures :: "nat \<Rightarrow> nat"

inductive broker_step :: "run_state \<Rightarrow> run_state \<Rightarrow> bool" where
  step_lookup: "broker_step s (s\<lparr>calls := calls s
      @ [Creating pub app stream vhost key sid (sessionMap (brk s) key)]\<rparr>)"
| step_store: "calls s = pre @ Creating pub app stream vhost key sid None # post \<Longrightarrow>
    createSession_new pub app stream vhost key sid (brk s) = (r, b) \<Longrightarrow>
    broker_step s (s\<lparr>brk := b, calls := pre @ post\<rparr>)"
| step_refuse: "calls s = pre @ Creating pub app stream vhost key sid (Some i) # post \<Longrightarrow>
    sess_heap (brk s) i = Some x \<Longrightarrow> publisher x \<noteq> None \<Longrightarrow>
    broker_step s (s\<lparr>calls := pre @ post\<rparr>)"
| step_free: "calls s = pre @ Creating pub app stream vhost key sid (Some i) # post \<Longrightarrow>
    sess_heap (brk s) i = Some x \<Longrightarrow> publisher x = None \<Longrightarrow>
    broker_step s (s\<lparr>calls := pre @ Taking pub sid i # post\<rparr>)"
| step_take: "calls s = pre @ Taking pub sid i # post \<Longrightarrow>
    broker_step s (s\<lparr>brk := take_over pub sid i (brk s), calls := pre @ post\<rparr>)"
| step_find: "sessionMap (brk s) key = Some i \<Longrightarrow> broker_step s (s\<lparr>calls := calls s @ [Leaving i]\<rparr>)"
| step_clear: "calls s = pre @ Leaving i # post \<Longrightarrow>
    broker_step s (s\<lparr>brk := clear_publisher i (brk s), calls := pre @ Sending i # post\<rparr>)"
| step_send: "calls s = pre @ Sending i # post \<Longrightarrow> offline_room i (brk s) \<Longrightarrow>
    broker_step s (s\<lparr>brk := softDel_send i (brk s), calls := pre @ post,
      departures := (departures s)(i := Suc (departures s i))\<rparr>)"
| step_recv: "watches (brk s) i = Waiting \<Longrightarrow> sess_heap (brk s) i = Some x \<Longrightarrow> offline x = Some 1 \<Longrightarrow>
    broker_step s (s\<lparr>brk := checkOffline_recv i (brk s)\<rparr>)"
| step_test: "watches (brk s) i = Timer \<Longrightarrow> broker_step s (s\<lparr>brk := fire_test i (brk s)\<rparr>)"
| step_clean: "watches (brk s) i = Cleaning \<Longrightarrow> broker_step s (s\<lparr>brk := clean_up i (brk s)\<rparr>)"

inductive_cases broker_stepE: "broker_step s t"

definition start_state :: run_state where
  "start_state = \<lparr>brk = empty_broker, calls = [], departures = (\<lambda>_. 0)\<rparr>"

abbreviation reachable :: "run_state \<Rightarrow> bool" where
  "reachable s \<equiv> broker_step\<^sup>*\<^sup>* start_state s"

text \<open>Runs in which no entry of the map is overwritten: no key is stored while it is there.\<close>

definition timely :: "run_state \<Rightarrow> run_state \<Rightarrow> bool" where
  "timely s t \<longleftrightarrow> broker_step s t
     \<and> (\<forall>key i j. sessionMap (brk s) key = Some i \<longrightarrow> sessionMap (brk t) key = Some j \<longrightarrow> j = i)"

lemma timely_reachable: "timely\<^sup>*\<^sup>* s t \<Longrightarrow> broker_step\<^sup>*\<^sup>* s t"
  by (erule mono_rtranclp [rule_format, rotated]) (simp add: timely_def)

lemma upd_sess_fields [simp]:
  "sessionMap (upd_sess i f b) = sessionMap b" "sessionTotal (upd_sess i f b) = sessionTotal b"
  "watches (upd_sess i f b) = watches b" "sess_next (upd_sess i f b) = sess_next b"
  "sess_heap (upd_sess i f b) j = (if j = i then map_option f (sess_heap b i) else sess_heap b j)"
  by (simp_all add: upd_sess_def)

lemma upd_sess_calls [simp]:
  "sessionMap (take_over pub sid i b) = sessionMap b" "sessionMap (clear_publisher i b) = sessionMap b"
  "sessionMap (softDel_send i b) = sessionMap b" "sessionMap (checkOffline_recv i b) = sessionMap b"
  "sessionMap (fire_test i b) = sessionMap b"
  by (simp_all add: take_over_def clear_publisher_def softDel_send_def checkOffline_recv_def fire_test_def
      split: option.split)

lemma newSession_fields:
  "newSession [WithSessionId i, WithSessionVhost v, WithSessionAppName a, WithSessionStreamName n,
      WithSessionPublisher p, WithSessionBroker True, WithSessionStreamKey k] = (Ok s, started) \<Longrightarrow>
    streamKey s = k \<and> offline s = Some 0 \<and> publisher s = p \<and> p \<noteq> None \<and> sess_id s = i \<and> players s = Map.empty
    \<and> metaData s = None \<and> audioSeqHeader s = None \<and> videoSeqHeader s = None \<and> started"
  by (auto simp: newSession_def session_loadOptions_def session_options zero_session_def Let_def
      split: if_splits)

lemma newSession_ok:
  "i \<noteq> [] \<Longrightarrow> v \<noteq> [] \<Longrightarrow> a \<noteq> [] \<Longrightarrow> n \<noteq> [] \<Longrightarrow> k \<noteq> [] \<Longrightarrow>
    newSession [WithSessionId i, WithSessionVhost v, WithSessionAppName a, WithSessionStreamName n,
      WithSessionPublisher (Some p), WithSessionBroker True, WithSessionStreamKey k]
    = (Ok (zero_session\<lparr>sess_id := i, sess_vhost := v, appName := a, streamName := n, publisher := Some p,
         offline := Some 0, sess_broker := True, streamKey := k\<rparr>), True)"
  by (simp add: newSession_def session_loadOptions_def session_options zero_session_def)

subsection \<open>Calls that are not interrupted\<close>

lemma create_uninterrupted:
  assumes "createSession pub app stream vhost key sid (brk s) = (r, b)" "r \<noteq> Panic NilDereference"
  shows "broker_step\<^sup>*\<^sup>* s (s\<lparr>brk := b\<rparr>)"
proof -
  let ?s = "\<lambda>c. s\<lparr>calls := calls s @ [c]\<rparr>"
  have load: "broker_step s (?s (Creating pub app stream vhost key sid (sessionMap (brk s) key)))" by (rule step_lookup)
  show ?thesis
  proof (cases "sessionMap (brk s) key")
    case None
    with assms(1) have "createSession_new pub app stream vhost key sid (brk s) = (r, b)" by (simp add: createSession_def)
    with step_store [of "?s (Creating pub app stream vhost key sid None)" "calls s"] load None show ?thesis
      by (auto elim!: converse_rtranclp_into_rtranclp)
  next
    case (Some i)
    with assms obtain x where x: "sess_heap (brk s) i = Some x"
      by (auto simp: createSession_def createSession_found_def split: option.splits)
    show ?thesis
    proof (cases "publisher x = None")
      case True
      with step_free [of "?s (Creating pub app stream vhost key sid (Some i))" "calls s"] x
      have "broker_step (?s (Creating pub app stream vhost key sid (Some i))) (?s (Taking pub sid i))" by simp
      moreover have "broker_step (?s (Taking pub sid i)) (s\<lparr>brk := b\<rparr>)"
        using step_take [of "?s (Taking pub sid i)" "calls s"] assms(1) Some x True
        by (simp add: createSession_def createSession_found_def)
      ultimately show ?thesis using load Some by (metis converse_rtranclp_into_rtranclp r_into_rtranclp)
    next
      case False
      with step_refuse [of "?s (Creating pub app stream vhost key sid (Some i))" "calls s"] x
      have "broker_step (?s (Creating pub app stream vhost key sid (Some i))) s" by simp
      moreover have "s\<lparr>brk := b\<rparr> = s"
        using assms(1) Some x False by (simp add: createSession_def createSession_found_def)
      ultimately show ?thesis using load Some by (metis converse_rtranclp_into_rtranclp r_into_rtranclp)
    qed
  qed
qed

lemma softDel_uninterrupted:
  assumes "softDel_begin key (brk s) = (Ok i, b)"
  shows "broker_step\<^sup>*\<^sup>* s (s\<lparr>brk := b, calls := calls s @ [Sending i]\<rparr>)"
proof -
  have i: "sessionMap (brk s) key = Some i" "b = clear_publisher i (brk s)"
    using assms by (auto simp: softDel_begin_def split: option.splits)
  from step_clear [of "s\<lparr>calls := calls s @ [Leaving i]\<rparr>" "calls s" i "[]"] step_find [OF i(1)] i(2)
  show ?thesis by (auto elim!: converse_rtranclp_into_rtranclp)
qed

lemma fire_uninterrupted:
  assumes "watches (brk s) i = Timer"
  shows "broker_step\<^sup>*\<^sup>* s (s\<lparr>brk := checkOffline_fire i (brk s)\<rparr>)"
  using step_test [OF assms] step_clean [of "s\<lparr>brk := fire_test i (brk s)\<rparr>" i]
  by (auto simp: checkOffline_fire_def Let_def elim!: converse_rtranclp_into_rtranclp)

section \<open>The invariant\<close>

text \<open>
  Sessions whose clean-up has not run. Every key leads to one of them, of that key; the channel never
  overflows, and the counter is their number.
\<close>

definition live :: "broker \<Rightarrow> nat set" where
  "live b = {i. i < sess_next b \<and> watches b i \<noteq> Cleaned}"

lemma finite_live [simp]: "finite (live b)"
  by (rule finite_subset [of _ "{..<sess_next b}"]) (auto simp: live_def)

definition broker_inv :: "broker \<Rightarrow> bool" where
  "broker_inv b \<longleftrightarrow>
     (\<forall>key i. sessionMap b key = Some i \<longrightarrow> i \<in> live b \<and> (\<exists>s. sess_heap b i = Some s \<and> streamKey s = key))
     \<and> (\<forall>i s. sess_heap b i = Some s \<longrightarrow> offline s = Some 0 \<or> offline s = Some 1)
     \<and> (\<forall>i. sess_heap b i \<noteq> None \<longleftrightarrow> i < sess_next b)
     \<and> (\<forall>i. watches b i \<noteq> Finished \<longrightarrow> i < sess_next b)
     \<and> sessionTotal b = of_nat (card (live b))"

lemma broker_invD:
  assumes "broker_inv b"
  shows "sessionMap b key = Some i \<Longrightarrow> i \<in> live b \<and> (\<exists>s. sess_heap b i = Some s \<and> streamKey s = key)"
    "sess_heap b i = Some s \<Longrightarrow> offline s = Some 0 \<or> offline s = Some 1"
    "sess_heap b i \<noteq> None \<longleftrightarrow> i < sess_next b"
    "watches b i \<noteq> Finished \<Longrightarrow> i < sess_next b"
    "sessionTotal b = of_nat (card (live b))"
  using assms unfolding broker_inv_def by blast+

lemma broker_inv_fresh: "broker_inv b \<Longrightarrow> sess_heap b (sess_next b) = None"
  using broker_invD(3) [of b "sess_next b"] by simp

text \<open>Changing a session without its key or its channel's bound keeps the invariant.\<close>

lemma live_upd [simp]: "live (upd_sess i f b) = live b"
  by (simp add: live_def)

lemma broker_inv_upd:
  assumes "broker_inv b" "\<And>s. sess_heap b i = Some s \<Longrightarrow> streamKey (f s) = streamKey s
    \<and> (offline (f s) = Some 0 \<or> offline (f s) = Some 1)"
  shows "broker_inv (upd_sess i f b)"
  unfolding broker_inv_def
proof (intro conjI allI impI)
  fix key j assume "sessionMap (upd_sess i f b) key = Some j"
  then show "j \<in> live (upd_sess i f b)" "\<exists>s. sess_heap (upd_sess i f b) j = Some s \<and> streamKey s = key"
    using broker_invD(1) [OF assms(1), of key j] assms(2) by auto
next
  fix j s assume s: "sess_heap (upd_sess i f b) j = Some s"
  then show "offline s = Some 0 \<or> offline s = Some 1"
    using broker_invD(2) [OF assms(1)] assms(2) by (auto split: if_splits)
qed (use broker_invD(3-5) [OF assms(1)] in \<open>auto split: if_splits\<close>)

lemma live_watch: "w \<noteq> Cleaned \<Longrightarrow> watches b i \<noteq> Cleaned \<Longrightarrow> live (b\<lparr>watches := (watches b)(i := w)\<rparr>) = live b"
  by (auto simp: live_def)

lemma broker_inv_watch:
  assumes "broker_inv b" "watches b i \<noteq> Finished" "watches b i \<noteq> Cleaned" "w \<noteq> Cleaned"
  shows "broker_inv (b\<lparr>watches := (watches b)(i := w)\<rparr>)"
  using assms broker_invD(4) [OF assms(1,2)] unfolding broker_inv_def live_watch [OF assms(4,3)] by simp

lemma broker_inv_new:
  assumes inv: "broker_inv b" and r: "createSession_new pub app stream vhost key sid b = (r, c)"
  shows "broker_inv c"
proof (cases r)
  case (Ok i)
  with r obtain s where s: "streamKey s = key" "offline s = Some 0"
    and c: "c = b\<lparr>sess_heap := (sess_heap b)(sess_next b \<mapsto> s), sess_next := Suc (sess_next b),
      watches := (watches b)(sess_next b := Waiting), sessionMap := (sessionMap b)(key \<mapsto> sess_next b),
      sessionTotal := sessionTotal b + 1\<rparr>"
    by (auto simp: createSession_new_def Let_def split: prod.splits res.splits dest: newSession_fields)
  have live: "live c = insert (sess_next b) (live b)"
    by (auto simp: live_def c less_Suc_eq)
  moreover have "sess_next b \<notin> live b" by (simp add: live_def)
  ultimately have card: "card (live c) = Suc (card (live b))" by simp
  have old: "j \<noteq> sess_next b" if "j \<in> live b" for j using that by (auto simp: live_def)
  show ?thesis
    unfolding broker_inv_def
  proof (intro conjI allI impI)
    fix k j assume "sessionMap c k = Some j"
    then show "j \<in> live c" "\<exists>s. sess_heap c j = Some s \<and> streamKey s = k"
      using s broker_invD(1) [OF inv, of k j] old [of j] unfolding live by (auto simp: c split: if_splits)
  next
    fix j x assume "sess_heap c j = Some x"
    then show "offline x = Some 0 \<or> offline x = Some 1"
      using s broker_invD(2) [OF inv, of j x] by (auto simp: c split: if_splits)
  next
    fix j show "(sess_heap c j \<noteq> None) = (j < sess_next c)"
      using broker_invD(3) [OF inv, of j] by (auto simp: c less_Suc_eq)
  next
    fix j assume "watches c j \<noteq> Finished"
    then show "j < sess_next c"
      using broker_invD(4) [OF inv, of j] by (auto simp: c split: if_splits)
  next
    show "sessionTotal c = of_nat (card (live c))"
      using broker_invD(5) [OF inv] unfolding card by (simp add: c)
  qed
qed (use r inv in \<open>auto simp: createSession_new_def Let_def split: prod.splits res.splits\<close>)

text \<open>What the clean-up of a session leaves.\<close>

lemma clean_up_at:
  assumes "sess_heap b i = Some s"
  shows "sessionMap (clean_up i b) = (sessionMap b)(streamKey s := None)" "sess_next (clean_up i b) = sess_next b"
    "sess_heap (clean_up i b) = (sess_heap b)(i \<mapsto> s\<lparr>players := Map.empty\<rparr>)"
    "watches (clean_up i b) = (watches b)(i := Cleaned)" "sessionTotal (clean_up i b) = sessionTotal b - 1"
  using assms by (auto simp: clean_up_def delSession_def fun_eq_iff)

lemma live_clean_up: "sess_heap b i = Some s \<Longrightarrow> live (clean_up i b) = live b - {i}"
  by (auto simp: live_def clean_up_at)

lemma broker_inv_clean:
  assumes inv: "broker_inv b" and w: "watches b i = Cleaning"
  shows "broker_inv (clean_up i b)"
proof -
  have i: "i < sess_next b" using broker_invD(4) [OF inv, of i] w by simp
  then obtain s where s: "sess_heap b i = Some s" using broker_invD(3) [OF inv, of i] by auto
  note c = clean_up_at [OF s] live_clean_up [OF s]
  have "i \<in> live b" using i w by (simp add: live_def)
  then have card: "card (live b) = Suc (card (live b - {i}))" by (metis card_Suc_Diff1 finite_live)
  show ?thesis
    unfolding broker_inv_def
  proof (intro conjI allI impI)
    fix key j assume m: "sessionMap (clean_up i b) key = Some j"
    then show "j \<in> live (clean_up i b)" "\<exists>x. sess_heap (clean_up i b) j = Some x \<and> streamKey x = key"
      using broker_invD(1) [OF inv, of key j] s by (auto simp: c split: if_splits)
  next
    fix j x assume "sess_heap (clean_up i b) j = Some x"
    then show "offline x = Some 0 \<or> offline x = Some 1"
      using s broker_invD(2) [OF inv, of j] broker_invD(2) [OF inv, of i s] by (auto simp: c split: if_splits)
  next
    fix j show "(sess_heap (clean_up i b) j \<noteq> None) = (j < sess_next (clean_up i b))"
      using broker_invD(3) [OF inv, of j] i by (simp add: c)
  next
    fix j assume "watches (clean_up i b) j \<noteq> Finished"
    then show "j < sess_next (clean_up i b)"
      using broker_invD(4) [OF inv, of j] i by (auto simp: c split: if_splits)
  next
    show "sessionTotal (clean_up i b) = of_nat (card (live (clean_up i b)))"
      using broker_invD(5) [OF inv] unfolding c card by simp
  qed
qed

lemma broker_inv_test:
  assumes "broker_inv b" "watches b i = Timer"
  shows "broker_inv (fire_test i b)"
  using broker_inv_watch [OF assms(1), of i Finished] broker_inv_watch [OF assms(1), of i Cleaning] assms
  by (auto simp: fire_test_def split: option.split)

lemma broker_inv_recv:
  assumes "broker_inv b" "watches b i = Waiting" "sess_heap b i = Some x" "offline x = Some 1"
  shows "broker_inv (checkOffline_recv i b)"
proof -
  have "broker_inv (upd_sess i (\<lambda>s. s\<lparr>offline := map_option (\<lambda>n. n - 1) (offline s)\<rparr>) b)"
    using assms by (intro broker_inv_upd) auto
  from broker_inv_watch [OF this, of i Timer] assms show ?thesis by (simp add: checkOffline_recv_def)
qed

lemma broker_inv_step: "broker_step s t \<Longrightarrow> broker_inv (brk s) \<Longrightarrow> broker_inv (brk t)"
proof (induction rule: broker_step.induct)
  case (step_store s pre pub app stream vhost key sid post r b)
  then show ?case by (auto intro: broker_inv_new)
next
  case (step_take s pre pub sid i post)
  then show ?case unfolding take_over_def by simp (intro broker_inv_upd, auto dest: broker_invD(2))
next
  case (step_clear s pre i post)
  then show ?case unfolding clear_publisher_def by simp (intro broker_inv_upd, auto dest: broker_invD(2))
next
  case (step_send s pre i post)
  then show ?case
    unfolding softDel_send_def by simp (intro broker_inv_upd, auto simp: offline_room_def split: option.splits)
next
  case (step_recv s i x)
  then show ?case by (simp add: broker_inv_recv)
next
  case (step_test s i)
  then show ?case by (simp add: broker_inv_test)
next
  case (step_clean s i)
  then show ?case by (simp add: broker_inv_clean)
qed simp_all

lemma reachable_inv: "reachable s \<Longrightarrow> broker_inv (brk s)"
proof (induction rule: rtranclp_induct)
  case base
  show ?case by (simp add: start_state_def empty_broker_def broker_inv_def live_def)
qed (rule broker_inv_step)

lemma inj_keys: "broker_inv b \<Longrightarrow> inj_on (\<lambda>k. the (sessionMap b k)) (dom (sessionMap b))"
proof (rule inj_onI)
  fix k l assume inv: "broker_inv b"
  assume "k \<in> dom (sessionMap b)" "l \<in> dom (sessionMap b)" "the (sessionMap b k) = the (sessionMap b l)"
  then obtain i where "sessionMap b k = Some i" "sessionMap b l = Some i" by auto
  from this [THEN broker_invD(1) [OF inv]] show "k = l" by auto
qed

lemma keys_live: "broker_inv b \<Longrightarrow> (\<lambda>k. the (sessionMap b k)) ` dom (sessionMap b) \<subseteq> live b"
  using broker_invD(1) [of b] by auto

lemma card_keys_le: "broker_inv b \<Longrightarrow> card (dom (sessionMap b)) \<le> card (live b)"
  by (rule card_inj_on_le [OF inj_keys keys_live]) simp_all

section \<open>Runs without overwritten entries\<close>

text \<open>Each session whose clean-up has not run is the one its key leads to.\<close>

definition single :: "broker \<Rightarrow> bool" where
  "single b \<longleftrightarrow> (\<forall>i \<in> live b. \<forall>x. sess_heap b i = Some x \<longrightarrow> sessionMap b (streamKey x) = Some i)"

lemma single_upd:
  assumes "single b" "\<And>s. streamKey (f s) = streamKey s"
  shows "single (upd_sess i f b)"
  using assms by (auto simp: single_def split: if_splits)

lemma single_watch: "single b \<Longrightarrow> live c \<subseteq> live b \<Longrightarrow> sess_heap c = sess_heap b \<Longrightarrow> sessionMap c = sessionMap b \<Longrightarrow> single c"
  by (auto simp: single_def)

lemma single_new:
  assumes "broker_inv b" "single b" "createSession_new pub app stream vhost key sid b = (r, c)"
    "\<forall>i j. sessionMap b key = Some i \<longrightarrow> sessionMap c key = Some j \<longrightarrow> j = i"
  shows "single c"
proof (cases r)
  case (Ok i)
  with assms(3) obtain s where s: "streamKey s = key"
    and c: "c = b\<lparr>sess_heap := (sess_heap b)(sess_next b \<mapsto> s), sess_next := Suc (sess_next b),
      watches := (watches b)(sess_next b := Waiting), sessionMap := (sessionMap b)(key \<mapsto> sess_next b),
      sessionTotal := sessionTotal b + 1\<rparr>"
    by (auto simp: createSession_new_def Let_def split: prod.splits res.splits dest: newSession_fields)
  have "sessionMap b key = None"
  proof (cases "sessionMap b key")
    case (Some j)
    with assms(4) have "j = sess_next b" by (simp add: c)
    moreover have "j < sess_next b" using broker_invD(1) [OF assms(1) Some] by (simp add: live_def)
    ultimately show ?thesis by simp
  qed
  then have "streamKey x \<noteq> key" if "i \<in> live b" "sess_heap b i = Some x" for i x
    using that assms(2) by (auto simp: single_def)
  with assms(2) s show ?thesis by (auto simp: single_def c live_def less_Suc_eq)
qed (use assms(2,3) in \<open>auto simp: createSession_new_def Let_def split: prod.splits res.splits\<close>)

lemma single_clean:
  assumes "broker_inv b" "single b" "watches b i = Cleaning"
  shows "single (clean_up i b)"
proof -
  have i: "i \<in> live b" using broker_invD(4) [OF assms(1), of i] assms(3) by (simp add: live_def)
  then obtain s where s: "sess_heap b i = Some s" using broker_invD(3) [OF assms(1), of i] by (auto simp: live_def)
  have "streamKey x \<noteq> streamKey s" if "j \<in> live b" "sess_heap b j = Some x" "j \<noteq> i" for j x
  proof
    assume "streamKey x = streamKey s"
    moreover have "sessionMap b (streamKey x) = Some j" "sessionMap b (streamKey s) = Some i"
      using that i s assms(2) unfolding single_def by blast+
    ultimately show False using that(3) by simp
  qed
  with s assms(2) show ?thesis
    unfolding single_def live_clean_up [OF s] by (auto simp: clean_up_at)
qed

lemma single_step:
  assumes "timely s t" "broker_inv (brk s)" "single (brk s)"
  shows "single (brk t)"
proof -
  have "broker_step s t" and keys: "\<And>key i j. sessionMap (brk s) key = Some i \<Longrightarrow> sessionMap (brk t) key = Some j \<Longrightarrow> j = i"
    using assms(1) by (auto simp: timely_def)
  from this(1) show ?thesis
  proof cases
    case (step_store pre pub app stream vhost key sid post r b)
    with keys show ?thesis by (auto intro!: single_new [OF assms(2,3)])
  next
    case (step_recv i x)
    have "single (upd_sess i (\<lambda>s. s\<lparr>offline := map_option (\<lambda>n. n - 1) (offline s)\<rparr>) (brk s))"
      using assms(3) by (rule single_upd) simp
    with step_recv show ?thesis
      by (auto simp: checkOffline_recv_def live_def elim!: single_watch split: if_splits)
  next
    case (step_test i)
    with assms(3) show ?thesis
      by (auto simp: fire_test_def live_def elim!: single_watch split: option.split if_splits)
  next
    case (step_clean i)
    with single_clean [OF assms(2,3)] show ?thesis by simp
  qed (use assms(3) in \<open>auto simp: take_over_def clear_publisher_def softDel_send_def intro!: single_upd\<close>)
qed

lemma timely_single: "timely\<^sup>*\<^sup>* start_state s \<Longrightarrow> single (brk s)"
proof (induction rule: rtranclp_induct)
  case base
  show ?case by (simp add: start_state_def empty_broker_def single_def live_def)
next
  case (step s t)
  then show ?case using single_step reachable_inv timely_reachable by blast
qed

lemma card_keys: "broker_inv b \<Longrightarrow> single b \<Longrightarrow> card (dom (sessionMap b)) = card (live b)"
proof (rule antisym [OF card_keys_le])
  assume inv: "broker_inv b" and s: "single b"
  have "sessionMap b ` dom (sessionMap b) = Some ` live b"
  proof
    show "sessionMap b ` dom (sessionMap b) \<subseteq> Some ` live b" using broker_invD(1) [OF inv] by auto
    show "Some ` live b \<subseteq> sessionMap b ` dom (sessionMap b)"
    proof clarify
      fix i assume i: "i \<in> live b"
      then obtain x where "sess_heap b i = Some x" using broker_invD(3) [OF inv, of i] by (auto simp: live_def)
      with s i have "sessionMap b (streamKey x) = Some i" by (simp add: single_def)
      then show "Some i \<in> sessionMap b ` dom (sessionMap b)" by force
    qed
  qed
  moreover have "card (Some ` live b) = card (live b)" by (simp add: card_image)
  moreover have "finite (dom (sessionMap b))" by (rule inj_on_finite [OF inj_keys [OF inv] keys_live [OF inv]]) simp
  ultimately show "card (live b) \<le> card (dom (sessionMap b))" by (metis card_image_le)
qed

section \<open>Departures\<close>

text \<open>
  A session's tokens are accounted for: each departure that was completed has put one, the goroutine has
  taken at most one, and at most one is in the channel.
\<close>

definition tokens_inv :: "run_state \<Rightarrow> bool" where
  "tokens_inv s \<longleftrightarrow> (\<forall>i. departures s i = (case sess_heap (brk s) i of
     None \<Rightarrow> 0 | Some x \<Rightarrow> the (offline x) + (if watches (brk s) i = Waiting then 0 else 1)))"

lemma tokens_new:
  assumes "tokens_inv s" "createSession_new pub app stream vhost key sid (brk s) = (r, c)" "broker_inv (brk s)"
  shows "tokens_inv (s\<lparr>brk := c, calls := cs\<rparr>)"
proof (cases r)
  case (Ok i)
  with assms(2) obtain x where "offline x = Some 0"
    and c: "c = (brk s)\<lparr>sess_heap := (sess_heap (brk s))(sess_next (brk s) \<mapsto> x), sess_next := Suc (sess_next (brk s)),
      watches := (watches (brk s))(sess_next (brk s) := Waiting),
      sessionMap := (sessionMap (brk s))(key \<mapsto> sess_next (brk s)), sessionTotal := sessionTotal (brk s) + 1\<rparr>"
    by (auto simp: createSession_new_def Let_def split: prod.splits res.splits dest: newSession_fields)
  moreover have "sess_heap (brk s) (sess_next (brk s)) = None" by (rule broker_inv_fresh [OF assms(3)])
  ultimately show ?thesis using assms(1) by (simp add: tokens_inv_def)
qed (use assms in \<open>auto simp: tokens_inv_def createSession_new_def Let_def split: prod.splits res.splits\<close>)

lemma tokens_upd:
  assumes "tokens_inv s" "\<And>x. offline (f x) = offline x"
  shows "tokens_inv (s\<lparr>brk := upd_sess i f (brk s), calls := cs\<rparr>)"
  using assms by (auto simp: tokens_inv_def split: option.splits)

lemma tokens_step: "broker_step s t \<Longrightarrow> broker_inv (brk s) \<Longrightarrow> tokens_inv s \<Longrightarrow> tokens_inv t"
proof (induction rule: broker_step.induct)
  case (step_store s pre pub app stream vhost key sid post r b)
  then show ?case by (auto intro: tokens_new)
next
  case (step_take s pre pub sid i post)
  then show ?case by (simp add: take_over_def tokens_upd)
next
  case (step_clear s pre i post)
  then show ?case by (simp add: clear_publisher_def tokens_upd)
next
  case (step_send s pre i post)
  then show ?case
    by (auto simp: softDel_send_def offline_room_def tokens_inv_def split: option.splits)
next
  case (step_recv s i x)
  then show ?case by (auto simp: checkOffline_recv_def tokens_inv_def split: option.splits)
next
  case (step_test s i)
  then show ?case by (auto simp: fire_test_def tokens_inv_def split: option.splits)
next
  case (step_clean s i)
  then show ?case by (auto simp: clean_up_def delSession_def tokens_inv_def split: option.splits)
qed (simp_all add: tokens_inv_def)

lemma reachable_tokens: "reachable s \<Longrightarrow> tokens_inv s"
proof (induction rule: rtranclp_induct)
  case base
  show ?case by (simp add: start_state_def empty_broker_def tokens_inv_def)
next
  case (step s t)
  then show ?case using tokens_step reachable_inv by blast
qed

text \<open>After two departures the channel is full and its reader gone, so there is no third.\<close>

lemma departures_full:
  assumes "reachable s" "2 \<le> departures s i"
  shows "departures s i = 2 \<and> \<not> offline_room i (brk s)"
proof -
  have d: "departures s i = (case sess_heap (brk s) i of
      None \<Rightarrow> 0 | Some x \<Rightarrow> the (offline x) + (if watches (brk s) i = Waiting then 0 else 1))"
    using reachable_tokens [OF assms(1)] unfolding tokens_inv_def by blast
  with assms(2) obtain x where x: "sess_heap (brk s) i = Some x" by (cases "sess_heap (brk s) i") auto
  with d assms(2) broker_invD(2) [OF reachable_inv [OF assms(1)] x] show ?thesis
    by (auto simp: offline_room_def split: if_splits)
qed

lemma departures_step:
  assumes "broker_step s t" "\<not> offline_room i (brk s)"
  shows "departures t i = departures s i \<and> count_list (calls s) (Sending i) \<le> count_list (calls t) (Sending i)"
  using assms by (cases rule: broker_step.cases) auto

section \<open>A run of one session\<close>

definition tale_session :: "nat option \<Rightarrow> nat \<Rightarrow> session" where
  "tale_session pub tokens = zero_session\<lparr>sess_id := ''id'', sess_vhost := ''v'', appName := ''a'', streamName := ''n'',
     publisher := pub, offline := Some tokens, sess_broker := True, streamKey := ''k''\<rparr>"

definition tale_brk :: "nat option \<Rightarrow> nat \<Rightarrow> watch \<Rightarrow> broker" where
  "tale_brk pub tokens w = \<lparr>sess_heap = [0 \<mapsto> tale_session pub tokens], sess_next = 1,
     watches = (\<lambda>_. Finished)(0 := w), sessionTotal = 1, sessionMap = [''k'' \<mapsto> 0]\<rparr>"

definition tale :: "nat option \<Rightarrow> nat \<Rightarrow> watch \<Rightarrow> call list \<Rightarrow> nat \<Rightarrow> run_state" where
  "tale pub tokens w cs d = \<lparr>brk = tale_brk pub tokens w, calls = cs, departures = (\<lambda>_. 0)(0 := d)\<rparr>"

lemma tale_simps [simp]:
  "brk (tale pub n w cs d) = tale_brk pub n w" "calls (tale pub n w cs d) = cs" "departures (tale pub n w cs d) 0 = d"
  "tale pub n w cs d\<lparr>brk := b, calls := cs', departures := e\<rparr> = \<lparr>brk = b, calls = cs', departures = e\<rparr>"
  "tale pub n w cs d\<lparr>brk := tale_brk pub' n' w'\<rparr> = tale pub' n' w' cs d"
  "tale pub n w cs d\<lparr>calls := cs'\<rparr> = tale pub n w cs' d"
  "tale pub n w cs d\<lparr>departures := (departures (tale pub n w cs d))(0 := d')\<rparr> = tale pub n w cs d'"
  by (simp_all add: tale_def)

lemma tale_brk_simps [simp]:
  "sessionMap (tale_brk pub n w) = [''k'' \<mapsto> 0]" "sess_heap (tale_brk pub n w) 0 = Some (tale_session pub n)"
  "watches (tale_brk pub n w) 0 = w" "publisher (tale_session pub n) = pub" "offline (tale_session pub n) = Some n"
  "streamKey (tale_session pub n) = ''k''" "sessionTotal (tale_brk pub n w) = 1"
  by (simp_all add: tale_brk_def tale_session_def)

lemma tale_ops [simp]:
  "clear_publisher 0 (tale_brk pub n w) = tale_brk None n w"
  "take_over p ''id'' 0 (tale_brk pub n w) = tale_brk (Some p) n w"
  "softDel_send 0 (tale_brk pub n w) = tale_brk pub (Suc n) w"
  "checkOffline_recv 0 (tale_brk pub (Suc n) w) = tale_brk pub n Timer"
  "fire_test 0 (tale_brk (Some p) n w) = tale_brk (Some p) n Finished"
  "fire_test 0 (tale_brk None n w) = tale_brk None n Cleaning"
  by (simp_all add: clear_publisher_def take_over_def softDel_send_def checkOffline_recv_def fire_test_def
      tale_brk_def tale_session_def upd_sess_def zero_session_def)

lemma timelyI: "broker_step s t \<Longrightarrow> sessionMap (brk t) = sessionMap (brk s) \<Longrightarrow> timely s t"
  by (simp add: timely_def)

lemma tale_create: "timely\<^sup>*\<^sup>* start_state (tale (Some 7) 0 Waiting [] 0)"
proof -
  let ?c = "Creating 7 ''a'' ''n'' ''v'' ''k'' ''id'' None"
  let ?s = "start_state\<lparr>calls := [?c]\<rparr>"
  have "timely start_state ?s"
    using step_lookup [of start_state 7 "''a''" "''n''" "''v''" "''k''" "''id''"]
    by (intro timelyI) (simp_all add: start_state_def empty_broker_def)
  moreover have "timely ?s (tale (Some 7) 0 Waiting [] 0)"
    using step_store [of ?s "[]" 7 "''a''" "''n''" "''v''" "''k''" "''id''" "[]"]
    by (simp add: timely_def start_state_def empty_broker_def createSession_new_def newSession_ok Let_def tale_def
        tale_brk_def tale_session_def fun_upd_idem)
  ultimately show ?thesis by (rule converse_rtranclp_into_rtranclp [OF _ r_into_rtranclp])
qed

lemma tale_leave: "timely\<^sup>*\<^sup>* (tale (Some p) n w [] d) (tale None n w [Sending 0] d)"
proof -
  have "timely (tale (Some p) n w [] d) (tale (Some p) n w [Leaving 0] d)"
    using step_find [of "tale (Some p) n w [] d" "''k''" 0] by (intro timelyI) simp_all
  moreover have "timely (tale (Some p) n w [Leaving 0] d) (tale None n w [Sending 0] d)"
    using step_clear [of "tale (Some p) n w [Leaving 0] d" "[]" 0 "[]"] by (intro timelyI) simp_all
  ultimately show ?thesis by (rule converse_rtranclp_into_rtranclp [OF _ r_into_rtranclp])
qed

lemma tale_send: "timely (tale pub 0 w [Sending 0] d) (tale pub 1 w [] (Suc d))"
  using step_send [of "tale pub 0 w [Sending 0] d" "[]" 0 "[]"]
  by (intro timelyI) (simp_all add: offline_room_def tale_def)

lemma tale_recv: "timely (tale pub 1 Waiting cs d) (tale pub 0 Timer cs d)"
  using step_recv [of "tale pub 1 Waiting cs d" 0] by (intro timelyI) simp_all

lemma tale_return: "timely\<^sup>*\<^sup>* (tale None n w [] d) (tale (Some p) n w [] d)"
proof -
  let ?s = "\<lambda>c. tale None n w [c] d" and ?c = "Creating p ''a'' ''n'' ''v'' ''k'' ''id'' (Some 0)"
  have "timely (tale None n w [] d) (?s ?c)"
    using step_lookup [of "tale None n w [] d" p "''a''" "''n''" "''v''" "''k''" "''id''"]
    by (intro timelyI) simp_all
  moreover have "timely (?s ?c) (?s (Taking p ''id'' 0))"
    using step_free [of "?s ?c" "[]" p "''a''" "''n''" "''v''" "''k''" "''id''" 0 "[]"] by (intro timelyI) simp_all
  moreover have "timely (?s (Taking p ''id'' 0)) (tale (Some p) n w [] d)"
    using step_take [of "?s (Taking p ''id'' 0)" "[]" p "''id''" 0 "[]"] by (intro timelyI) simp_all
  ultimately show ?thesis
    by (meson converse_rtranclp_into_rtranclp r_into_rtranclp)
qed

lemma tale_test: "broker_step (tale pub n Timer cs d) (tale pub n (if pub = None then Cleaning else Finished) cs d)"
  using step_test [of "tale pub n Timer cs d" 0] by (cases pub) simp_all

text \<open>
  The publisher leaves, its token is taken, it comes back before the timer fires, leaves again, and comes
  back a third time to leave with the channel full.
\<close>

lemma tale_back: "timely\<^sup>*\<^sup>* start_state (tale (Some 8) 0 Timer [] 1)"
proof -
  have "timely\<^sup>*\<^sup>* start_state (tale None 0 Waiting [Sending 0] 0)" using tale_create tale_leave by (rule rtranclp_trans)
  also have "timely\<^sup>*\<^sup>* \<dots> (tale None 1 Waiting [] 1)" using tale_send [of None Waiting 0] by auto
  also have "timely\<^sup>*\<^sup>* \<dots> (tale None 0 Timer [] 1)" using tale_recv by auto
  also have "timely\<^sup>*\<^sup>* \<dots> (tale (Some 8) 0 Timer [] 1)" by (rule tale_return)
  finally show ?thesis .
qed

lemma tale_gone: "timely\<^sup>*\<^sup>* (tale (Some 8) 0 w [] 1) (tale None 1 w [] 2)"
proof -
  have "timely\<^sup>*\<^sup>* (tale (Some 8) 0 w [] 1) (tale None 0 w [Sending 0] 1)" by (rule tale_leave)
  also have "timely\<^sup>*\<^sup>* \<dots> (tale None 1 w [] 2)" using tale_send [of None w 1] by (auto simp: numeral_2_eq_2)
  finally show ?thesis .
qed

lemma tale_third: "timely\<^sup>*\<^sup>* start_state (tale None 1 Timer [Sending 0] 2)"
proof -
  have "timely\<^sup>*\<^sup>* start_state (tale None 1 Timer [] 2)" using tale_back tale_gone by (rule rtranclp_trans)
  also have "timely\<^sup>*\<^sup>* \<dots> (tale (Some 9) 1 Timer [] 2)" by (rule tale_return)
  also have "timely\<^sup>*\<^sup>* \<dots> (tale None 1 Timer [Sending 0] 2)" by (rule tale_leave)
  finally show ?thesis .
qed

text \<open>A session whose goroutine has finished without the clean-up stays as it is, whatever happens.\<close>

lemma finished_step:
  assumes "broker_step s t" "broker_inv (brk s)" "watches (brk s) i = Finished" "sess_heap (brk s) i = Some x"
  shows "watches (brk t) i = Finished
    \<and> (\<exists>y. sess_heap (brk t) i = Some y \<and> players y = players x \<and> streamKey y = streamKey x)"
  using assms(1)
proof cases
  case (step_store pre pub app stream vhost key sid post r b)
  moreover have "i \<noteq> sess_next (brk s)" using broker_inv_fresh [OF assms(2)] assms(4) by auto
  ultimately show ?thesis
    using assms(3,4) by (auto simp: createSession_new_def Let_def split: prod.splits res.splits)
qed (use assms(3,4) in \<open>auto simp: take_over_def clear_publisher_def softDel_send_def checkOffline_recv_def
    fire_test_def clean_up_def delSession_def split: option.splits\<close>)

lemma finished_run:
  assumes "broker_step\<^sup>*\<^sup>* s t" "reachable s" "watches (brk s) i = Finished" "sess_heap (brk s) i = Some x"
  shows "watches (brk t) i = Finished
    \<and> (\<exists>y. sess_heap (brk t) i = Some y \<and> players y = players x \<and> streamKey y = streamKey x)"
  using assms(1)
proof (induction rule: rtranclp_induct)
  case base
  show ?case using assms by simp
next
  case (step u v)
  then have "broker_inv (brk u)" using assms(2) reachable_inv rtranclp_trans by metis
  with step finished_step [OF step.hyps(2) this] show ?case by metis
qed

section \<open>Properties\<close>

text \<open>C14: the broker's counter counts the sessions that were created and not cleaned up. In every reachable
  state, calls interrupted anywhere, every key leads to one of these sessions, of that key, and
  \<open>sessionTotal\<close> (taken together with the change of the map it follows) is their number, so at least the
  number of keys. On every run in which no entry of the map was overwritten (as the second of two overlapping
  creations of one key does), it is the number of keys.\<close>

theorem broker_counts_sessions:
  assumes "reachable s"
  shows "sessionTotal (brk s) = of_nat (card (live (brk s)))
    \<and> (\<forall>key i. sessionMap (brk s) key = Some i \<longrightarrow>
        i \<in> live (brk s) \<and> (\<exists>x. sess_heap (brk s) i = Some x \<and> streamKey x = key))
    \<and> card (dom (sessionMap (brk s))) \<le> card (live (brk s))
    \<and> (timely\<^sup>*\<^sup>* start_state s \<longrightarrow> sessionTotal (brk s) = of_nat (card (dom (sessionMap (brk s)))))"
  using reachable_inv [OF assms] broker_invD(1,5) card_keys_le card_keys timely_single by metis

theorem broker_counts_sessions_witness:
  "sessionTotal (brk (tale (Some 8) 0 Timer [] 1)) = 1
    \<and> of_nat (card (dom (sessionMap (brk (tale (Some 8) 0 Timer [] 1))))) = (1 :: i32)"
  using broker_counts_sessions [OF timely_reachable [OF tale_back]] tale_back by simp

text \<open>C26: two publishers that create the same stream at once both succeed. When both calls of
  \<open>createSession\<close> have looked the key up before either stores, both get a session of their own, only the
  second is in the map, and the counter is one ahead of the number of keys.\<close>

theorem create_race:
  assumes "sessionMap b key = None" "finite (dom (sessionMap b))" "sess_heap b (sess_next b) = None"
    "sid \<noteq> []" "vhost \<noteq> []" "app \<noteq> []" "stream \<noteq> []" "key \<noteq> []"
  shows "\<exists>b1 b2 i j. createSession_new p1 app stream vhost key sid b = (Ok i, b1)
    \<and> createSession_new p2 app stream vhost key sid b1 = (Ok j, b2) \<and> i \<noteq> j
    \<and> sessionMap b2 key = Some j
    \<and> map_option publisher (sess_heap b2 i) = Some (Some p1) \<and> map_option publisher (sess_heap b2 j) = Some (Some p2)
    \<and> sessionTotal b2 = sessionTotal b + 2 \<and> card (dom (sessionMap b2)) = Suc (card (dom (sessionMap b)))"
proof -
  have "key \<notin> dom (sessionMap b)" using assms(1) by auto
  then show ?thesis
    using assms by (simp add: createSession_new_def newSession_ok Let_def)
qed

theorem create_race_witness:
  "\<exists>b1 b2 i j. createSession_new 1 ''live'' ''a'' ''v'' ''v/live/a'' ''id'' empty_broker = (Ok i, b1)
    \<and> createSession_new 2 ''live'' ''a'' ''v'' ''v/live/a'' ''id'' b1 = (Ok j, b2) \<and> i \<noteq> j
    \<and> sessionMap b2 ''v/live/a'' = Some j \<and> sessionTotal b2 = 2 \<and> card (dom (sessionMap b2)) = 1"
  using create_race [of empty_broker "''v/live/a''" "''id''" "''v''" "''live''" "''a''" 1 2]
  by (auto simp: empty_broker_def)



text \<open>C25: after two departures, every further departure of a publisher of that session blocks for ever. A
  session's goroutine takes one token and its channel has room for one; a publisher's goroutine that waits
  in \<open>softDelSession\<close> to send after two departures were completed never gets on, whatever happens.\<close>

theorem soft_delete_blocks:
  assumes "reachable s" "2 \<le> departures s i" "Sending i \<in> set (calls s)" "broker_step\<^sup>*\<^sup>* s t"
  shows "departures t i = 2 \<and> count_list (calls s) (Sending i) \<le> count_list (calls t) (Sending i)
    \<and> Sending i \<in> set (calls t)"
proof -
  have "departures t i = 2 \<and> count_list (calls s) (Sending i) \<le> count_list (calls t) (Sending i)"
    using assms(4)
  proof (induction rule: rtranclp_induct)
    case base
    show ?case using departures_full [OF assms(1,2)] by simp
  next
    case (step u v)
    have "reachable u" using assms(1) step.hyps(1) by (rule rtranclp_trans)
    with departures_step [OF step.hyps(2), of i] departures_full [of u i] step.IH show ?case by simp
  qed
  moreover have "0 < count_list (calls s) (Sending i)" using assms(3) by (simp add: count_list_0_iff neq0_conv [symmetric])
  ultimately show ?thesis by (metis count_notin leD)
qed

theorem soft_delete_blocks_witness:
  "departures (tale None 1 Cleaning [Sending 0] 2) 0 = 2
    \<and> Sending 0 \<in> set (calls (tale None 1 Cleaning [Sending 0] 2))"
  using soft_delete_blocks [OF timely_reachable [OF tale_third], of 0 "tale None 1 Cleaning [Sending 0] 2"]
    tale_test [of None 1 "[Sending 0]" 2] by simp

text \<open>What \<open>createSession\<close> does in each case. A key whose session has a publisher is refused and nothing
  changes; one whose publisher has left is taken over with its players, its metadata and its sequence
  headers; a new key gets a new session of that publisher with no players.\<close>

lemma createSession_cases:
  assumes "broker_inv b" "sid \<noteq> []" "vhost \<noteq> []" "app \<noteq> []" "stream \<noteq> []" "key \<noteq> []"
  shows "case sessionMap b key of
      Some i \<Rightarrow> (\<exists>s. sess_heap b i = Some s \<and>
        (if publisher s = None
         then \<exists>c. createSession p app stream vhost key sid b = (Ok i, c)
              \<and> sess_heap c i = Some (s\<lparr>publisher := Some p, sess_id := sid\<rparr>) \<and> sessionMap c = sessionMap b
         else createSession p app stream vhost key sid b = (Err (ErrNew ''session exists''), b)))
    | None \<Rightarrow> (\<exists>i c s. createSession p app stream vhost key sid b = (Ok i, c) \<and> sess_heap b i = None
        \<and> sessionMap c = (sessionMap b)(key \<mapsto> i) \<and> sess_heap c i = Some s \<and> publisher s = Some p
        \<and> players s = Map.empty \<and> watches c i = Waiting)"
proof (cases "sessionMap b key")
  case None
  with broker_inv_fresh [OF assms(1)] assms show ?thesis
    by (simp add: createSession_def createSession_new_def newSession_ok Let_def zero_session_def)
next
  case (Some i)
  then obtain s where "sess_heap b i = Some s" using broker_invD(1) [OF assms(1)] by blast
  with Some show ?thesis by (simp add: createSession_def createSession_found_def take_over_def)
qed

end
