(* ===== verification/Server_Conn.thy ===== *)
theory Server_Conn
  imports Conn_Roundtrip Amf0 Handshake
begin

text \<open>
  A client's connection to the server (\<open>pkg/rtmp/server/server_conn.go\<close>, \<open>utils.go\<close>): its options and
  handshake, the command messages \<open>connect\<close>, \<open>createStream\<close>, \<open>publish\<close> and \<open>play\<close> with their responses,
  and the data message \<open>@setDataFrame\<close>. What needs the broker and the players is in \<open>Server_World\<close>.

  A response is a list of messages, queued in order and flushed together (\<open>send_list\<close>). A constructor
  whose error the code ignores leaves a nil message, whose sending is a nil dereference. What the code
  leaves open is a \<open>wire_choice\<close>: the buffers and chunks the pools return, the order in which a map is
  visited while it is encoded, and how the network takes the flush.
\<close>

section \<open>State\<close>

record clientConnectInfo =
  ci_app :: string
  flashVer :: string
  swfUrl :: string
  tcUrl :: string
  fpad :: bool
  audioCodecs :: int
  videoCodecs :: int
  videoFunction :: int
  pageUrl :: string
  objectEncoding :: int

record clientPublishOrPlayInfo =
  clientType :: u8            \<comment> \<open>0, 1 (publish), 2 (play)\<close>
  cp_stream :: string
  cp_app :: string

record onMetaData =
  Duration :: u64             \<comment> \<open>float64 values are IEEE 754 bit patterns\<close>
  Filesize :: u64
  Encoder :: string
  Width :: u64
  Height :: u64
  VideoCodecID :: int
  Framerate :: u64
  VideodataRate :: u64
  AudioCodecID :: int
  Audiochannels :: int
  Stereo :: bool
  Audiodatarate :: u64
  Audiosamplerate :: u64
  Audiosamplesize :: u64

record conn =
  has_server :: bool          \<comment> \<open>\<open>c.server != nil\<close>\<close>
  Connection :: connection
  handshakeStatus :: u32
  handshakeErr :: "error option"
  connectInfo :: clientConnectInfo
  publishInfo :: clientPublishOrPlayInfo
  metaInfo :: onMetaData
  sess :: "nat option"

definition zero_connectInfo :: clientConnectInfo where
  "zero_connectInfo = \<lparr>ci_app = [], flashVer = [], swfUrl = [], tcUrl = [], fpad = False, audioCodecs = 0,
     videoCodecs = 0, videoFunction = 0, pageUrl = [], objectEncoding = 0\<rparr>"

definition zero_publishInfo :: clientPublishOrPlayInfo where
  "zero_publishInfo = \<lparr>clientType = 0, cp_stream = [], cp_app = []\<rparr>"

definition zero_onMetaData :: onMetaData where
  "zero_onMetaData = \<lparr>Duration = 0, Filesize = 0, Encoder = [], Width = 0, Height = 0, VideoCodecID = 0,
     Framerate = 0, VideodataRate = 0, AudioCodecID = 0, Audiochannels = 0, Stereo = False,
     Audiodatarate = 0, Audiosamplerate = 0, Audiosamplesize = 0\<rparr>"

text \<open>An operation of the embedded connection.\<close>

definition on_connection :: "(connection, 'a) go \<Rightarrow> (conn, 'a) go" where
  "on_connection m c = (case m (Connection c) of (r, cn) \<Rightarrow> (r, c\<lparr>Connection := cn\<rparr>))"

section \<open>Creation\<close>

definition errServer :: error where
  "errServer = ErrNew ''server conn belongs server required''"

definition WithServerConnServer :: "bool \<Rightarrow> conn \<Rightarrow> conn" where
  "WithServerConnServer b c = c\<lparr>has_server := b\<rparr>"

text \<open>The raw connection: what the peer will send, the error after it, and nothing written yet.\<close>

definition WithServerConnRawConn :: "bytes \<Rightarrow> error \<Rightarrow> conn \<Rightarrow> conn" where
  "WithServerConnRawConn input fin c = c\<lparr>Connection := (Connection c)
     \<lparr>Rwc_set := True, rd_pending := input, rd_end := fin, rwc_closed := False, wire_out := []\<rparr>\<rparr>"

definition WithServerConnReadBufSize :: "int \<Rightarrow> conn \<Rightarrow> conn" where
  "WithServerConnReadBufSize n c = c\<lparr>Connection := (Connection c)\<lparr>ReadBufSize := n\<rparr>\<rparr>"

definition WithServerConnLocalChunkSize :: "u32 \<Rightarrow> conn \<Rightarrow> conn" where
  "WithServerConnLocalChunkSize n c = c\<lparr>Connection := (Connection c)\<lparr>LocalChunkSize := n\<rparr>\<rparr>"

definition WithServerConnReadHdrPoll :: "bool \<Rightarrow> conn \<Rightarrow> conn" where
  "WithServerConnReadHdrPoll b c = c\<lparr>Connection := (Connection c)\<lparr>DecodeHdrPool_set := b\<rparr>\<rparr>"

text \<open>The pool is shared by all connections; \<open>pool\<close> is what it holds.\<close>

definition WithServerConnChunkEncodePool :: "gslice list \<Rightarrow> conn \<Rightarrow> conn" where
  "WithServerConnChunkEncodePool pool c =
     c\<lparr>Connection := (Connection c)\<lparr>EncodeHdrPool_set := True, EncodeHdrPool := pool\<rparr>\<rparr>"

definition WithServerConnNewChunkPool :: "bool \<Rightarrow> conn \<Rightarrow> conn" where
  "WithServerConnNewChunkPool b c = c\<lparr>Connection := (Connection c)\<lparr>NewChunkPool_set := b\<rparr>\<rparr>"

lemmas server_conn_options = WithServerConnServer_def WithServerConnRawConn_def WithServerConnReadBufSize_def
  WithServerConnLocalChunkSize_def WithServerConnReadHdrPoll_def WithServerConnChunkEncodePool_def
  WithServerConnNewChunkPool_def

definition zero_ackWindowSize :: ackWindowSize where
  "zero_ackWindowSize = \<lparr>WindowSize = 0, NBytes = 0, SequenceNumber = 0\<rparr>"

definition zero_connection :: connection where
  "zero_connection = \<lparr>Rwc_set = False, DecodeHdrPool_set = False, EncodeHdrPool_set = False,
     NewChunkPool_set = False, rd_pending = [], rd_end = ErrEOF, rwc_closed = False, wire_out = [],
     ReadBufSize = 0, reader_size = 0, RemoteChunkSize = 0, InAckSize = zero_ackWindowSize,
     LocalChunkSize = 0, OutAckSize = zero_ackWindowSize, writeBuf = [], TransactionID = 0,
     messages = Map.empty, EncodeHdrPool = []\<rparr>"

definition zero_conn :: conn where
  "zero_conn = \<lparr>has_server = False, Connection = zero_connection, handshakeStatus = 0, handshakeErr = None,
     connectInfo = zero_connectInfo, publishInfo = zero_publishInfo, metaInfo = zero_onMetaData, sess = None\<rparr>"

definition conn_loadOptions :: "(conn \<Rightarrow> conn) list \<Rightarrow> conn \<Rightarrow> conn res" where
  "conn_loadOptions opts c0 =
     (let c = fold (\<lambda>opt x. opt x) opts c0
      in if \<not> has_server c then Err errServer else Ok c)"

definition newServerConn :: "(conn \<Rightarrow> conn) list \<Rightarrow> conn res" where
  "newServerConn opts =
     (case conn_loadOptions opts zero_conn of
        Err e \<Rightarrow> Err (Wrap ''load options'' e)
      | Panic p \<Rightarrow> Panic p
      | Ok c \<Rightarrow>
          (case on_connection conn_Init c of
             (Err e, _) \<Rightarrow> Err (Wrap ''init connection'' e)
           | (Panic p, _) \<Rightarrow> Panic p
           | (Ok _, c) \<Rightarrow> Ok c))"

section \<open>Handshake\<close>

definition hs_of :: "connection \<Rightarrow> hs_conn" where
  "hs_of cn = \<lparr>hs_in = rd_pending cn, hs_end = read_error cn, hs_out = wire_out cn\<rparr>"

definition handshake ::
  "(hs_conn \<Rightarrow> hs_conn) option \<Rightarrow> (nat \<Rightarrow> nat \<Rightarrow> bytes) \<Rightarrow> (nat \<times> error) option \<Rightarrow> (conn, unit) go" where
  "handshake timeout rand fault c =
     (case handshakeErr c of
        Some e \<Rightarrow> (Err e, c)
      | None \<Rightarrow>
          if handshakeStatus c = 1 then (Ok (), c)
          else
            (case WithClient timeout rand fault (hs_of (Connection c)) of
               (r, h) \<Rightarrow>
                 (let c = c\<lparr>Connection := (Connection c)\<lparr>rd_pending := hs_in h, wire_out := hs_out h\<rparr>\<rparr>
                  in case r of
                       Err e \<Rightarrow> (Err e, c\<lparr>handshakeErr := Some e\<rparr>)
                     | Panic p \<Rightarrow> (Panic p, c)
                     | Ok _ \<Rightarrow>
                         (let c = c\<lparr>handshakeStatus := handshakeStatus c + 1\<rparr>
                          in if handshakeStatus c = 1 then (Ok (), c)
                             else
                               (let e = ErrNew ''rtmp: internal error: handshake should be had a result''
                                in (Err e, c\<lparr>handshakeErr := Some e\<rparr>))))))"

section \<open>Responses\<close>

record wire_choice =
  w_pick :: "nat \<Rightarrow> nat \<Rightarrow> nat"
  w_ck :: chunk
  w_order :: "nat \<Rightarrow> (string \<times> amf_value) list \<Rightarrow> (string \<times> amf_value) list"
  w_fault :: "(nat \<times> error) option"
  w_small :: bool

definition send_or_nil :: "wire_choice \<Rightarrow> nat \<Rightarrow> string \<Rightarrow> chunk res \<Rightarrow> (connection, nat) go" where
  "send_or_nil ch k what m =
     (case m of
        Ok msg \<Rightarrow> go_wrap what (SendIntegralMessage (w_pick ch k) (w_ck ch) msg)
      | Err _ \<Rightarrow> go_panic NilDereference
      | Panic p \<Rightarrow> go_panic p)"

primrec send_list :: "wire_choice \<Rightarrow> nat \<Rightarrow> (string \<times> chunk res) list \<Rightarrow> (connection, nat) go" where
  "send_list ch k [] = go_return 0"
| "send_list ch k (x # xs) =
     go_bind (send_or_nil ch k (fst x) (snd x)) (\<lambda>nw.
     go_bind (send_list ch (Suc k) xs) (\<lambda>n. go_return (nw + n)))"

text \<open>The flush after them, which has to write what was queued.\<close>

definition flush_total :: "wire_choice \<Rightarrow> string \<Rightarrow> nat \<Rightarrow> (connection, unit) go" where
  "flush_total ch what need =
     go_bind (go_wrap what (conn_Flush (w_fault ch) (w_small ch))) (\<lambda>nf.
     if nf \<noteq> need then go_fail (ErrNew ''need write'') else go_return ())"

definition respond :: "wire_choice \<Rightarrow> string \<Rightarrow> (string \<times> chunk res) list \<Rightarrow> (connection, unit) go" where
  "respond ch what xs = go_bind (send_list ch 0 xs) (flush_total ch what)"

text \<open>A command message in answer to \<open>msg\<close>; \<open>k\<close> is its place in the response.\<close>

definition command :: "stream \<Rightarrow> amf_value list \<Rightarrow> chunk res" where
  "command msg args = NewCommandMessage EncodeAmf0 (GetChunkCsid msg) (GetChunkMessageStreamID msg) args"

definition status_event :: "string \<Rightarrow> string \<Rightarrow> (string \<times> amf_value) list" where
  "status_event code description =
     [(''level'', AString ''status''), (''code'', AString code), (''description'', AString description)]"

definition onStatus :: "wire_choice \<Rightarrow> nat \<Rightarrow> stream \<Rightarrow> string \<Rightarrow> string \<Rightarrow> chunk res" where
  "onStatus ch k msg code description =
     command msg [AString ''onStatus'', AInt 0, ANil, AObject (w_order ch k (status_event code description))]"

definition connect_messages :: "wire_choice \<Rightarrow> stream \<Rightarrow> conn \<Rightarrow> (string \<times> chunk res) list" where
  "connect_messages ch msg c =
     [(''send WindowAcknowledgementSize message'',
       NewProcotolControlMessage MsgWindowAcknowledgementSize 4 (WindowSize (OutAckSize (Connection c)))),
      (''send SetPeerBandwidth message'',
       res_bind (NewProcotolControlMessage MsgSetPeerBandwidth 5 2500000) (\<lambda>m.
         if 4 < length (ChunkData m) then Ok (m\<lparr>ChunkData := (ChunkData m)[4 := 2]\<rparr>)
         else Panic IndexOutOfRange)),
      (''send SetPeerBandwidth message'',
       NewProcotolControlMessage MsgSetChunkSize 4 (LocalChunkSize (Connection c))),
      (''send NetConnection.Connect.Success message'',
       command msg
         [AString ''_result'', AInt (TransactionID (Connection c)),
          AObject (w_order ch 3 [(''fmsVer'', AString ''FMS/3,0,1,123''), (''capabilities'', AInt 31)]),
          AObject (w_order ch 4
            (status_event ''NetConnection.Connect.Success'' ''Connection succeeded.''
              @ [(''objectEncoding'', AInt (objectEncoding (connectInfo c)))]))])]"

definition respConnectCommandMessage :: "wire_choice \<Rightarrow> stream \<Rightarrow> (conn, unit) go" where
  "respConnectCommandMessage ch msg c =
     on_connection (respond ch ''flush response connect command message data'' (connect_messages ch msg c)) c"

definition respCreateStreamCommandMessage :: "wire_choice \<Rightarrow> stream \<Rightarrow> (conn, unit) go" where
  "respCreateStreamCommandMessage ch msg c =
     on_connection (respond ch ''flush createStream _result message data''
       [(''send createStream _result message'',
         command msg [AString ''_result'', AInt (TransactionID (Connection c)), ANil, AInt 1])]) c"

definition respPublishCommandMessage :: "wire_choice \<Rightarrow> stream \<Rightarrow> (conn, unit) go" where
  "respPublishCommandMessage ch msg =
     on_connection (respond ch ''flush NetStream.Publish.Start command message data''
       [(''send NetStream.Publish.Start command message'',
         onStatus ch 0 msg ''NetStream.Publish.Start'' ''Start publising.'')])"

definition play_messages :: "wire_choice \<Rightarrow> stream \<Rightarrow> (string \<times> chunk res) list" where
  "play_messages ch msg =
     [(''send streamIsRecorded user control message'', NewlUserControlMessage 4 6),
      (''send streamBegin user control message'', NewlUserControlMessage 0 6),
      (''send NetStream.Play.Reset command message'',
       onStatus ch 2 msg ''NetStream.Play.Reset'' ''Playing and resetting stream.''),
      (''send NetStream.Play.Start command message'',
       onStatus ch 3 msg ''NetStream.Play.Start'' ''Started playing stream.''),
      (''send NetStream.Data.Start command message'',
       onStatus ch 4 msg ''NetStream.Data.Start'' ''Started playing stream.''),
      (''send NetStream.Play.PublishNotify command message'',
       onStatus ch 5 msg ''NetStream.Play.PublishNotify'' ''Started playing notify.'')]"

definition respPlayCommandMessage :: "wire_choice \<Rightarrow> stream \<Rightarrow> (conn, unit) go" where
  "respPlayCommandMessage ch msg =
     on_connection (respond ch ''flush response play command message data'' (play_messages ch msg))"

section \<open>Command messages\<close>

text \<open>The value of a key, if it has the type asked for.\<close>

definition get_string :: "(string \<times> amf_value) list \<Rightarrow> string \<Rightarrow> string option" where
  "get_string ob k = (case map_of ob k of Some (AString s) \<Rightarrow> Some s | _ \<Rightarrow> None)"

definition get_bool :: "(string \<times> amf_value) list \<Rightarrow> string \<Rightarrow> bool option" where
  "get_bool ob k = (case map_of ob k of Some (ABool b) \<Rightarrow> Some b | _ \<Rightarrow> None)"

definition get_int :: "(string \<times> amf_value) list \<Rightarrow> string \<Rightarrow> int option" where
  "get_int ob k = (case map_of ob k of Some (AInt i) \<Rightarrow> Some i | _ \<Rightarrow> None)"

definition get_float :: "(string \<times> amf_value) list \<Rightarrow> string \<Rightarrow> u64 option" where
  "get_float ob k = (case map_of ob k of Some (ANumber w) \<Rightarrow> Some w | _ \<Rightarrow> None)"

text \<open>\<open>if v, ok := \<dots>; ok { field = v }\<close>\<close>

definition set_if :: "('v \<Rightarrow> 'r \<Rightarrow> 'r) \<Rightarrow> 'v option \<Rightarrow> 'r \<Rightarrow> 'r" where
  "set_if upd v r = (case v of None \<Rightarrow> r | Some x \<Rightarrow> upd x r)"

definition connect_object :: "(string \<times> amf_value) list \<Rightarrow> clientConnectInfo \<Rightarrow> clientConnectInfo" where
  "connect_object ob i =
     (let i = set_if (\<lambda>v. ci_app_update (\<lambda>_. v)) (get_string ob ''app'') i;
          i = set_if (\<lambda>v. flashVer_update (\<lambda>_. v)) (get_string ob ''flashVer'') i;
          i = set_if (\<lambda>v. swfUrl_update (\<lambda>_. v)) (get_string ob ''swfUrl'') i;
          i = set_if (\<lambda>v. tcUrl_update (\<lambda>_. v)) (get_string ob ''tcUrl'') i;
          i = set_if (\<lambda>v. fpad_update (\<lambda>_. v)) (get_bool ob ''fpad'') i;
          i = set_if (\<lambda>v. audioCodecs_update (\<lambda>_. v)) (get_int ob ''audioCodecs'') i;
          i = set_if (\<lambda>v. videoCodecs_update (\<lambda>_. v)) (get_int ob ''videoCodecs'') i;
          i = set_if (\<lambda>v. videoFunction_update (\<lambda>_. v)) (get_int ob ''videoFunction'') i;
          i = set_if (\<lambda>v. pageUrl_update (\<lambda>_. v)) (get_string ob ''pageUrl'') i
      in set_if (\<lambda>v. objectEncoding_update (\<lambda>_. float_to_int v)) (get_float ob ''objectEncoding'') i)"

definition set_TransactionID :: "int \<Rightarrow> conn \<Rightarrow> conn" where
  "set_TransactionID i c = c\<lparr>Connection := (Connection c)\<lparr>TransactionID := i\<rparr>\<rparr>"

fun connect_args :: "amf_value list \<Rightarrow> (conn, unit) go" where
  "connect_args [] = go_return ()"
| "connect_args (ANumber w # vs) = (\<lambda>c.
     let c = set_TransactionID (float_to_int w) c
     in if TransactionID (Connection c) \<noteq> 1
        then (Err (ErrNew ''client connect message, Transaction ID is not 1''), c)
        else connect_args vs c)"
| "connect_args (AObject ob # vs) = (\<lambda>c.
     connect_args vs (c\<lparr>connectInfo := connect_object ob (connectInfo c)\<rparr>))"
| "connect_args (_ # vs) = connect_args vs"

definition handleConnectCommandMessage :: "wire_choice \<Rightarrow> stream \<Rightarrow> amf_value list \<Rightarrow> (conn, unit) go" where
  "handleConnectCommandMessage ch msg vs =
     go_bind (connect_args vs) (\<lambda>_ c.
     if ci_app (connectInfo c) = [] \<or> tcUrl (connectInfo c) = []
     then (Err (ErrNew ''app and tcUrl params required while handle connect command message''), c)
     else go_wrap ''response connect command message'' (respConnectCommandMessage ch msg) c)"

text \<open>The last number among the arguments is the transaction id.\<close>

fun transaction_args :: "amf_value list \<Rightarrow> conn \<Rightarrow> conn" where
  "transaction_args [] c = c"
| "transaction_args (ANumber w # vs) c = transaction_args vs (set_TransactionID (float_to_int w) c)"
| "transaction_args (_ # vs) c = transaction_args vs c"

definition handleCreateStreamCommandMessage :: "wire_choice \<Rightarrow> stream \<Rightarrow> amf_value list \<Rightarrow> (conn, unit) go" where
  "handleCreateStreamCommandMessage ch msg vs c =
     go_wrap ''response createStream command Message'' (respCreateStreamCommandMessage ch msg)
       (transaction_args vs c)"

text \<open>The loop of \<open>publish\<close> and \<open>play\<close> over the arguments with their index.\<close>

fun stream_args :: "nat \<Rightarrow> amf_value list \<Rightarrow> conn \<Rightarrow> conn" where
  "stream_args k [] c = c"
| "stream_args k (AString s # vs) c =
     stream_args (Suc k) vs
       (if k = 2 then c\<lparr>publishInfo := (publishInfo c)\<lparr>cp_stream := s\<rparr>\<rparr>
        else if k = 3 then c\<lparr>publishInfo := (publishInfo c)\<lparr>cp_app := s\<rparr>\<rparr>
        else c)"
| "stream_args k (ANumber w # vs) c = stream_args (Suc k) vs (set_TransactionID (float_to_int w) c)"
| "stream_args k (_ # vs) c = stream_args (Suc k) vs c"

definition handlePublishCommandMessage :: "wire_choice \<Rightarrow> stream \<Rightarrow> amf_value list \<Rightarrow> (conn, unit) go" where
  "handlePublishCommandMessage ch msg vs c =
     (let c = stream_args 0 vs c
      in if cp_stream (publishInfo c) = []
         then (Err (ErrNew ''stream empty after publish command message decoded''), c)
         else go_wrap ''response publish command message'' (respPublishCommandMessage ch msg)
                (c\<lparr>publishInfo := (publishInfo c)\<lparr>clientType := 1\<rparr>\<rparr>))"

definition handlePlayCommandMessage :: "wire_choice \<Rightarrow> stream \<Rightarrow> amf_value list \<Rightarrow> (conn, unit) go" where
  "handlePlayCommandMessage ch msg vs c =
     (let c = stream_args 0 vs c
      in if cp_stream (publishInfo c) = []
         then (Err (ErrNew ''stream empty after play command message decoded''), c)
         else go_wrap ''response play command message'' (respPlayCommandMessage ch msg)
                (c\<lparr>publishInfo := (publishInfo c)\<lparr>clientType := 2\<rparr>\<rparr>))"

text \<open>
  \<open>msg.ChunkData = msg.ChunkData[1:]\<close> for AMF3 messages: what the handlers of command and of data
  messages leave in the message.
\<close>

definition skip_amf3_byte :: "RtmpMessageTypeID \<Rightarrow> RtmpMessageTypeID \<Rightarrow> stream \<Rightarrow> stream" where
  "skip_amf3_byte amf3Type typeId msg =
     (if typeId = amf3Type \<and> length (ChunkData msg) > 1 then msg\<lparr>ChunkData := drop 1 (ChunkData msg)\<rparr> else msg)"

text \<open>Decoding the body; an error other than the end of the body ends the handler with \<open>what\<close>.\<close>

definition decode_body :: "amf_value reader \<Rightarrow> string \<Rightarrow> stream \<Rightarrow> amf_value list res" where
  "decode_body amf3 what msg =
     res_bind (DecodeBatch amf3 (ChunkData msg)) (\<lambda>(vs, err).
       if err \<noteq> ErrEOF then Err (Wrap what err) else Ok vs)"

definition dispatch_command :: "wire_choice \<Rightarrow> stream \<Rightarrow> string \<Rightarrow> amf_value list \<Rightarrow> (conn, unit) go" where
  "dispatch_command ch msg cmd vs =
     (if cmd = ''connect'' then
        go_wrap ''handle connect command message'' (handleConnectCommandMessage ch msg vs)
      else if cmd = ''createStream'' then
        go_wrap ''handle createStream command message'' (handleCreateStreamCommandMessage ch msg vs)
      else if cmd = ''publish'' then
        go_wrap ''handle publish command message'' (handlePublishCommandMessage ch msg vs)
      else if cmd = ''play'' then
        go_wrap ''handle play command message'' (handlePlayCommandMessage ch msg vs)
      else go_return ())"

definition handleCommandMessage ::
  "amf_value reader \<Rightarrow> wire_choice \<Rightarrow> stream \<Rightarrow> RtmpMessageTypeID \<Rightarrow> (conn, unit) go" where
  "handleCommandMessage amf3 ch msg typeId =
     (let msg = skip_amf3_byte MsgAMF3CommandMessage typeId msg
      in go_bind (go_lift (decode_body amf3 ''decode command message'' msg)) (\<lambda>vs.
         case vs of
           [] \<Rightarrow> go_panic IndexOutOfRange
         | AString cmd # vs \<Rightarrow> dispatch_command ch msg cmd vs
         | _ # _ \<Rightarrow> go_return ()))"

section \<open>Data messages\<close>

definition meta_object :: "(string \<times> amf_value) list \<Rightarrow> onMetaData \<Rightarrow> onMetaData" where
  "meta_object ob m =
     (let m = set_if (\<lambda>v. Duration_update (\<lambda>_. v)) (get_float ob ''duration'') m;
          m = set_if (\<lambda>v. Filesize_update (\<lambda>_. v)) (get_float ob ''fileSize'') m;
          m = set_if (\<lambda>v. Encoder_update (\<lambda>_. v)) (get_string ob ''encoder'') m;
          m = set_if (\<lambda>v. Width_update (\<lambda>_. v)) (get_float ob ''width'') m;
          m = set_if (\<lambda>v. Height_update (\<lambda>_. v)) (get_float ob ''height'') m;
          m = set_if (\<lambda>v. VideoCodecID_update (\<lambda>_. float_to_int v)) (get_float ob ''videocodecid'') m;
          m = set_if (\<lambda>v. Framerate_update (\<lambda>_. v)) (get_float ob ''framerate'') m;
          m = set_if (\<lambda>v. VideodataRate_update (\<lambda>_. v)) (get_float ob ''videodatarate'') m;
          m = set_if (\<lambda>v. AudioCodecID_update (\<lambda>_. float_to_int v)) (get_float ob ''audiocodecid'') m;
          m = set_if (\<lambda>v. Audiochannels_update (\<lambda>_. float_to_int v)) (get_float ob ''audiochannels'') m;
          m = set_if (\<lambda>v. Stereo_update (\<lambda>_. v)) (get_bool ob ''stereo'') m;
          m = set_if (\<lambda>v. Audiodatarate_update (\<lambda>_. v)) (get_float ob ''audiodatarate'') m;
          m = set_if (\<lambda>v. Audiosamplerate_update (\<lambda>_. v)) (get_float ob ''audiosamplerate'') m
      in set_if (\<lambda>v. Audiosamplesize_update (\<lambda>_. v)) (get_float ob ''audiosamplesize'') m)"

fun handleSetDataFrameDataMessage :: "amf_value list \<Rightarrow> conn \<Rightarrow> conn" where
  "handleSetDataFrameDataMessage [] c = c"
| "handleSetDataFrameDataMessage (AObject ob # vs) c =
     handleSetDataFrameDataMessage vs (c\<lparr>metaInfo := meta_object ob (metaInfo c)\<rparr>)"
| "handleSetDataFrameDataMessage (_ # vs) c = handleSetDataFrameDataMessage vs c"

definition handleDataMessage ::
  "amf_value reader \<Rightarrow> stream \<Rightarrow> RtmpMessageTypeID \<Rightarrow> (conn, unit) go" where
  "handleDataMessage amf3 msg typeId =
     (let msg = skip_amf3_byte MsgAMF3DataMessage typeId msg
      in go_bind (go_lift (decode_body amf3 ''decode data message'' msg)) (\<lambda>vs.
         case vs of
           [] \<Rightarrow> go_panic IndexOutOfRange
         | AString cmd # vs \<Rightarrow>
             (if cmd = ''@setDataFrame'' then go_modify (handleSetDataFrameDataMessage vs) else go_return ())
         | _ # _ \<Rightarrow> go_return ()))"

end
