(* ===== verification/Server_Responses.thy ===== *)
theory Server_Responses
  imports Server_Conn "HOL-Library.Multiset"
begin

text \<open>
  What a client receives in answer to its command messages: the responses of \<open>Server_Conn\<close> are sent
  whole, a peer that reads with the receiver of \<open>Conn_Recv\<close> gets them message by message, and what it
  decodes from them. Also the requests that are refused, and the bodies the handlers cannot survive.
\<close>

section \<open>Sending a response\<close>

text \<open>The bytes of the basic header of a message.\<close>

definition header_room :: "'a chunk_scheme \<Rightarrow> nat" where
  "header_room msg = (if GetChunkCsid msg < 64 then 1 else if GetChunkCsid msg < 320 then 2 else 3)"

lemma header_room_ge: "1 \<le> header_room msg"
  by (simp add: header_room_def)

lemma header_room_data [simp]: "header_room (msg\<lparr>ChunkData := d\<rparr>) = header_room msg"
  by (simp add: header_room_def chunk_getters)

lemma length_basic_header: "length (basic_bytes (basic_header (hdr msg))) = header_room msg"
  by (simp add: length_basic_bytes header_room_def chunk_getters)

lemma send_list_ok:
  "map snd xs = map Ok msgs \<Longrightarrow> \<forall>msg \<in> set msgs. sendable msg \<and> header_room msg \<le> rm \<Longrightarrow> rm \<le> 18 \<Longrightarrow>
    pool_ok rm c \<Longrightarrow> queue_ok c \<Longrightarrow>
    L = unat (LocalChunkSize c) \<Longrightarrow> 0 < L \<Longrightarrow>
    \<exists>c1. send_list ch k xs c = (Ok (length (concat (map (wire_bytes L) msgs))), c1)
      \<and> queued rm c (concat (map (wire_bytes L) msgs)) c1"
proof (induction xs arbitrary: k msgs c)
  case Nil
  then show ?case by (simp add: go_return_def queued_refl)
next
  case (Cons x xs)
  then obtain msg ms where ms: "msgs = msg # ms" and x: "snd x = Ok msg" and xs: "map snd xs = map Ok ms"
    by (cases msgs) auto
  have "sendable msg" "length (basic_bytes (basic_header (hdr msg))) \<le> rm"
    using Cons.prems ms by (simp_all add: length_basic_header)
  with SendIntegralMessage_ok [OF _ _ Cons.prems(3-7), of msg "w_pick ch k" "w_ck ch"]
  obtain c1 where r: "SendIntegralMessage (w_pick ch k) (w_ck ch) msg c = (Ok (length (wire_bytes L msg)), c1)"
    and q: "queued rm c (wire_bytes L msg) c1" by auto
  have "pool_ok rm c1" "queue_ok c1" "L = unat (LocalChunkSize c1)"
    using q Cons.prems(6) by (auto simp: queued_def)
  with Cons.IH [OF xs, of c1 "Suc k"] Cons.prems ms obtain c2 where
    "send_list ch (Suc k) xs c1 = (Ok (length (concat (map (wire_bytes L) ms))), c2)"
    and "queued rm c1 (concat (map (wire_bytes L) ms)) c2" by auto
  with x r queued_trans [OF q] show ?case
    by (auto simp: ms go_bind_def go_return_def send_or_nil_def go_wrap_def)
qed

text \<open>
  A connection a response can be sent on. The buffers of the pool come back with the length of the last
  header written into them, which may be a single byte; a basic header of \<open>rm\<close> bytes needs that much room.
\<close>

definition can_respond :: "nat \<Rightarrow> connection \<Rightarrow> bool" where
  "can_respond rm c \<longleftrightarrow> 1 \<le> rm \<and> rm \<le> 18 \<and> pool_ok rm c \<and> writeBuf c = [] \<and> 128 < LocalChunkSize c"

lemma respond_ok:
  assumes c: "can_respond rm c" and f: "w_fault ch = None"
    and xs: "map snd xs = map Ok msgs" "\<forall>msg \<in> set msgs. sendable msg \<and> header_room msg \<le> rm"
  shows "\<exists>c1. respond ch what xs c = (Ok (), c1)
    \<and> wire_out c1 = wire_out c @ concat (map (wire_bytes (unat (LocalChunkSize c))) msgs)"
proof -
  let ?L = "unat (LocalChunkSize c)" and ?bs = "concat (map (wire_bytes (unat (LocalChunkSize c))) msgs)"
  have L: "0 < ?L" and w: "writeBuf c = []" "1 \<le> rm" "rm \<le> 18" "pool_ok rm c" and q: "queue_ok c"
    using c by (auto simp: can_respond_def queue_ok_def word_less_nat_alt)
  from send_list_ok [OF xs w(3,4) q refl L, of ch 0] obtain c1 where
    s: "send_list ch 0 xs c = (Ok (length ?bs), c1)" and qd: "queued rm c ?bs c1" by blast
  from Flush_queued [OF qd w(1,2)] obtain c2 where
    "conn_Flush None (w_small ch) c1 = (Ok (length ?bs), c2)" "wire_out c2 = wire_out c @ ?bs" by blast
  with s f show ?thesis
    by (simp add: respond_def flush_total_def go_bind_def go_wrap_def go_return_def)
qed

section \<open>The messages of a response\<close>

text \<open>The map of a message is visited in some order.\<close>

definition orders :: "wire_choice \<Rightarrow> bool" where
  "orders ch \<longleftrightarrow> (\<forall>k xs. mset (w_order ch k xs) = mset xs)"

lemma orders_facts:
  assumes "orders ch"
  shows "set (w_order ch k xs) = set xs" "length (w_order ch k xs) = length xs"
    "distinct (map fst (w_order ch k xs)) \<longleftrightarrow> distinct (map fst xs)"
    "sum_list (map f (w_order ch k xs)) = sum_list (map (f :: _ \<Rightarrow> nat) xs)"
proof -
  have m: "mset (w_order ch k xs) = mset xs" using assms by (simp add: orders_def)
  then show "set (w_order ch k xs) = set xs" "length (w_order ch k xs) = length xs"
    by (metis set_mset_mset, metis size_mset)
  have "mset (map fst (w_order ch k xs)) = mset (map fst xs)" using m by simp
  then show "distinct (map fst (w_order ch k xs)) \<longleftrightarrow> distinct (map fst xs)"
    by (rule mset_eq_imp_distinct_iff)
  show "sum_list (map f (w_order ch k xs)) = sum_list (map f xs)"
    using m by (metis mset_map sum_mset_sum_list)
qed

text \<open>Strings, integers and nil, and the length of their encoding.\<close>

fun flat :: "amf_value \<Rightarrow> bool" where
  "flat (AString s) = (length s \<le> 65535)"
| "flat (AInt i) = True"
| "flat ANil = True"
| "flat _ = False"

fun flat_len :: "amf_value \<Rightarrow> nat" where
  "flat_len (AString s) = 3 + length s"
| "flat_len (AInt i) = 9"
| "flat_len _ = 1"

lemma encode_flat: "flat v \<Longrightarrow> \<exists>bs. EncodeAmf0 v = Inr bs \<and> length bs = flat_len v"
  by (cases v rule: flat.cases)
    (auto simp: EncodeAmf0String_def encode_string_def EncodeAmf0Number_def)

lemma encode_flat_pairs:
  "\<forall>p \<in> set ob. flat (snd p) \<Longrightarrow> \<exists>bs. encode_pairs ob = Inr bs
    \<and> length bs = sum_list (map (\<lambda>p. 2 + length (fst p) + flat_len (snd p)) ob)"
proof (induction ob)
  case (Cons p ob)
  obtain k v where p: "p = (k, v)" by (cases p)
  with Cons.prems encode_flat [of v] obtain b where "EncodeAmf0 v = Inr b" "length b = flat_len v" by auto
  with p Cons show ?case by (auto simp: encode_string_def)
qed simp

lemma encode_flat_object:
  assumes "orders ch" "\<forall>p \<in> set ob. flat (snd p)"
  shows "\<exists>bs. EncodeAmf0 (AObject (w_order ch k ob)) = Inr bs
    \<and> length bs = 4 + sum_list (map (\<lambda>p. 2 + length (fst p) + flat_len (snd p)) ob)"
  using encode_flat_pairs [of "w_order ch k ob"] assms orders_facts(1,4) [OF assms(1)]
  by (auto simp: encode_string_def bytes_of_def)

lemma flat_plain: "flat v \<Longrightarrow> amf_plain v"
  by (cases v rule: flat.cases) auto

lemma plain_object:
  assumes "orders ch" "\<forall>p \<in> set ob. flat (snd p) \<and> fst p \<noteq> [] \<and> length (fst p) \<le> 65535"
    "distinct (map fst ob)"
  shows "amf_plain (AObject (w_order ch k ob))"
  using assms orders_facts(1,3) [OF assms(1)] by (auto intro: flat_plain)

text \<open>What a peer finds in the object of a message.\<close>

lemma norm_object:
  assumes "orders ch" "distinct (map fst ob)"
  shows "\<exists>o1. amf_norm (AObject (w_order ch k ob)) = AObject o1 \<and> map_of o1 = map_option amf_norm \<circ> map_of ob"
proof -
  let ?n = "\<lambda>p. (fst p, amf_norm (snd p))"
  have fst: "map fst (map ?n xs) = map fst xs" for xs :: "(string \<times> amf_value) list" by (simp add: comp_def)
  have "map_of (map ?n (w_order ch k ob)) = map_of (map ?n ob)"
    using assms orders_facts(1,3) [OF assms(1)] by (subst map_of_inject_set) (simp_all add: fst comp_def)
  moreover have "map_of (map ?n ob) = map_option amf_norm \<circ> map_of ob"
    by (induction ob) (auto simp: fun_eq_iff)
  ultimately show ?thesis by simp
qed

text \<open>A command message whose arguments encode to \<open>bs\<close>.\<close>

definition command_chunk :: "stream \<Rightarrow> bytes \<Rightarrow> chunk" where
  "command_chunk msg bs = \<lparr>hdr = \<lparr>basic_header = \<lparr>Fmt = 0, Csid = GetChunkCsid msg\<rparr>,
     message_header = \<lparr>Timestamp = 0, MessageLength = of_nat (length bs),
       MessageTypeID = MsgAMF0CommandMessage, MessageStreamID = GetChunkMessageStreamID msg\<rparr>,
     ExtendedTimestamp = 0\<rparr>, ChunkData = bs\<rparr>"

lemma encode_args_of_list: "encode_list vs = Inr bs \<Longrightarrow> encode_args EncodeAmf0 vs buf = Ok (buf @ bs)"
  by (induction vs arbitrary: buf bs) (auto split: sum.splits)

lemma command_of_list: "encode_list vs = Inr bs \<Longrightarrow> command msg vs = Ok (command_chunk msg bs)"
  by (simp add: command_def NewCommandMessage_def encode_args_of_list command_chunk_def)

text \<open>A message a peer receives whatever its chunk size of 128 bytes or more, if it has at most 256.\<close>

definition fits_small :: "nat \<Rightarrow> chunk \<Rightarrow> bool" where
  "fits_small rm m \<longleftrightarrow> header_room m \<le> rm \<and> 2 \<le> GetChunkCsid m \<and> GetChunkCsid m \<le> 65559 \<and> header_fits (message_header (hdr m))
     \<and> 0 < length (ChunkData m) \<and> length (ChunkData m) \<le> 256
     \<and> GetChunkMessageLength m = of_nat (length (ChunkData m))"

lemma fits_small_sendable: "fits_small rm m \<Longrightarrow> sendable m"
  by (auto simp: fits_small_def sendable_def word_less_nat_alt word_le_nat_alt unat_of_nat)

lemma fits_small_on_wire:
  assumes "fits_small rm m" "128 < L \<or> L = 128 \<and> length (ChunkData m) < 256" "L < 2 ^ 32"
  shows "on_wire L m"
proof -
  have "\<not> whole_chunks L m"
  proof
    assume "whole_chunks L m"
    then obtain k where k: "length (ChunkData m) = L * k" "L < length (ChunkData m)"
      by (auto simp: whole_chunks_def dvd_def)
    then have "2 \<le> k" by (cases k rule: nat.exhaust; cases "k - 1") auto
    then have "L * 2 \<le> length (ChunkData m)" unfolding k(1) by (rule mult_le_mono2)
    with assms(1,2) show False by (auto simp: fits_small_def)
  qed
  with assms fits_small_sendable [OF assms(1)] show ?thesis
    by (auto simp: on_wire_def fits_wire_def fits_small_def)
qed

lemma command_chunk_fits:
  assumes "2 \<le> GetChunkCsid msg" "GetChunkCsid msg \<le> 65559" "0 < length bs" "length bs \<le> 256"
  shows "fits_small (header_room msg) (command_chunk msg bs)"
  using assms by (simp add: fits_small_def header_room_def command_chunk_def chunk_getters header_fits_def unat_of_nat msg_ids)

lemma control_message:
  assumes "typeId \<in> {MsgSetChunkSize, MsgAbortMessage, MsgAcknowledgement, MsgWindowAcknowledgementSize,
    MsgSetPeerBandwidth}" "4 \<le> len" "len \<le> 256" "1 \<le> rm"
  shows "\<exists>m. NewProcotolControlMessage typeId len v = Ok m \<and> fits_small rm m
    \<and> ChunkData m = be_bytes 4 v @ replicate (unat len - 4) 0 \<and> GetChunkMessageTypeID m = typeId"
proof -
  have len: "\<not> len < 4" "4 \<le> unat len" "unat len \<le> 256"
    using assms(2,3) by (simp_all add: word_le_nat_alt word_less_nat_alt)
  have d: "put_be 0 4 v (replicate (unat len) 0) = be_bytes 4 v @ replicate (unat len - 4) 0"
    using len by (simp add: put_be_def min_absorb1)
  have t: "unat typeId < 256" using assms(1) by (auto simp: msg_ids)
  have "be_bytes 4 v \<noteq> []" using length_be_bytes [of 4 v] by fastforce
  with assms(1) len t show ?thesis
    using assms(4) by (auto simp: NewProcotolControlMessage_def d fits_small_def header_room_def chunk_getters header_fits_def
        word_less_nat_alt word_le_nat_alt of_nat_diff)
qed

lemma short_wire_bytes:
  "length (ChunkData m) \<le> L \<Longrightarrow> length (ChunkData m) \<le> K \<Longrightarrow> wire_bytes L m = wire_bytes K m"
  by (simp add: wire_bytes_def chunk_count_def chunk_wire_def chunk_piece_def)

section \<open>The connect response\<close>

lemma connect_result_message:
  assumes "orders ch"
  shows "\<exists>bs. command msg
        [AString ''_result'', AInt tid,
         AObject (w_order ch 3 [(''fmsVer'', AString ''FMS/3,0,1,123''), (''capabilities'', AInt 31)]),
         AObject (w_order ch 4
           (status_event ''NetConnection.Connect.Success'' ''Connection succeeded.'' @ [(''objectEncoding'', AInt oe)]))]
      = Ok (command_chunk msg bs) \<and> length bs = 190
    \<and> (\<forall>amf3. \<exists>o1 o2. DecodeBatch amf3 bs
        = Ok ([AString ''_result'', ANumber (int_to_float tid), AObject o1, AObject o2], ErrEOF)
      \<and> map_of o1 ''fmsVer'' = Some (AString ''FMS/3,0,1,123'')
      \<and> map_of o2 ''level'' = Some (AString ''status'')
      \<and> map_of o2 ''code'' = Some (AString ''NetConnection.Connect.Success''))"
proof -
  let ?a = "[(''fmsVer'', AString ''FMS/3,0,1,123''), (''capabilities'', AInt 31)]"
  let ?e = "status_event ''NetConnection.Connect.Success'' ''Connection succeeded.'' @ [(''objectEncoding'', AInt oe)]"
  let ?args = "[AString ''_result'', AInt tid, AObject (w_order ch 3 ?a), AObject (w_order ch 4 ?e)]"
  have fa: "\<forall>p \<in> set ?a. flat (snd p) \<and> fst p \<noteq> [] \<and> length (fst p) \<le> 65535" "distinct (map fst ?a)"
    by simp_all
  have fe: "\<forall>p \<in> set ?e. flat (snd p) \<and> fst p \<noteq> [] \<and> length (fst p) \<le> 65535" "distinct (map fst ?e)"
    by (simp_all add: status_event_def)
  from encode_flat_object [OF assms, of ?a 3] fa(1) obtain ba where
    a: "EncodeAmf0 (AObject (w_order ch 3 ?a)) = Inr ba" "length ba = 51" by auto
  from encode_flat_object [OF assms, of ?e 4] fe(1) obtain be where
    e: "EncodeAmf0 (AObject (w_order ch 4 ?e)) = Inr be" "length be = 120" by (auto simp: status_event_def)
  obtain bs where bs: "encode_list ?args = Inr bs" "length bs = 190"
    using a e by (auto simp: EncodeAmf0String_def encode_string_def EncodeAmf0Number_def simp del: EncodeAmf0.simps(7))
  note cmd = command_of_list [OF bs(1), of msg]
  have n: "NewCommandMessage EncodeAmf0 (GetChunkCsid msg) (GetChunkMessageStreamID msg) ?args = Ok (command_chunk msg bs)"
    using cmd by (simp add: command_def)
  have "amf_plain (AObject (w_order ch 3 ?a))" "amf_plain (AObject (w_order ch 4 ?e))"
    using plain_object [OF assms fa] plain_object [OF assms fe] by blast+
  then have "\<forall>v \<in> set ?args. amf_plain v" by (simp del: amf_plain.simps(7))
  from decode_command_message [OF n this] have
    d: "DecodeBatch amf3 bs = Ok (map amf_norm ?args, ErrEOF)" for amf3
    by (simp add: command_chunk_def)
  obtain o1 where o1: "amf_norm (AObject (w_order ch 3 ?a)) = AObject o1" "map_of o1 = map_option amf_norm \<circ> map_of ?a"
    using norm_object [OF assms fa(2), of 3] by blast
  obtain o2 where o2: "amf_norm (AObject (w_order ch 4 ?e)) = AObject o2" "map_of o2 = map_option amf_norm \<circ> map_of ?e"
    using norm_object [OF assms fe(2), of 4] by blast
  have "DecodeBatch amf3 bs = Ok ([AString ''_result'', ANumber (int_to_float tid), AObject o1, AObject o2], ErrEOF)" for amf3
    using d [of amf3] o1(1) o2(1) by (simp del: amf_norm.simps(3))
  moreover have "map_of o1 ''fmsVer'' = Some (AString ''FMS/3,0,1,123'')"
    "map_of o2 ''level'' = Some (AString ''status'')"
    "map_of o2 ''code'' = Some (AString ''NetConnection.Connect.Success'')"
    by (simp_all add: o1(2) o2(2) status_event_def)
  ultimately show ?thesis using cmd bs(2) by blast
qed


lemma connect_messages_ok:
  assumes ch: "orders ch" and csid: "2 \<le> GetChunkCsid msg" "GetChunkCsid msg \<le> 65559"
  shows "\<exists>w b s bs. map snd (connect_messages ch msg c) = map Ok [w, b, s, command_chunk msg bs]
    \<and> (\<forall>m \<in> {w, b, s}. fits_small (header_room msg) m \<and> length (ChunkData m) \<le> 128)
    \<and> GetChunkMessageTypeID w = MsgWindowAcknowledgementSize \<and> GetChunkMessageTypeID b = MsgSetPeerBandwidth
    \<and> GetChunkMessageTypeID s = MsgSetChunkSize
    \<and> ChunkData w = be_bytes 4 (WindowSize (OutAckSize (Connection c)))
    \<and> ChunkData b = be_bytes 4 2500000 @ [2]
    \<and> ChunkData s = be_bytes 4 (LocalChunkSize (Connection c))
    \<and> fits_small (header_room msg) (command_chunk msg bs)
    \<and> (\<forall>amf3. \<exists>o1 o2. DecodeBatch amf3 bs
        = Ok ([AString ''_result'', ANumber (int_to_float (TransactionID (Connection c))), AObject o1, AObject o2], ErrEOF)
      \<and> map_of o1 ''fmsVer'' = Some (AString ''FMS/3,0,1,123'')
      \<and> map_of o2 ''level'' = Some (AString ''status'')
      \<and> map_of o2 ''code'' = Some (AString ''NetConnection.Connect.Success''))"
proof -
  obtain w where w: "NewProcotolControlMessage MsgWindowAcknowledgementSize 4 (WindowSize (OutAckSize (Connection c))) = Ok w"
    "fits_small (header_room msg) w" "ChunkData w = be_bytes 4 (WindowSize (OutAckSize (Connection c)))"
    "GetChunkMessageTypeID w = MsgWindowAcknowledgementSize"
    using control_message [where typeId = MsgWindowAcknowledgementSize and len = 4 and v = "WindowSize (OutAckSize (Connection c))"
      and rm = "header_room msg"] header_room_ge [of msg] by auto
  obtain b where b: "NewProcotolControlMessage MsgSetPeerBandwidth 5 2500000 = Ok b" "fits_small (header_room msg) b"
    "ChunkData b = be_bytes 4 2500000 @ [0]" "GetChunkMessageTypeID b = MsgSetPeerBandwidth"
    using control_message [where typeId = MsgSetPeerBandwidth and len = 5 and v = 2500000 and rm = "header_room msg"] header_room_ge [of msg] by auto
  obtain s where s: "NewProcotolControlMessage MsgSetChunkSize 4 (LocalChunkSize (Connection c)) = Ok s"
    "fits_small (header_room msg) s" "ChunkData s = be_bytes 4 (LocalChunkSize (Connection c))"
    "GetChunkMessageTypeID s = MsgSetChunkSize"
    using control_message [where typeId = MsgSetChunkSize and len = 4 and v = "LocalChunkSize (Connection c)" and rm = "header_room msg"] header_room_ge [of msg] by auto
  let ?b = "b\<lparr>ChunkData := be_bytes 4 2500000 @ [2]\<rparr>"
  have b2: "fits_small (header_room msg) ?b" "GetChunkMessageTypeID ?b = MsgSetPeerBandwidth"
    using b(2-4) by (simp_all add: fits_small_def chunk_getters)
  obtain bs where bs: "command msg
         [AString ''_result'', AInt (TransactionID (Connection c)),
          AObject (w_order ch 3 [(''fmsVer'', AString ''FMS/3,0,1,123''), (''capabilities'', AInt 31)]),
          AObject (w_order ch 4
            (status_event ''NetConnection.Connect.Success'' ''Connection succeeded.''
              @ [(''objectEncoding'', AInt (objectEncoding (connectInfo c)))]))] = Ok (command_chunk msg bs)"
    "length bs = 190"
    "\<forall>amf3. \<exists>o1 o2. DecodeBatch amf3 bs
        = Ok ([AString ''_result'', ANumber (int_to_float (TransactionID (Connection c))), AObject o1, AObject o2], ErrEOF)
      \<and> map_of o1 ''fmsVer'' = Some (AString ''FMS/3,0,1,123'')
      \<and> map_of o2 ''level'' = Some (AString ''status'')
      \<and> map_of o2 ''code'' = Some (AString ''NetConnection.Connect.Success'')"
    using connect_result_message [OF ch, of msg "TransactionID (Connection c)" "objectEncoding (connectInfo c)"] by blast
  have cmd: "fits_small (header_room msg) (command_chunk msg bs)" using bs(2) by (intro command_chunk_fits [OF csid]) auto
  have "map snd (connect_messages ch msg c) = map Ok [w, ?b, s, command_chunk msg bs]"
    using w(1) b(1,3) s(1) bs(1) by (simp add: connect_messages_def list_update_append)
  with w(2-4) b2 s(2-4) bs(3) cmd show ?thesis
    by (intro exI [of _ w] exI [of _ ?b] exI [of _ s] exI [of _ bs]) simp
qed

lemma chunk_size_nat:
  assumes "128 < (L :: u32)"
  shows "128 < unat L" "unat L < 2 ^ 32"
proof -
  have "unat L < 2 ^ LENGTH(32)" by (rule unsigned_less)
  then show "128 < unat L" "unat L < 2 ^ 32" using assms by (simp_all add: word_less_nat_alt)
qed

text \<open>A new connection of a peer whose chunk size is still the default reads the four messages.\<close>

lemma peer_reads_connect:
  assumes m: "\<forall>m \<in> {w, b, s}. fits_small rm m \<and> length (ChunkData m) \<le> 128" and r: "fits_small rm r"
    and s: "ChunkData s = be_bytes 4 L" and L: "128 < L"
    and p: "conn_ready 128 p" "rd_pending p = concat (map (wire_bytes (unat L)) [w, b, s, r])"
  shows "\<exists>w1 b1 s1 r1 t u. go_repeat 3 recv_and_reset p = (Ok [w1, b1, s1], t)
    \<and> carries_message w1 w \<and> carries_message b1 b \<and> carries_message s1 s
    \<and> recv_and_reset (HandleSetChunkSizeMessage s1 t) = (Ok r1, u) \<and> carries_message r1 r
    \<and> RemoteChunkSize u = L \<and> rd_pending u = []"
proof -
  have Ln: "128 < unat L" "unat L < 2 ^ 32" by (rule chunk_size_nat [OF L])+
  have "concat (map (wire_bytes (unat L)) [w, b, s]) = concat (map (wire_bytes 128) [w, b, s])"
    using m Ln(1) by (simp add: short_wire_bytes [of _ "unat L" 128])
  then have pd: "rd_pending p = concat (map (wire_bytes 128) [w, b, s]) @ wire_bytes (unat L) r"
    using p(2) by simp
  have "\<forall>x \<in> set [w, b, s]. on_wire 128 x" using m by (auto intro!: fits_small_on_wire)
  note recv = chunk_codec.recv_sequence [OF p(1) this pd]
  have "length [w, b, s] = 3" by simp
  with recv obtain rs t where
    rs: "go_repeat 3 recv_and_reset p = (Ok rs, t)" "list_all2 carries_message rs [w, b, s]"
    and t: "conn_ready 128 t" "rd_pending t = wire_bytes (unat L) r" by metis
  then obtain w1 b1 s1 where l: "rs = [w1, b1, s1]" "carries_message w1 w" "carries_message b1 b" "carries_message s1 s"
    by (auto simp: list_all2_Cons2)
  let ?t = "HandleSetChunkSizeMessage s1 t"
  have "ChunkData s1 = be_bytes 4 L" using l(4) s by (simp add: carries_message_def)
  then have rt: "RemoteChunkSize ?t = L" "rd_pending ?t = wire_bytes (unat L) r @ []" "conn_ready (unat L) ?t"
    using t Ln(2) by (simp_all add: HandleSetChunkSizeMessage_def conn_ready_def take_bit_self)
  have "on_wire (unat L) r" using r Ln by (auto intro: fits_small_on_wire)
  from chunk_codec.recv_encoded [OF rt(3) this rt(2)] obtain r1 u where
    u: "recv_and_reset ?t = (Ok r1, u)" "carries_message r1 r" "conn_ready (unat L) u" "rd_pending u = []" by blast
  then have "RemoteChunkSize u = L" by (simp add: conn_ready_def word_unat_eq_iff)
  with rs(1) l u show ?thesis by blast
qed

section \<open>The other responses\<close>

lemma peer_reads:
  assumes "\<forall>m \<in> set ms. fits_small rm m" "128 < (L :: u32)" "conn_ready (unat L) p"
    "rd_pending p = concat (map (wire_bytes (unat L)) ms)"
  shows "\<exists>rs t. go_repeat (length ms) recv_and_reset p = (Ok rs, t) \<and> list_all2 carries_message rs ms
    \<and> rd_pending t = []"
proof -
  have "128 < unat L" "unat L < 2 ^ 32" by (rule chunk_size_nat [OF assms(2)])+
  with assms(1) have "\<forall>m \<in> set ms. on_wire (unat L) m" by (auto intro: fits_small_on_wire)
  from chunk_codec.recv_sequence [OF assms(3) this, of "[]"] assms(4) show ?thesis by auto
qed

text \<open>A response on a connection, without its choices.\<close>

lemma on_connection_respond:
  assumes "can_respond rm (Connection c)" "w_fault ch = None" "map snd xs = map Ok msgs" "\<forall>msg \<in> set msgs. fits_small rm msg"
  shows "\<exists>cn. on_connection (respond ch what xs) c = (Ok (), c\<lparr>Connection := cn\<rparr>)
    \<and> wire_out cn = wire_out (Connection c) @ concat (map (wire_bytes (unat (LocalChunkSize (Connection c)))) msgs)"
proof -
  have "\<forall>msg \<in> set msgs. sendable msg \<and> header_room msg \<le> rm"
    using assms(4) by (auto intro: fits_small_sendable simp: fits_small_def)
  from respond_ok [OF assms(1-3) this, of what] show ?thesis by (auto simp: on_connection_def)
qed

text \<open>What a client finds in an \<open>onStatus\<close> message.\<close>

definition status_body :: "amf_value reader \<Rightarrow> string \<Rightarrow> bytes \<Rightarrow> bool" where
  "status_body amf3 code bs \<longleftrightarrow> (\<exists>ob. DecodeBatch amf3 bs
      = Ok ([AString ''onStatus'', ANumber (int_to_float 0), ANil, AObject ob], ErrEOF)
    \<and> map_of ob ''level'' = Some (AString ''status'') \<and> map_of ob ''code'' = Some (AString code))"

lemma onStatus_message:
  assumes o: "orders ch" and csid: "2 \<le> GetChunkCsid msg" "GetChunkCsid msg \<le> 65559"
    and len: "length code + length descr \<le> 190"
  shows "\<exists>bs. onStatus ch k msg code descr = Ok (command_chunk msg bs) \<and> fits_small (header_room msg) (command_chunk msg bs)
    \<and> (\<forall>amf3. status_body amf3 code bs)"
proof -
  let ?e = "status_event code descr"
  let ?args = "[AString ''onStatus'', AInt 0, ANil, AObject (w_order ch k ?e)]"
  have fe: "\<forall>p \<in> set ?e. flat (snd p) \<and> fst p \<noteq> [] \<and> length (fst p) \<le> 65535" "distinct (map fst ?e)"
    using len by (simp_all add: status_event_def)
  from encode_flat_object [OF o, of ?e k] fe(1) obtain be where
    e: "EncodeAmf0 (AObject (w_order ch k ?e)) = Inr be" "length be = 45 + length code + length descr"
    by (auto simp: status_event_def)
  obtain bs where bs: "encode_list ?args = Inr bs" "length bs = 66 + length code + length descr"
    using e by (auto simp: EncodeAmf0String_def encode_string_def EncodeAmf0Number_def simp del: EncodeAmf0.simps(7))
  note cmd = command_of_list [OF bs(1), of msg]
  then have n: "NewCommandMessage EncodeAmf0 (GetChunkCsid msg) (GetChunkMessageStreamID msg) ?args = Ok (command_chunk msg bs)"
    by (simp add: command_def)
  have "\<forall>v \<in> set ?args. amf_plain v" using plain_object [OF o fe, of k] by (simp del: amf_plain.simps(7))
  from decode_command_message [OF n this] have
    d: "DecodeBatch amf3 bs = Ok (map amf_norm ?args, ErrEOF)" for amf3
    by (simp add: command_chunk_def)
  obtain ob where ob: "amf_norm (AObject (w_order ch k ?e)) = AObject ob" "map_of ob = map_option amf_norm \<circ> map_of ?e"
    using norm_object [OF o fe(2), of k] by blast
  have "status_body amf3 code bs" for amf3
    using d [of amf3] ob by (simp add: status_body_def status_event_def del: amf_norm.simps(3))
  moreover have "fits_small (header_room msg) (command_chunk msg bs)"
    using bs(2) len by (intro command_chunk_fits [OF csid]) auto
  ultimately show ?thesis using cmd by (auto simp: onStatus_def)
qed

lemma be_bytes_one: "be_bytes 4 (1 :: u32) = [0, 0, 0, 1]"
  by code_simp

lemma user_control_message:
  assumes "1 \<le> rm"
  shows "\<exists>m. NewlUserControlMessage event 6 = Ok m \<and> fits_small rm m \<and> GetChunkMessageTypeID m = MsgUserControlMessage
    \<and> ChunkData m = [ucast (drop_bit 8 event AND 0xff), ucast (event AND 0xff), 0, 0, 0, 1]"
proof -
  obtain m where m: "NewlUserControlMessage event 6 = Ok m" by (simp add: NewlUserControlMessage_def Let_def)
  then have "ChunkData m = put_be 2 6 1 ((replicate 6 0)[0 := ucast (drop_bit 8 event AND 0xff), 1 := ucast (event AND 0xff)])"
    by (auto simp: NewlUserControlMessage_def Let_def)
  then have d: "ChunkData m = [ucast (drop_bit 8 event AND 0xff), ucast (event AND 0xff), 0, 0, 0, 1]"
    by (simp add: put_be_def be_bytes_one) (simp add: numeral_eq_Suc)
  then have "length (ChunkData m) = 6" by simp
  with m show ?thesis
    using d assms by (auto simp: NewlUserControlMessage_def Let_def fits_small_def header_room_def chunk_getters header_fits_def msg_ids)
qed

lemma same_TransactionID [simp]: "\<exists>t. (cn :: connection) = cn\<lparr>TransactionID := t\<rparr>"
  by (rule exI [of _ "TransactionID cn"]) simp

text \<open>What the loop over the arguments of \<open>publish\<close> and \<open>play\<close> leaves alone.\<close>

lemma stream_args_frame:
  "(\<exists>t. Connection (stream_args k vs c) = (Connection c)\<lparr>TransactionID := t\<rparr>)
    \<and> connectInfo (stream_args k vs c) = connectInfo c \<and> metaInfo (stream_args k vs c) = metaInfo c
    \<and> sess (stream_args k vs c) = sess c
    \<and> clientType (publishInfo (stream_args k vs c)) = clientType (publishInfo c)
    \<and> (2 < k \<longrightarrow> cp_stream (publishInfo (stream_args k vs c)) = cp_stream (publishInfo c))"
  by (induction k vs c rule: stream_args.induct) (auto simp: set_TransactionID_def split: if_splits)

lemma can_respond_TransactionID [simp]: "can_respond rm (cn\<lparr>TransactionID := i\<rparr>) = can_respond rm cn"
  by (simp add: can_respond_def pool_ok_def)

text \<open>The third argument names the stream.\<close>

lemma stream_args_named:
  assumes "stream_args 0 (x # y # AString name # rest) c = c1"
  shows "cp_stream (publishInfo c1) = name \<and> (\<exists>t. Connection c1 = (Connection c)\<lparr>TransactionID := t\<rparr>)
    \<and> connectInfo c1 = connectInfo c"
proof -
  define c0 where "c0 = stream_args 0 [x, y] c"
  have "stream_args 0 (x # y # vs) c = stream_args 2 vs c0" for vs
    by (cases x; cases y; simp add: c0_def numeral_2_eq_2)
  then have c1: "c1 = stream_args 3 rest (c0\<lparr>publishInfo := (publishInfo c0)\<lparr>cp_stream := name\<rparr>\<rparr>)"
    using assms by simp
  show ?thesis
    using stream_args_frame [of 3 rest "c0\<lparr>publishInfo := (publishInfo c0)\<lparr>cp_stream := name\<rparr>\<rparr>"]
      stream_args_frame [of 0 "[x, y]" c]
    unfolding c1 [symmetric] c0_def [symmetric] by auto
qed

section \<open>Requests\<close>

text \<open>A message of a client that carries the command \<open>vs\<close>.\<close>

definition request :: "amf_value reader \<Rightarrow> stream \<Rightarrow> amf_value list \<Rightarrow> bool" where
  "request amf3 msg vs \<longleftrightarrow> 2 \<le> GetChunkCsid msg \<and> GetChunkCsid msg \<le> 65559
     \<and> DecodeBatch amf3 (ChunkData msg) = Ok (vs, ErrEOF)"

lemma handle_request:
  assumes "request amf3 msg (AString cmd # vs)"
  shows "handleCommandMessage amf3 ch msg MsgAMF0CommandMessage c = dispatch_command ch msg cmd vs c"
  using assms by (simp add: request_def handleCommandMessage_def skip_amf3_byte_def decode_body_def msg_ids)

lemma set_if_other: "(\<And>v. f (upd v r) = f r) \<Longrightarrow> f (set_if upd x r) = f r"
  by (simp add: set_if_def split: option.split)

lemma connect_object_frame:
  "ci_app (set_if (\<lambda>v. flashVer_update (\<lambda>_. v)) s i) = ci_app i"
  "ci_app (set_if (\<lambda>v. swfUrl_update (\<lambda>_. v)) s i) = ci_app i"
  "ci_app (set_if (\<lambda>v. tcUrl_update (\<lambda>_. v)) s i) = ci_app i"
  "ci_app (set_if (\<lambda>v. fpad_update (\<lambda>_. v)) b i) = ci_app i"
  "ci_app (set_if (\<lambda>v. audioCodecs_update (\<lambda>_. v)) n i) = ci_app i"
  "ci_app (set_if (\<lambda>v. videoCodecs_update (\<lambda>_. v)) n i) = ci_app i"
  "ci_app (set_if (\<lambda>v. videoFunction_update (\<lambda>_. v)) n i) = ci_app i"
  "ci_app (set_if (\<lambda>v. pageUrl_update (\<lambda>_. v)) s i) = ci_app i"
  "ci_app (set_if (\<lambda>v. objectEncoding_update (\<lambda>_. float_to_int v)) w i) = ci_app i"
  "tcUrl (set_if (\<lambda>v. fpad_update (\<lambda>_. v)) b i) = tcUrl i"
  "tcUrl (set_if (\<lambda>v. audioCodecs_update (\<lambda>_. v)) n i) = tcUrl i"
  "tcUrl (set_if (\<lambda>v. videoCodecs_update (\<lambda>_. v)) n i) = tcUrl i"
  "tcUrl (set_if (\<lambda>v. videoFunction_update (\<lambda>_. v)) n i) = tcUrl i"
  "tcUrl (set_if (\<lambda>v. pageUrl_update (\<lambda>_. v)) s i) = tcUrl i"
  "tcUrl (set_if (\<lambda>v. objectEncoding_update (\<lambda>_. float_to_int v)) w i) = tcUrl i"
  by (rule set_if_other, simp)+

lemma connect_object_strings:
  assumes "map_of ob ''app'' = Some (AString app)" "map_of ob ''tcUrl'' = Some (AString url)"
  shows "ci_app (connect_object ob i) = app" "tcUrl (connect_object ob i) = url"
proof -
  have g: "get_string ob ''app'' = Some app" "get_string ob ''tcUrl'' = Some url"
    using assms by (simp_all add: get_string_def)
  show "ci_app (connect_object ob i) = app" "tcUrl (connect_object ob i) = url"
    by (simp_all only: connect_object_def Let_def g connect_object_frame) (simp_all add: set_if_def)
qed

section \<open>Nothing but an empty batch panics\<close>

lemma conn_Flush_no_panic: "conn_Flush fault small c \<noteq> (Panic p, c1)"
  by (auto simp: conn_Flush_def Let_def split: option.splits prod.splits)

lemma respond_no_panic:
  assumes "can_respond rm (Connection c)" "map snd xs = map Ok msgs" "\<forall>msg \<in> set msgs. fits_small rm msg"
  shows "on_connection (respond ch what xs) c \<noteq> (Panic p, c1)"
proof -
  let ?cn = "Connection c"
  have m: "\<forall>msg \<in> set msgs. sendable msg \<and> header_room msg \<le> rm"
    using assms(3) by (auto intro: fits_small_sendable simp: fits_small_def)
  have "0 < unat (LocalChunkSize ?cn)" "rm \<le> 18" "pool_ok rm ?cn" "queue_ok ?cn"
    using assms(1) by (auto simp: can_respond_def queue_ok_def word_less_nat_alt)
  from send_list_ok [OF assms(2) m this(2-4) refl this(1), of ch 0] obtain n c2
    where s: "send_list ch 0 xs ?cn = (Ok n, c2)" by blast
  obtain r c3 where f: "conn_Flush (w_fault ch) (w_small ch) c2 = (r, c3)" by fastforce
  then have "r \<noteq> Panic q" for q using conn_Flush_no_panic by blast
  with s f show ?thesis
    by (cases r) (auto simp: on_connection_def respond_def flush_total_def go_bind_def go_wrap_def go_fail_def
        go_return_def)
qed

lemma connect_args_frame:
  "connect_args vs c = (r, c1) \<Longrightarrow> (\<exists>t. Connection c1 = (Connection c)\<lparr>TransactionID := t\<rparr>) \<and> (\<forall>p. r \<noteq> Panic p)"
proof (induction vs arbitrary: c)
  case (Cons v vs)
  note ih = Cons.IH [of "set_TransactionID i c" for i] Cons.IH [of "c\<lparr>connectInfo := ob\<rparr>" for ob] Cons.IH [of c]
  show ?case
  proof (cases v)
    case (ANumber w)
    then show ?thesis
      using ih(1) [of "float_to_int w"] Cons.prems by (auto simp: Let_def set_TransactionID_def split: if_splits)
  next
    case (AObject ob)
    then show ?thesis using ih(2) [of "connect_object ob (connectInfo c)"] Cons.prems by auto
  qed (use ih(3) Cons.prems in auto)
qed (auto simp: go_return_def)

lemma transaction_args_frame: "\<exists>t. Connection (transaction_args vs c) = (Connection c)\<lparr>TransactionID := t\<rparr>"
  by (induction vs c rule: transaction_args.induct) (auto simp: set_TransactionID_def)

lemma connect_response_messages:
  assumes "orders ch" "2 \<le> GetChunkCsid msg" "GetChunkCsid msg \<le> 65559"
  shows "\<exists>ms. map snd (connect_messages ch msg c) = map Ok ms \<and> (\<forall>m \<in> set ms. fits_small (header_room msg) m)"
proof -
  obtain w b s bs where "map snd (connect_messages ch msg c) = map Ok [w, b, s, command_chunk msg bs]"
    "\<forall>m \<in> {w, b, s}. fits_small (header_room msg) m \<and> length (ChunkData m) \<le> 128" "fits_small (header_room msg) (command_chunk msg bs)"
    using connect_messages_ok [OF assms, of c] by blast
  then show ?thesis by (intro exI [of _ "[w, b, s, command_chunk msg bs]"]) simp
qed

lemma createStream_message:
  assumes "2 \<le> GetChunkCsid msg" "GetChunkCsid msg \<le> 65559"
  shows "\<exists>bs. command msg [AString ''_result'', AInt tid, ANil, AInt 1] = Ok (command_chunk msg bs)
    \<and> fits_small (header_room msg) (command_chunk msg bs)
    \<and> (\<forall>amf3. DecodeBatch amf3 bs
        = Ok ([AString ''_result'', ANumber (int_to_float tid), ANil, ANumber (int_to_float 1)], ErrEOF))"
proof -
  let ?args = "[AString ''_result'', AInt tid, ANil, AInt 1]"
  obtain bs where bs: "encode_list ?args = Inr bs" "length bs = 29"
    by (auto simp: EncodeAmf0String_def encode_string_def EncodeAmf0Number_def)
  note cmd = command_of_list [OF bs(1), of msg]
  then have n: "NewCommandMessage EncodeAmf0 (GetChunkCsid msg) (GetChunkMessageStreamID msg) ?args = Ok (command_chunk msg bs)"
    by (simp add: command_def)
  have "\<forall>v \<in> set ?args. amf_plain v" by simp
  from decode_command_message [OF n this] have "DecodeBatch amf3 bs = Ok (map amf_norm ?args, ErrEOF)" for amf3
    by (simp add: command_chunk_def)
  with cmd bs(2) show ?thesis by (auto intro!: command_chunk_fits [OF assms])
qed

lemma play_messages_ok:
  assumes "orders ch" "2 \<le> GetChunkCsid msg" "GetChunkCsid msg \<le> 65559"
  shows "\<exists>u v b1 b2 b3 b4. map snd (play_messages ch msg)
      = map Ok [u, v, command_chunk msg b1, command_chunk msg b2, command_chunk msg b3, command_chunk msg b4]
    \<and> (\<forall>m \<in> {u, v, command_chunk msg b1, command_chunk msg b2, command_chunk msg b3, command_chunk msg b4}. fits_small (header_room msg) m)
    \<and> (\<forall>m \<in> {u, v}. GetChunkMessageTypeID m = MsgUserControlMessage)
    \<and> take 2 (ChunkData u) = [0, 4] \<and> take 2 (ChunkData v) = [0, 0]
    \<and> (\<forall>amf3. status_body amf3 ''NetStream.Play.Reset'' b1 \<and> status_body amf3 ''NetStream.Play.Start'' b2
        \<and> status_body amf3 ''NetStream.Data.Start'' b3 \<and> status_body amf3 ''NetStream.Play.PublishNotify'' b4)"
proof -
  note st = onStatus_message [OF assms]
  obtain u v where uv: "NewlUserControlMessage 4 6 = Ok u" "fits_small (header_room msg) u" "GetChunkMessageTypeID u = MsgUserControlMessage"
      "take 2 (ChunkData u) = [0, 4]"
    "NewlUserControlMessage 0 6 = Ok v" "fits_small (header_room msg) v" "GetChunkMessageTypeID v = MsgUserControlMessage"
      "take 2 (ChunkData v) = [0, 0]"
    using user_control_message [OF header_room_ge [of msg], of 4] user_control_message [OF header_room_ge [of msg], of 0] by (elim exE conjE) simp
  obtain b1 where b1: "onStatus ch 2 msg ''NetStream.Play.Reset'' ''Playing and resetting stream.'' = Ok (command_chunk msg b1)"
    "fits_small (header_room msg) (command_chunk msg b1)" "\<forall>amf3. status_body amf3 ''NetStream.Play.Reset'' b1"
    using st [of "''NetStream.Play.Reset''" "''Playing and resetting stream.''" 2] by auto
  obtain b2 where b2: "onStatus ch 3 msg ''NetStream.Play.Start'' ''Started playing stream.'' = Ok (command_chunk msg b2)"
    "fits_small (header_room msg) (command_chunk msg b2)" "\<forall>amf3. status_body amf3 ''NetStream.Play.Start'' b2"
    using st [of "''NetStream.Play.Start''" "''Started playing stream.''" 3] by auto
  obtain b3 where b3: "onStatus ch 4 msg ''NetStream.Data.Start'' ''Started playing stream.'' = Ok (command_chunk msg b3)"
    "fits_small (header_room msg) (command_chunk msg b3)" "\<forall>amf3. status_body amf3 ''NetStream.Data.Start'' b3"
    using st [of "''NetStream.Data.Start''" "''Started playing stream.''" 4] by auto
  obtain b4 where b4: "onStatus ch 5 msg ''NetStream.Play.PublishNotify'' ''Started playing notify.'' = Ok (command_chunk msg b4)"
    "fits_small (header_room msg) (command_chunk msg b4)" "\<forall>amf3. status_body amf3 ''NetStream.Play.PublishNotify'' b4"
    using st [of "''NetStream.Play.PublishNotify''" "''Started playing notify.''" 5] by auto
  let ?c = "command_chunk msg"
  have eq: "map snd (play_messages ch msg) = map Ok [u, v, ?c b1, ?c b2, ?c b3, ?c b4]"
    by (simp only: play_messages_def list.map snd_conv uv(1,5) b1(1) b2(1) b3(1) b4(1))
  have fits: "\<forall>m \<in> {u, v, ?c b1, ?c b2, ?c b3, ?c b4}. fits_small (header_room msg) m"
    using uv(2,6) b1(2) b2(2) b3(2) b4(2) by blast
  have tid: "\<forall>m \<in> {u, v}. GetChunkMessageTypeID m = MsgUserControlMessage" using uv(3,7) by blast
  show ?thesis
    using eq fits tid uv(4,8) b1(3) b2(3) b3(3) b4(3)
    by (intro exI [of _ u] exI [of _ v] exI [of _ b1] exI [of _ b2] exI [of _ b3] exI [of _ b4] conjI) iprover+
qed

section \<open>A client to try things on\<close>

definition sample_choice :: wire_choice where
  "sample_choice = \<lparr>w_pick = (\<lambda>_ _. 0), w_ck = zero_chunk, w_order = (\<lambda>_ xs. xs), w_fault = None, w_small = False\<rparr>"

definition sample_server_conn :: conn where
  "sample_server_conn = zero_conn\<lparr>has_server := True, Connection := (sample_conn [])\<lparr>LocalChunkSize := 60000\<rparr>\<rparr>"

definition sample_request :: "bytes \<Rightarrow> stream" where
  "sample_request bs = (fresh_stream 0 3)\<lparr>ChunkData := bs\<rparr>"

lemma sample_facts [simp]:
  "orders sample_choice" "w_fault sample_choice = None" "can_respond (header_room msg) (Connection sample_server_conn)"
  "LocalChunkSize (Connection sample_server_conn) = 60000" "wire_out (Connection sample_server_conn) = []"
  by (simp_all add: orders_def sample_choice_def can_respond_def sample_server_conn_def sample_conn_def pool_ok_def
      header_room_def)

lemma sample_request_of:
  assumes "encode_list args = Inr bs" "\<forall>v \<in> set args. amf_plain v" "\<not> last_empty args"
  shows "request amf3 (sample_request bs) (map amf_norm args)"
proof -
  have "NewCommandMessage EncodeAmf0 (GetChunkCsid (sample_request bs)) (GetChunkMessageStreamID (sample_request bs)) args
      = Ok (command_chunk (sample_request bs) bs)"
    using command_of_list [OF assms(1), of "sample_request bs"] by (simp add: command_def)
  from decode_command_message [OF this assms(2,3)] show ?thesis
    by (simp add: request_def sample_request_def command_chunk_def fresh_stream_def chunk_getters)
qed

section \<open>Properties\<close>

text \<open>What the client reads from the four messages.\<close>

lemma connect_peer:
  assumes fits: "\<forall>m \<in> {a, b, s}. fits_small rm m \<and> length (ChunkData m) \<le> 128" "fits_small rm (command_chunk msg bs)"
    and ids: "map GetChunkMessageTypeID [a, b, s] = [MsgWindowAcknowledgementSize, MsgSetPeerBandwidth, MsgSetChunkSize]"
    and s: "ChunkData s = be_bytes 4 L" "128 < L"
    and d: "\<exists>o1 o2. DecodeBatch amf3 bs = Ok ([x, y, AObject o1, AObject o2], ErrEOF)
      \<and> map_of o2 ''code'' = Some (AString ''NetConnection.Connect.Success'')"
    and p: "conn_ready 128 p" "rd_pending p = concat (map (wire_bytes (unat L)) [a, b, s, command_chunk msg bs])"
  shows "\<exists>a b s r t u o1 o2. go_repeat 3 recv_and_reset p = (Ok [a, b, s], t)
    \<and> map GetChunkMessageTypeID [a, b, s] = [MsgWindowAcknowledgementSize, MsgSetPeerBandwidth, MsgSetChunkSize]
    \<and> recv_and_reset (HandleSetChunkSizeMessage s t) = (Ok r, u)
    \<and> RemoteChunkSize u = L \<and> rd_pending u = []
    \<and> DecodeBatch amf3 (ChunkData r) = Ok ([x, y, AObject o1, AObject o2], ErrEOF)
    \<and> map_of o2 ''code'' = Some (AString ''NetConnection.Connect.Success'')"
proof -
  obtain o1 o2 where o: "DecodeBatch amf3 bs = Ok ([x, y, AObject o1, AObject o2], ErrEOF)"
    "map_of o2 ''code'' = Some (AString ''NetConnection.Connect.Success'')" using d by blast
  obtain a1 b1 s1 r1 t u where rd: "go_repeat 3 recv_and_reset p = (Ok [a1, b1, s1], t)"
    "carries_message a1 a" "carries_message b1 b" "carries_message s1 s"
    "recv_and_reset (HandleSetChunkSizeMessage s1 t) = (Ok r1, u)" "carries_message r1 (command_chunk msg bs)"
    "RemoteChunkSize u = L" "rd_pending u = []"
    using peer_reads_connect [OF fits s] p by blast
  have "DecodeBatch amf3 (ChunkData r1) = Ok ([x, y, AObject o1, AObject o2], ErrEOF)"
    using rd(6) o(1) by (simp add: carries_message_def command_chunk_def)
  moreover have "map GetChunkMessageTypeID [a1, b1, s1]
      = [MsgWindowAcknowledgementSize, MsgSetPeerBandwidth, MsgSetChunkSize]"
    using rd(2-4) ids by (simp add: carries_message_def chunk_getters)
  ultimately show ?thesis using rd(1,5,7,8) o(2) by - (intro exI conjI, assumption+)
qed

text \<open>C4: a client that connects is answered. For a \<open>connect\<close> request with transaction id 1 and the strings
  \<open>app\<close> and \<open>tcUrl\<close>, a client whose receiver still has the default chunk size reads the window size, the
  peer bandwidth and a new chunk size, changes to that chunk size, and then reads a \<open>_result\<close> whose body
  decodes to \<open>NetConnection.Connect.Success\<close>; nothing is left over. The server has stored the two strings.\<close>

theorem connect_response:
  assumes c: "can_respond (header_room msg) (Connection c)" and ch: "w_fault ch = None" "orders ch"
    and msg: "request amf3 msg [AString ''connect'', ANumber w, AObject ob]" and w: "float_to_int w = 1"
    and ob: "map_of ob ''app'' = Some (AString app)" "map_of ob ''tcUrl'' = Some (AString url)" "app \<noteq> []" "url \<noteq> []"
  shows "\<exists>c1 bs. handleCommandMessage amf3 ch msg MsgAMF0CommandMessage c = (Ok (), c1)
    \<and> ci_app (connectInfo c1) = app \<and> tcUrl (connectInfo c1) = url
    \<and> wire_out (Connection c1) = wire_out (Connection c) @ bs
    \<and> (\<forall>p. conn_ready 128 p \<and> rd_pending p = bs \<longrightarrow>
        (\<exists>a b s r t u o1 o2. go_repeat 3 recv_and_reset p = (Ok [a, b, s], t)
          \<and> map GetChunkMessageTypeID [a, b, s] = [MsgWindowAcknowledgementSize, MsgSetPeerBandwidth, MsgSetChunkSize]
          \<and> recv_and_reset (HandleSetChunkSizeMessage s t) = (Ok r, u)
          \<and> RemoteChunkSize u = LocalChunkSize (Connection c) \<and> rd_pending u = []
          \<and> DecodeBatch amf3 (ChunkData r)
            = Ok ([AString ''_result'', ANumber (int_to_float 1), AObject o1, AObject o2], ErrEOF)
          \<and> map_of o2 ''code'' = Some (AString ''NetConnection.Connect.Success'')))"
proof -
  let ?L = "LocalChunkSize (Connection c)"
  let ?c0 = "(set_TransactionID (float_to_int w) c)\<lparr>connectInfo := connect_object ob (connectInfo c)\<rparr>"
  have csid: "2 \<le> GetChunkCsid msg" "GetChunkCsid msg \<le> 65559" using msg by (simp_all add: request_def)
  have c0: "can_respond (header_room msg) (Connection ?c0)" "LocalChunkSize (Connection ?c0) = ?L"
    "wire_out (Connection ?c0) = wire_out (Connection c)" "TransactionID (Connection ?c0) = 1"
    using c w by (simp_all add: set_TransactionID_def)
  have L: "128 < ?L" using c by (simp add: can_respond_def)
  have args: "connect_args [ANumber w, AObject ob] c = (Ok (), ?c0)"
    using w by (simp add: set_TransactionID_def go_return_def)
  have h: "handleCommandMessage amf3 ch msg MsgAMF0CommandMessage c = (Ok (), c1)"
    if "respConnectCommandMessage ch msg ?c0 = (Ok (), c1)" for c1
    using that args ob connect_object_strings [OF ob(1,2), of "connectInfo c"]
    by (simp add: handle_request [OF msg] dispatch_command_def handleConnectCommandMessage_def go_bind_def)
  obtain a b s bs where ms: "map snd (connect_messages ch msg ?c0) = map Ok [a, b, s, command_chunk msg bs]"
    and fits: "\<forall>m \<in> {a, b, s}. fits_small (header_room msg) m \<and> length (ChunkData m) \<le> 128" "fits_small (header_room msg) (command_chunk msg bs)"
    and ids: "GetChunkMessageTypeID a = MsgWindowAcknowledgementSize" "GetChunkMessageTypeID b = MsgSetPeerBandwidth"
      "GetChunkMessageTypeID s = MsgSetChunkSize"
    and s: "ChunkData s = be_bytes 4 (LocalChunkSize (Connection ?c0))"
    and d: "\<forall>amf3. \<exists>o1 o2. DecodeBatch amf3 bs
        = Ok ([AString ''_result'', ANumber (int_to_float (TransactionID (Connection ?c0))), AObject o1, AObject o2], ErrEOF)
      \<and> map_of o1 ''fmsVer'' = Some (AString ''FMS/3,0,1,123'')
      \<and> map_of o2 ''level'' = Some (AString ''status'')
      \<and> map_of o2 ''code'' = Some (AString ''NetConnection.Connect.Success'')"
    using connect_messages_ok [OF ch(2) csid, of ?c0] by blast
  let ?ms = "[a, b, s, command_chunk msg bs]"
  have "\<forall>m \<in> set ?ms. fits_small (header_room msg) m" using fits by simp
  from on_connection_respond [OF c0(1) ch(1) ms this] obtain cn where
    r: "respConnectCommandMessage ch msg ?c0 = (Ok (), ?c0\<lparr>Connection := cn\<rparr>)"
    and out: "wire_out cn = wire_out (Connection c) @ concat (map (wire_bytes (unat ?L)) ?ms)"
    unfolding respConnectCommandMessage_def c0(2,3) by blast
  have d1: "\<exists>o1 o2. DecodeBatch amf3 bs
        = Ok ([AString ''_result'', ANumber (int_to_float 1), AObject o1, AObject o2], ErrEOF)
      \<and> map_of o2 ''code'' = Some (AString ''NetConnection.Connect.Success'')"
    using d unfolding c0(4) by blast
  have ids3: "map GetChunkMessageTypeID [a, b, s] = [MsgWindowAcknowledgementSize, MsgSetPeerBandwidth, MsgSetChunkSize]"
    using ids by simp
  note peer = connect_peer [OF fits ids3 s [unfolded c0(2)] L d1]
  let ?c1 = "?c0\<lparr>Connection := cn\<rparr>"
  have "ci_app (connectInfo ?c1) = app" "tcUrl (connectInfo ?c1) = url"
    using connect_object_strings [OF ob(1,2)] by simp_all
  moreover have "wire_out (Connection ?c1) = wire_out (Connection c) @ concat (map (wire_bytes (unat ?L)) ?ms)"
    using out by simp
  ultimately show ?thesis
    by (intro exI [of _ ?c1] exI [of _ "concat (map (wire_bytes (unat ?L)) ?ms)"] conjI h [OF r] allI impI)
      (assumption | elim conjE, rule peer)+
qed

definition sample_connect_args :: "amf_value list" where
  "sample_connect_args = [AString ''connect'', AInt 1,
     AObject [(''app'', AString ''live''), (''tcUrl'', AString ''rtmp://h/live'')]]"

lemma float_int_1: "float_to_int (int_to_float 1) = 1"
  by (rule float_int_roundtrip) simp

theorem connect_response_witness:
  "\<exists>bs c1 out. handleCommandMessage no_amf3 sample_choice (sample_request bs) MsgAMF0CommandMessage sample_server_conn
      = (Ok (), c1)
    \<and> ci_app (connectInfo c1) = ''live'' \<and> wire_out (Connection c1) = out
    \<and> (\<exists>a b s r t u o1 o2. go_repeat 3 recv_and_reset (sample_conn out) = (Ok [a, b, s], t)
          \<and> recv_and_reset (HandleSetChunkSizeMessage s t) = (Ok r, u)
          \<and> RemoteChunkSize u = 60000 \<and> rd_pending u = []
          \<and> DecodeBatch no_amf3 (ChunkData r)
            = Ok ([AString ''_result'', ANumber (int_to_float 1), AObject o1, AObject o2], ErrEOF))"
proof -
  obtain bs where "encode_list sample_connect_args = Inr bs"
    by (auto simp: sample_connect_args_def EncodeAmf0String_def encode_string_def EncodeAmf0Number_def)
  from sample_request_of [OF this, of no_amf3] have r: "request no_amf3 (sample_request bs)
      [AString ''connect'', ANumber (int_to_float 1),
       AObject [(''app'', AString ''live''), (''tcUrl'', AString ''rtmp://h/live'')]]"
    by (simp add: sample_connect_args_def)
  from connect_response [OF _ _ _ r float_int_1, of sample_server_conn sample_choice "''live''" "''rtmp://h/live''"]
  obtain c1 out where "handleCommandMessage no_amf3 sample_choice (sample_request bs) MsgAMF0CommandMessage sample_server_conn
      = (Ok (), c1)" "ci_app (connectInfo c1) = ''live''" "wire_out (Connection c1) = out"
    and p: "\<forall>p. conn_ready 128 p \<and> rd_pending p = out \<longrightarrow>
        (\<exists>a b s r t u o1 o2. go_repeat 3 recv_and_reset p = (Ok [a, b, s], t)
          \<and> map GetChunkMessageTypeID [a, b, s] = [MsgWindowAcknowledgementSize, MsgSetPeerBandwidth, MsgSetChunkSize]
          \<and> recv_and_reset (HandleSetChunkSizeMessage s t) = (Ok r, u)
          \<and> RemoteChunkSize u = 60000 \<and> rd_pending u = []
          \<and> DecodeBatch no_amf3 (ChunkData r)
            = Ok ([AString ''_result'', ANumber (int_to_float 1), AObject o1, AObject o2], ErrEOF)
          \<and> map_of o2 ''code'' = Some (AString ''NetConnection.Connect.Success''))"
    by auto
  moreover have "rd_pending (sample_conn out) = out" by (simp add: sample_conn_def)
  ultimately show ?thesis using sample_conn_ready [of out] by metis
qed

text \<open>C11: \<open>createStream\<close> is answered with the client's transaction id and stream 1. A client reads one
  \<open>_result\<close> with the number it sent, and nothing is left over.\<close>

theorem createStream_response:
  assumes c: "can_respond (header_room msg) (Connection c)" and ch: "w_fault ch = None"
    and msg: "request amf3 msg [AString ''createStream'', ANumber (int_to_float tid), ANil]" and tid: "\<bar>tid\<bar> < 2 ^ 53"
  shows "\<exists>c1 bs. handleCommandMessage amf3 ch msg MsgAMF0CommandMessage c = (Ok (), c1)
    \<and> wire_out (Connection c1) = wire_out (Connection c) @ bs
    \<and> (\<forall>p. conn_ready (unat (LocalChunkSize (Connection c))) p \<and> rd_pending p = bs \<longrightarrow>
        (\<exists>r t. go_repeat 1 recv_and_reset p = (Ok [r], t) \<and> rd_pending t = []
          \<and> DecodeBatch amf3 (ChunkData r)
            = Ok ([AString ''_result'', ANumber (int_to_float tid), ANil, ANumber (int_to_float 1)], ErrEOF)))"
proof -
  let ?L = "LocalChunkSize (Connection c)" and ?c0 = "set_TransactionID tid c"
  have c0: "can_respond (header_room msg) (Connection ?c0)" "LocalChunkSize (Connection ?c0) = ?L"
    "wire_out (Connection ?c0) = wire_out (Connection c)" "TransactionID (Connection ?c0) = tid"
    using c by (simp_all add: set_TransactionID_def)
  have L: "128 < ?L" using c by (simp add: can_respond_def)
  obtain bs where m: "command msg [AString ''_result'', AInt tid, ANil, AInt 1] = Ok (command_chunk msg bs)"
    and fits: "\<forall>m \<in> set [command_chunk msg bs]. fits_small (header_room msg) m"
    and d: "DecodeBatch amf3 bs
        = Ok ([AString ''_result'', ANumber (int_to_float tid), ANil, ANumber (int_to_float 1)], ErrEOF)"
    using createStream_message [of msg tid] msg by (auto simp: request_def)
  let ?xs = "[(''send createStream _result message'', Ok (command_chunk msg bs))]"
  have xs: "map snd ?xs = map Ok [command_chunk msg bs]" by simp
  from on_connection_respond [OF c0(1) ch xs fits] obtain cn where
    r: "respCreateStreamCommandMessage ch msg ?c0 = (Ok (), ?c0\<lparr>Connection := cn\<rparr>)"
    and out: "wire_out cn = wire_out (Connection c) @ concat (map (wire_bytes (unat ?L)) [command_chunk msg bs])"
    unfolding respCreateStreamCommandMessage_def c0 m by blast
  have h: "handleCommandMessage amf3 ch msg MsgAMF0CommandMessage c = (Ok (), ?c0\<lparr>Connection := cn\<rparr>)"
    using r float_int_roundtrip [OF tid] by (simp add: handle_request [OF msg] dispatch_command_def handleCreateStreamCommandMessage_def go_wrap_def)
  have peer: "\<exists>r t. go_repeat 1 recv_and_reset p = (Ok [r], t) \<and> rd_pending t = []
      \<and> DecodeBatch amf3 (ChunkData r)
        = Ok ([AString ''_result'', ANumber (int_to_float tid), ANil, ANumber (int_to_float 1)], ErrEOF)"
    if p: "conn_ready (unat ?L) p" "rd_pending p = concat (map (wire_bytes (unat ?L)) [command_chunk msg bs])" for p
  proof -
    from peer_reads [OF fits L p] obtain rs t where
      "go_repeat 1 recv_and_reset p = (Ok rs, t)" "list_all2 carries_message rs [command_chunk msg bs]" "rd_pending t = []"
      by auto
    with d show ?thesis by (auto simp: list_all2_Cons2 carries_message_def command_chunk_def)
  qed
  have "wire_out (Connection (?c0\<lparr>Connection := cn\<rparr>)) = wire_out (Connection c) @ concat (map (wire_bytes (unat ?L)) [command_chunk msg bs])"
    using out by simp
  with h show ?thesis
    by (intro exI [of _ "?c0\<lparr>Connection := cn\<rparr>"] exI [of _ "concat (map (wire_bytes (unat ?L)) [command_chunk msg bs])"] conjI allI impI)
      (assumption | elim conjE, rule peer)+
qed

theorem createStream_response_witness:
  "\<exists>bs c1 out r t. handleCommandMessage no_amf3 sample_choice (sample_request bs) MsgAMF0CommandMessage sample_server_conn
      = (Ok (), c1) \<and> wire_out (Connection c1) = out
    \<and> go_repeat 1 recv_and_reset ((sample_conn out)\<lparr>RemoteChunkSize := 60000\<rparr>) = (Ok [r], t) \<and> rd_pending t = []
    \<and> DecodeBatch no_amf3 (ChunkData r)
      = Ok ([AString ''_result'', ANumber (int_to_float 4), ANil, ANumber (int_to_float 1)], ErrEOF)"
proof -
  let ?args = "[AString ''createStream'', AInt 4, ANil]"
  obtain bs where "encode_list ?args = Inr bs"
    by (auto simp: EncodeAmf0String_def encode_string_def EncodeAmf0Number_def)
  from sample_request_of [OF this, of no_amf3] have r: "request no_amf3 (sample_request bs)
      [AString ''createStream'', ANumber (int_to_float 4), ANil]" by simp
  have "conn_ready (unat (LocalChunkSize (Connection sample_server_conn))) ((sample_conn out)\<lparr>RemoteChunkSize := 60000\<rparr>)
      \<and> rd_pending ((sample_conn out)\<lparr>RemoteChunkSize := 60000\<rparr>) = out" for out
    by (simp add: conn_ready_def sample_conn_def slot_ready_def)
  with createStream_response [OF _ _ r, of sample_server_conn sample_choice] show ?thesis by force
qed

text \<open>C10: \<open>publish\<close> is answered with \<open>NetStream.Publish.Start\<close>. For a request that names a stream, the
  connection becomes a publisher of that stream and the client reads just that status message.\<close>

theorem publish_response:
  assumes c: "can_respond (header_room msg) (Connection c)" and ch: "w_fault ch = None" "orders ch"
    and msg: "request amf3 msg (AString ''publish'' # x # y # AString name # rest)" and name: "name \<noteq> []"
  shows "\<exists>c1 bs. handleCommandMessage amf3 ch msg MsgAMF0CommandMessage c = (Ok (), c1)
    \<and> clientType (publishInfo c1) = 1 \<and> cp_stream (publishInfo c1) = name \<and> connectInfo c1 = connectInfo c
    \<and> wire_out (Connection c1) = wire_out (Connection c) @ bs
    \<and> (\<forall>p. conn_ready (unat (LocalChunkSize (Connection c))) p \<and> rd_pending p = bs \<longrightarrow>
        (\<exists>r t. go_repeat 1 recv_and_reset p = (Ok [r], t) \<and> rd_pending t = []
          \<and> status_body amf3 ''NetStream.Publish.Start'' (ChunkData r)))"
proof -
  let ?L = "LocalChunkSize (Connection c)"
  define cs where "cs = stream_args 0 (x # y # AString name # rest) c"
  let ?c0 = "cs\<lparr>publishInfo := (publishInfo cs)\<lparr>clientType := 1\<rparr>\<rparr>"
  from stream_args_named [OF cs_def [symmetric]] obtain t where
    cs: "cp_stream (publishInfo cs) = name" "Connection cs = (Connection c)\<lparr>TransactionID := t\<rparr>"
      "connectInfo cs = connectInfo c" by blast
  have c0: "can_respond (header_room msg) (Connection ?c0)" "LocalChunkSize (Connection ?c0) = ?L"
    "wire_out (Connection ?c0) = wire_out (Connection c)"
    using c by (simp_all add: cs)
  have csid: "2 \<le> GetChunkCsid msg" "GetChunkCsid msg \<le> 65559" using msg by (simp_all add: request_def)
  have L: "128 < ?L" using c by (simp add: can_respond_def)
  obtain bs where m: "onStatus ch 0 msg ''NetStream.Publish.Start'' ''Start publising.'' = Ok (command_chunk msg bs)"
    and fits: "\<forall>m \<in> set [command_chunk msg bs]. fits_small (header_room msg) m"
    and d: "status_body amf3 ''NetStream.Publish.Start'' bs"
    using onStatus_message [OF ch(2) csid, of "''NetStream.Publish.Start''" "''Start publising.''" 0] by auto
  let ?xs = "[(''send NetStream.Publish.Start command message'', Ok (command_chunk msg bs))]"
  have xs: "map snd ?xs = map Ok [command_chunk msg bs]" by simp
  from on_connection_respond [OF c0(1) ch(1) xs fits] obtain cn where
    r: "respPublishCommandMessage ch msg ?c0 = (Ok (), ?c0\<lparr>Connection := cn\<rparr>)"
    and out: "wire_out cn = wire_out (Connection c) @ concat (map (wire_bytes (unat ?L)) [command_chunk msg bs])"
    unfolding respPublishCommandMessage_def c0(2,3) m by blast
  let ?c1 = "?c0\<lparr>Connection := cn\<rparr>"
  have h: "handleCommandMessage amf3 ch msg MsgAMF0CommandMessage c = (Ok (), ?c1)"
    using r name cs(1)
    by (simp add: handle_request [OF msg] dispatch_command_def handlePublishCommandMessage_def cs_def [symmetric]
        go_wrap_def)
  have peer: "\<exists>r t. go_repeat 1 recv_and_reset p = (Ok [r], t) \<and> rd_pending t = []
      \<and> status_body amf3 ''NetStream.Publish.Start'' (ChunkData r)"
    if p: "conn_ready (unat ?L) p" "rd_pending p = concat (map (wire_bytes (unat ?L)) [command_chunk msg bs])" for p
  proof -
    from peer_reads [OF fits L p] obtain rs t where
      "go_repeat 1 recv_and_reset p = (Ok rs, t)" "list_all2 carries_message rs [command_chunk msg bs]" "rd_pending t = []"
      by auto
    with d show ?thesis by (auto simp: list_all2_Cons2 carries_message_def command_chunk_def)
  qed
  have "clientType (publishInfo ?c1) = 1" "cp_stream (publishInfo ?c1) = name" "connectInfo ?c1 = connectInfo c"
    "wire_out (Connection ?c1) = wire_out (Connection c) @ concat (map (wire_bytes (unat ?L)) [command_chunk msg bs])"
    using out cs by simp_all
  with h show ?thesis
    by (intro exI [of _ ?c1] exI [of _ "concat (map (wire_bytes (unat ?L)) [command_chunk msg bs])"] conjI allI impI)
      (assumption | elim conjE, rule peer)+
qed

lemma sample_peer_ready:
  "conn_ready (unat (LocalChunkSize (Connection sample_server_conn))) ((sample_conn out)\<lparr>RemoteChunkSize := 60000\<rparr>)
    \<and> rd_pending ((sample_conn out)\<lparr>RemoteChunkSize := 60000\<rparr>) = out"
  by (simp add: conn_ready_def sample_conn_def slot_ready_def)

theorem publish_response_witness:
  "\<exists>bs c1 out r t. handleCommandMessage no_amf3 sample_choice (sample_request bs) MsgAMF0CommandMessage sample_server_conn
      = (Ok (), c1) \<and> clientType (publishInfo c1) = 1 \<and> cp_stream (publishInfo c1) = ''room'' \<and> wire_out (Connection c1) = out
    \<and> go_repeat 1 recv_and_reset ((sample_conn out)\<lparr>RemoteChunkSize := 60000\<rparr>) = (Ok [r], t) \<and> rd_pending t = []
    \<and> status_body no_amf3 ''NetStream.Publish.Start'' (ChunkData r)"
proof -
  let ?args = "[AString ''publish'', AInt 5, ANil, AString ''room'', AString ''live'']"
  obtain bs where "encode_list ?args = Inr bs"
    by (auto simp: EncodeAmf0String_def encode_string_def EncodeAmf0Number_def)
  from sample_request_of [OF this, of no_amf3] have r: "request no_amf3 (sample_request bs)
      [AString ''publish'', ANumber (int_to_float 5), ANil, AString ''room'', AString ''live'']" by simp
  have "''room'' \<noteq> []" by simp
  from publish_response [OF sample_facts(3,2,1) r this] sample_peer_ready show ?thesis
    by (elim exE conjE) (simp only: sample_facts(5) append_Nil; blast)
qed

text \<open>What a client that plays reads first: the stream is recorded and begins, then the four status messages.\<close>

definition play_reply :: "amf_value reader \<Rightarrow> stream list \<Rightarrow> bool" where
  "play_reply amf3 rs \<longleftrightarrow> (\<exists>u v r1 r2 r3 r4. rs = [u, v, r1, r2, r3, r4]
     \<and> GetChunkMessageTypeID u = MsgUserControlMessage \<and> take 2 (ChunkData u) = [0, 4]
     \<and> GetChunkMessageTypeID v = MsgUserControlMessage \<and> take 2 (ChunkData v) = [0, 0]
     \<and> status_body amf3 ''NetStream.Play.Reset'' (ChunkData r1)
     \<and> status_body amf3 ''NetStream.Play.Start'' (ChunkData r2)
     \<and> status_body amf3 ''NetStream.Data.Start'' (ChunkData r3)
     \<and> status_body amf3 ''NetStream.Play.PublishNotify'' (ChunkData r4))"

text \<open>C9: \<open>play\<close> is answered with the six messages of a playing stream. For a request that names a stream, the
  connection becomes a player of it, and the client reads, in this order, the two user control messages and
  the status messages \<open>Play.Reset\<close>, \<open>Play.Start\<close>, \<open>Data.Start\<close> and \<open>Play.PublishNotify\<close>.\<close>

theorem play_response:
  assumes c: "can_respond (header_room msg) (Connection c)" and ch: "w_fault ch = None" "orders ch"
    and msg: "request amf3 msg (AString ''play'' # x # y # AString name # rest)" and name: "name \<noteq> []"
  shows "\<exists>c1 bs. handleCommandMessage amf3 ch msg MsgAMF0CommandMessage c = (Ok (), c1)
    \<and> clientType (publishInfo c1) = 2 \<and> cp_stream (publishInfo c1) = name \<and> connectInfo c1 = connectInfo c
    \<and> wire_out (Connection c1) = wire_out (Connection c) @ bs
    \<and> (\<forall>p. conn_ready (unat (LocalChunkSize (Connection c))) p \<and> rd_pending p = bs \<longrightarrow>
        (\<exists>rs t. go_repeat 6 recv_and_reset p = (Ok rs, t) \<and> rd_pending t = [] \<and> play_reply amf3 rs))"
proof -
  let ?L = "LocalChunkSize (Connection c)" and ?cmd = "command_chunk msg"
  define cs where "cs = stream_args 0 (x # y # AString name # rest) c"
  let ?c0 = "cs\<lparr>publishInfo := (publishInfo cs)\<lparr>clientType := 2\<rparr>\<rparr>"
  from stream_args_named [OF cs_def [symmetric]] obtain t where
    cs: "cp_stream (publishInfo cs) = name" "Connection cs = (Connection c)\<lparr>TransactionID := t\<rparr>"
      "connectInfo cs = connectInfo c" by blast
  have c0: "can_respond (header_room msg) (Connection ?c0)" "LocalChunkSize (Connection ?c0) = ?L"
    "wire_out (Connection ?c0) = wire_out (Connection c)"
    using c by (simp_all add: cs)
  have csid: "2 \<le> GetChunkCsid msg" "GetChunkCsid msg \<le> 65559" using msg by (simp_all add: request_def)
  have L: "128 < ?L" using c by (simp add: can_respond_def)
  obtain u v b1 b2 b3 b4 where ms: "map snd (play_messages ch msg) = map Ok [u, v, ?cmd b1, ?cmd b2, ?cmd b3, ?cmd b4]"
    and f: "\<forall>m \<in> {u, v, ?cmd b1, ?cmd b2, ?cmd b3, ?cmd b4}. fits_small (header_room msg) m"
    and uv: "\<forall>m \<in> {u, v}. GetChunkMessageTypeID m = MsgUserControlMessage" "take 2 (ChunkData u) = [0, 4]"
      "take 2 (ChunkData v) = [0, 0]"
    and d: "\<forall>amf3. status_body amf3 ''NetStream.Play.Reset'' b1 \<and> status_body amf3 ''NetStream.Play.Start'' b2
        \<and> status_body amf3 ''NetStream.Data.Start'' b3 \<and> status_body amf3 ''NetStream.Play.PublishNotify'' b4"
    using play_messages_ok [OF ch(2) csid] by (elim exE conjE)
  let ?ms = "[u, v, ?cmd b1, ?cmd b2, ?cmd b3, ?cmd b4]"
  have fits: "\<forall>m \<in> set ?ms. fits_small (header_room msg) m" using f by simp
  from on_connection_respond [OF c0(1) ch(1) ms fits] obtain cn where
    r: "respPlayCommandMessage ch msg ?c0 = (Ok (), ?c0\<lparr>Connection := cn\<rparr>)"
    and out: "wire_out cn = wire_out (Connection c) @ concat (map (wire_bytes (unat ?L)) ?ms)"
    unfolding respPlayCommandMessage_def c0(2,3) by blast
  let ?c1 = "?c0\<lparr>Connection := cn\<rparr>"
  have h: "handleCommandMessage amf3 ch msg MsgAMF0CommandMessage c = (Ok (), ?c1)"
    using r name cs(1)
    by (simp add: handle_request [OF msg] dispatch_command_def handlePlayCommandMessage_def cs_def [symmetric]
        go_wrap_def)
  have peer: "\<exists>rs t. go_repeat 6 recv_and_reset p = (Ok rs, t) \<and> rd_pending t = [] \<and> play_reply amf3 rs"
    if p: "conn_ready (unat ?L) p" "rd_pending p = concat (map (wire_bytes (unat ?L)) ?ms)" for p
  proof -
    have six: "length ?ms = 6" by simp
    obtain rs t where rs: "go_repeat 6 recv_and_reset p = (Ok rs, t)" "list_all2 carries_message rs ?ms" "rd_pending t = []"
      using peer_reads [OF fits L p] unfolding six by blast
    then obtain u1 v1 r1 r2 r3 r4 where l: "rs = [u1, v1, r1, r2, r3, r4]" "carries_message u1 u" "carries_message v1 v"
      "carries_message r1 (?cmd b1)" "carries_message r2 (?cmd b2)" "carries_message r3 (?cmd b3)" "carries_message r4 (?cmd b4)"
      by (auto simp: list_all2_Cons2)
    have "GetChunkMessageTypeID u1 = MsgUserControlMessage" "take 2 (ChunkData u1) = [0, 4]"
      "GetChunkMessageTypeID v1 = MsgUserControlMessage" "take 2 (ChunkData v1) = [0, 0]"
      "ChunkData r1 = b1" "ChunkData r2 = b2" "ChunkData r3 = b3" "ChunkData r4 = b4"
      using l uv by (simp_all add: carries_message_def command_chunk_def chunk_getters)
    with d have "play_reply amf3 rs" unfolding l(1) play_reply_def by blast
    with rs(1,3) show ?thesis by blast
  qed
  have "clientType (publishInfo ?c1) = 2" "cp_stream (publishInfo ?c1) = name" "connectInfo ?c1 = connectInfo c"
    "wire_out (Connection ?c1) = wire_out (Connection c) @ concat (map (wire_bytes (unat ?L)) ?ms)"
    using out cs by simp_all
  with h show ?thesis
    by (intro exI [of _ ?c1] exI [of _ "concat (map (wire_bytes (unat ?L)) ?ms)"] conjI allI impI)
      (assumption | elim conjE, rule peer)+
qed

theorem play_response_witness:
  "\<exists>bs c1 out rs t. handleCommandMessage no_amf3 sample_choice (sample_request bs) MsgAMF0CommandMessage sample_server_conn
      = (Ok (), c1) \<and> clientType (publishInfo c1) = 2 \<and> wire_out (Connection c1) = out
    \<and> go_repeat 6 recv_and_reset ((sample_conn out)\<lparr>RemoteChunkSize := 60000\<rparr>) = (Ok rs, t) \<and> rd_pending t = []
    \<and> play_reply no_amf3 rs"
proof -
  let ?args = "[AString ''play'', AInt 5, ANil, AString ''room'']"
  obtain bs where "encode_list ?args = Inr bs"
    by (auto simp: EncodeAmf0String_def encode_string_def EncodeAmf0Number_def)
  from sample_request_of [OF this, of no_amf3] have r: "request no_amf3 (sample_request bs)
      [AString ''play'', ANumber (int_to_float 5), ANil, AString ''room'']" by simp
  have "''room'' \<noteq> []" by simp
  from play_response [OF sample_facts(3,2,1) r this] sample_peer_ready show ?thesis
    by (elim exE conjE) (simp only: sample_facts(5) append_Nil; blast)
qed

lemma command_response_no_panic:
  assumes "can_respond (header_room msg) (Connection c)" "orders ch" "2 \<le> GetChunkCsid msg" "GetChunkCsid msg \<le> 65559"
  shows "dispatch_command ch msg cmd vs c \<noteq> (Panic p, c1)"
proof -
  note o = assms(2) and csid = assms(3,4)
  have connect: "handleConnectCommandMessage ch msg vs c \<noteq> (Panic p, c1)"
  proof -
    obtain r c2 where a: "connect_args vs c = (r, c2)" by fastforce
    with connect_args_frame assms(1) have c2: "can_respond (header_room msg) (Connection c2)" "\<forall>p. r \<noteq> Panic p"
      by (metis can_respond_TransactionID)+
    obtain ms where "map snd (connect_messages ch msg c2) = map Ok ms" "\<forall>m \<in> set ms. fits_small (header_room msg) m"
      using connect_response_messages [OF assms(2-4)] by blast
    from respond_no_panic [OF c2(1) this] c2(2) show ?thesis
      by (auto simp: handleConnectCommandMessage_def go_bind_def a respConnectCommandMessage_def split: res.splits)
  qed
  have create: "handleCreateStreamCommandMessage ch msg vs c \<noteq> (Panic p, c1)"
  proof -
    obtain t where t: "Connection (transaction_args vs c) = (Connection c)\<lparr>TransactionID := t\<rparr>"
      using transaction_args_frame by blast
    obtain bs where "command msg [AString ''_result'', AInt t, ANil, AInt 1] = Ok (command_chunk msg bs)"
      "fits_small (header_room msg) (command_chunk msg bs)" using createStream_message [OF csid] by blast
    then show ?thesis
      using respond_no_panic [where c = "transaction_args vs c" and msgs = "[command_chunk msg bs]" and rm = "header_room msg"] assms(1)
      by (auto simp: handleCreateStreamCommandMessage_def respCreateStreamCommandMessage_def t)
  qed
  have args: "can_respond (header_room msg) (Connection (stream_args 0 vs c))"
    using stream_args_frame [of 0 vs c] assms(1) by (metis can_respond_TransactionID)
  have publish: "handlePublishCommandMessage ch msg vs c \<noteq> (Panic p, c1)"
  proof -
    obtain bs where "onStatus ch 0 msg ''NetStream.Publish.Start'' ''Start publising.'' = Ok (command_chunk msg bs)"
      "fits_small (header_room msg) (command_chunk msg bs)"
      using onStatus_message [OF assms(2-4), of "''NetStream.Publish.Start''" "''Start publising.''" 0] by auto
    then show ?thesis
      using respond_no_panic [where msgs = "[command_chunk msg bs]"] args
      by (auto simp: handlePublishCommandMessage_def respPublishCommandMessage_def Let_def split: if_splits)
  qed
  have play: "handlePlayCommandMessage ch msg vs c \<noteq> (Panic p, c1)"
  proof -
    obtain ms where ms: "map snd (play_messages ch msg) = map Ok ms" "\<forall>m \<in> set ms. fits_small (header_room msg) m"
      using play_messages_ok [OF assms(2-4)]
      by (elim exE conjE) (rule that, assumption, simp)
    show ?thesis
      using respond_no_panic [OF _ ms] args
      by (auto simp: handlePlayCommandMessage_def respPlayCommandMessage_def Let_def split: if_splits)
  qed
  from connect create publish play show ?thesis by (auto simp: dispatch_command_def go_return_def)
qed



text \<open>C29: a \<open>connect\<close> that is not acceptable is refused and answered with nothing. If the transaction id is not
  1, or the strings known after it lack \<open>app\<close> or \<open>tcUrl\<close>, the handler returns an error, and nothing is queued
  or written on the connection.\<close>

theorem connect_refused:
  assumes "request amf3 msg [AString ''connect'', ANumber w, AObject ob]"
    "float_to_int w \<noteq> 1 \<or> ci_app (connect_object ob (connectInfo c)) = [] \<or> tcUrl (connect_object ob (connectInfo c)) = []"
  shows "\<exists>e c1. handleCommandMessage amf3 ch msg MsgAMF0CommandMessage c
      = (Err (Wrap ''handle connect command message'' e), c1)
    \<and> Connection c1 = (Connection c)\<lparr>TransactionID := float_to_int w\<rparr>
    \<and> publishInfo c1 = publishInfo c \<and> sess c1 = sess c
    \<and> (float_to_int w \<noteq> 1 \<longrightarrow> connectInfo c1 = connectInfo c)"
proof (cases "float_to_int w = 1")
  case True
  with assms show ?thesis
    by (auto simp: handle_request [OF assms(1)] dispatch_command_def handleConnectCommandMessage_def
        go_wrap_def go_bind_def set_TransactionID_def go_return_def Let_def)
next
  case False
  then show ?thesis
    by (simp add: handle_request [OF assms(1)] dispatch_command_def handleConnectCommandMessage_def
        go_wrap_def go_bind_def set_TransactionID_def Let_def)
qed

theorem connect_refused_witness:
  "\<exists>bs e c1. handleCommandMessage no_amf3 sample_choice (sample_request bs) MsgAMF0CommandMessage sample_server_conn
      = (Err (Wrap ''handle connect command message'' e), c1) \<and> wire_out (Connection c1) = []"
proof -
  let ?args = "[AString ''connect'', AInt 2, AObject [(''app'', AString ''live'')]]"
  obtain bs where "encode_list ?args = Inr bs"
    by (auto simp: EncodeAmf0String_def encode_string_def EncodeAmf0Number_def)
  from sample_request_of [OF this, of no_amf3] have r: "request no_amf3 (sample_request bs)
      [AString ''connect'', ANumber (int_to_float 2), AObject [(''app'', AString ''live'')]]" by simp
  have "float_to_int (int_to_float 2) = 2" by (rule float_int_roundtrip) simp
  then have "float_to_int (int_to_float 2) \<noteq> 1" by simp
  from connect_refused [OF r disjI1, OF this, of sample_choice sample_server_conn] obtain e c1 where
    h: "handleCommandMessage no_amf3 sample_choice (sample_request bs) MsgAMF0CommandMessage sample_server_conn
      = (Err (Wrap ''handle connect command message'' e), c1)"
    and c1: "Connection c1 = (Connection sample_server_conn)\<lparr>TransactionID := float_to_int (int_to_float 2)\<rparr>" by blast
  have "wire_out (Connection c1) = []" by (simp add: c1)
  with h show ?thesis by blast
qed

end
