(* ===== verification/Server_World.thy ===== *)
theory Server_World
  imports Server_Conn Session_Broker Player
begin

text \<open>
  The server as a whole (\<open>pkg/rtmp/server\<close>): connections, the broker with its sessions, and players. A
  message a client sends goes through \<open>onRecvIntegralMessage\<close> to the connection's own state, to the
  session it publishes, and from there to the packet buffers of the session's players; \<open>publishCycle\<close>,
  \<open>playCycle\<close>, \<open>recvChunkStream\<close> and \<open>serve\<close> are the life of a connection.

  Connections, sessions and players are pointers: numbers into the tables of \<open>world\<close>. The functions
  are those of one goroutine, whose calls are not interrupted; what several goroutines do to the broker
  and to a packet buffer at once is in \<open>Session_Broker\<close> and \<open>Packet_Buffer\<close>. A call that waits for
  another goroutine, on a full channel, has the value \<open>None\<close>.
\<close>

section \<open>State\<close>

record player_cell =
  pl :: player
  pl_conn :: nat              \<comment> \<open>\<open>p.c\<close>\<close>
  pl_session :: nat           \<comment> \<open>\<open>p.session\<close>\<close>

record world =
  conns :: "nat \<Rightarrow> conn"
  w_broker :: broker
  cells :: "nat \<Rightarrow> player_cell"
  cell_next :: nat

text \<open>
  What the code leaves open in a turn of a loop: the choices of a response, the order in which the
  players of a session are visited, and the time since the connection started.
\<close>

record turn_env =
  te_wire :: wire_choice
  te_order :: "(string \<Rightarrow> nat option) \<Rightarrow> string list"
  te_elapsed :: int

text \<open>Calls that may wait.\<close>

type_synonym ('s, 'a) wgo = "'s \<Rightarrow> ('a res \<times> 's) option"

definition w_call :: "('s, 'a) go \<Rightarrow> ('s, 'a) wgo" where
  "w_call m s = Some (m s)"

definition w_bind :: "('s, 'a) wgo \<Rightarrow> ('a \<Rightarrow> ('s, 'b) wgo) \<Rightarrow> ('s, 'b) wgo" where
  "w_bind m f s = Option.bind (m s) (\<lambda>(r, t).
     case r of Ok a \<Rightarrow> f a t | Err e \<Rightarrow> Some (Err e, t) | Panic p \<Rightarrow> Some (Panic p, t))"

definition w_wrap :: "string \<Rightarrow> ('s, 'a) wgo \<Rightarrow> ('s, 'a) wgo" where
  "w_wrap what m s = map_option (\<lambda>(r, t). (wrap_res what r, t)) (m s)"

text \<open>An operation of connection \<open>k\<close>, and of the broker.\<close>

definition on_conn_of :: "nat \<Rightarrow> (conn, 'a) go \<Rightarrow> (world, 'a) go" where
  "on_conn_of k m w = (case m (conns w k) of (r, c) \<Rightarrow> (r, w\<lparr>conns := (conns w)(k := c)\<rparr>))"

definition on_broker :: "(broker, 'a) go \<Rightarrow> (world, 'a) go" where
  "on_broker m w = (case m (w_broker w) of (r, b) \<Rightarrow> (r, w\<lparr>w_broker := b\<rparr>))"

section \<open>The broker of a server\<close>

definition errBrokerServer :: error where
  "errBrokerServer = ErrNew ''broker belongs to server required''"

text \<open>\<open>has_server\<close>: the options set \<open>b.server\<close>. The demuxer keeps no state.\<close>

definition broker_loadOptions :: "bool \<Rightarrow> broker \<Rightarrow> broker res" where
  "broker_loadOptions has_srv b = (if \<not> has_srv then Err errBrokerServer else Ok b)"

definition newBroker :: "bool \<Rightarrow> broker res" where
  "newBroker has_srv = broker_loadOptions has_srv empty_broker"

text \<open>The new player gets a cell; it is stored in the session under the address of its connection.\<close>

definition addSessionPlayer :: "(nat \<Rightarrow> string) \<Rightarrow> nat \<Rightarrow> string \<Rightarrow> (world, nat) go" where
  "addSessionPlayer addr k key w =
     (case sessionMap (w_broker w) key of
        None \<Rightarrow> (Err (ErrNew ''session not exists''), w)
      | Some i \<Rightarrow>
          (case newPlayer True [withPlayerPacketBufSize 150, withMergeWriteWaitTime 350000000] of
             Err e \<Rightarrow> (Err (Wrap ''create player'' e), w)
           | Panic x \<Rightarrow> (Panic x, w)
           | Ok p \<Rightarrow>
               (let n = cell_next w
                in (Ok n, w\<lparr>cells := (cells w)(n := \<lparr>pl = p, pl_conn = k, pl_session = i\<rparr>), cell_next := Suc n,
                     w_broker := upd_sess i (addPlayer (addr k) n) (w_broker w)\<rparr>))))"

text \<open>\<open>session.delPlayer\<close> when no other goroutine holds the player's mutex.\<close>

definition session_delPlayer :: "(nat \<Rightarrow> string) \<Rightarrow> nat \<Rightarrow> world \<Rightarrow> world" where
  "session_delPlayer addr n w =
     (let cell = cells w n
      in w\<lparr>cells := (cells w)(n := cell\<lparr>pl := closePacketBuffer (pl cell)\<rparr>),
           w_broker := upd_sess (pl_session cell) (delPlayer (addr (pl_conn cell))) (w_broker w)\<rparr>)"

section \<open>From the publisher to the players\<close>

primrec fanOut_loop :: "av_packet \<Rightarrow> (string \<Rightarrow> nat option) \<Rightarrow> string list \<Rightarrow> world \<Rightarrow> world option" where
  "fanOut_loop pkt m [] w = Some w"
| "fanOut_loop pkt m (a # as) w =
     (case m a of
        None \<Rightarrow> fanOut_loop pkt m as w
      | Some n \<Rightarrow> Option.bind (buffPackets pkt (pl (cells w n)))
                    (\<lambda>p. fanOut_loop pkt m as (w\<lparr>cells := (cells w)(n := (cells w n)\<lparr>pl := p\<rparr>)\<rparr>)))"

definition fanOut :: "((string \<Rightarrow> nat option) \<Rightarrow> string list) \<Rightarrow> av_packet \<Rightarrow> nat \<Rightarrow> (world, unit) wgo" where
  "fanOut order pkt i w =
     (case sess_heap (w_broker w) i of
        None \<Rightarrow> Some (Panic NilDereference, w)
      | Some s \<Rightarrow> map_option (\<lambda>w. (Ok (), w)) (fanOut_loop pkt (players s) (order (players s)) w))"

text \<open>The packet of an audio or video message, and what the session keeps of it.\<close>

definition av_packet_of :: "'a chunk_scheme \<Rightarrow> RtmpMessageTypeID \<Rightarrow> av_packet" where
  "av_packet_of msg messageTypeId =
     (let pkt = zero_packet;
          pkt = (if messageTypeId = MsgAudioMessage then pkt\<lparr>PacketType := AudioType\<rparr>
                 else if messageTypeId = MsgVideoMessage then pkt\<lparr>PacketType := VideoType\<rparr>
                 else pkt)
      in pkt\<lparr>pkt_StreamID := GetChunkMessageStreamID msg, Data := ChunkData msg,
             pkt_Timestamp := GetChunkTimestamp msg\<rparr>)"

definition keep_seq_header :: "av_packet \<Rightarrow> Tag \<Rightarrow> session \<Rightarrow> session" where
  "keep_seq_header pkt h s =
     (if PacketType pkt = AudioType then
        (if SoundFormat h = 10 \<and> AACPacketType h = 0 then s\<lparr>audioSeqHeader := Some pkt\<rparr> else s)
      else if PacketType pkt = VideoType then
        (if IsSequenceHeader h then s\<lparr>videoSeqHeader := Some pkt\<rparr> else s)
      else s)"

definition onRecvAVMessage ::
  "((string \<Rightarrow> nat option) \<Rightarrow> string list) \<Rightarrow> nat \<Rightarrow> stream \<Rightarrow> RtmpMessageTypeID \<Rightarrow> (world, unit) wgo" where
  "onRecvAVMessage order i msg messageTypeId w =
     (case DecodeHeader (av_packet_of msg messageTypeId) of
        (Err e, _) \<Rightarrow> Some (Err (Wrap ''decode avpacket header'' e), w)
      | (Panic p, _) \<Rightarrow> Some (Panic p, w)
      | (Ok _, pkt) \<Rightarrow>
          (case PacketHeader pkt of
             None \<Rightarrow> Some (Panic NilDereference, w)
           | Some h \<Rightarrow>
               fanOut order pkt i (w\<lparr>w_broker := upd_sess i (keep_seq_header pkt h) (w_broker w)\<rparr>)))"

definition onRecvDataMessage ::
  "amf_value reader \<Rightarrow> ((string \<Rightarrow> nat option) \<Rightarrow> string list) \<Rightarrow> nat \<Rightarrow> stream \<Rightarrow> RtmpMessageTypeID
    \<Rightarrow> (world, unit) wgo" where
  "onRecvDataMessage amf3 order i msg messageTypeId w =
     (case sess_heap (w_broker w) i of
        None \<Rightarrow> Some (Panic NilDereference, w)
      | Some s \<Rightarrow>
          (case publisher s of
             None \<Rightarrow> Some (Ok (), w)
           | Some k \<Rightarrow>
               w_bind (w_wrap ''handle data message''
                        (w_call (on_conn_of k (handleDataMessage amf3 msg messageTypeId)))) (\<lambda>_ w.
               let msg = skip_amf3_byte MsgAMF3DataMessage messageTypeId msg;
                   pkt = zero_packet\<lparr>PacketType := MetaData, pkt_StreamID := GetChunkMessageStreamID msg,
                           Data := ChunkData msg, pkt_Timestamp := GetChunkTimestamp msg\<rparr>
               in fanOut order pkt i
                    (w\<lparr>w_broker := upd_sess i (\<lambda>s. s\<lparr>metaData := Some pkt\<rparr>) (w_broker w)\<rparr>)) w))"

section \<open>A message of a client\<close>

text \<open>
  What the handlers leave in the message, which is then reset. The handler of data messages runs only if
  the connection has a session with a publisher.
\<close>

definition session_publisher :: "nat \<Rightarrow> world \<Rightarrow> nat option" where
  "session_publisher k w =
     Option.bind (sess (conns w k)) (\<lambda>i. Option.bind (sess_heap (w_broker w) i) publisher)"

definition handled_message :: "nat \<Rightarrow> world \<Rightarrow> stream \<Rightarrow> stream" where
  "handled_message k w msg =
     (let t = GetChunkMessageTypeID msg;
          msg = skip_amf3_byte MsgAMF3CommandMessage t msg
      in if session_publisher k w = None then msg else skip_amf3_byte MsgAMF3DataMessage t msg)"

definition defer_reset :: "nat \<Rightarrow> stream \<Rightarrow> (world, 'a) wgo \<Rightarrow> (world, 'a) wgo" where
  "defer_reset k msg m w = map_option (\<lambda>(r, w).
     (r, snd (on_conn_of k (on_connection (\<lambda>c. (Ok (), c\<lparr>messages :=
             (messages c)(GetChunkCsid msg \<mapsto> Some (stream_Reset msg))\<rparr>))) w))) (m w)"

definition dispatch_message ::
  "amf_value reader \<Rightarrow> turn_env \<Rightarrow> nat \<Rightarrow> stream \<Rightarrow> (world, unit) wgo" where
  "dispatch_message amf3 env k msg w =
     (let messageTypeId = GetChunkMessageTypeID msg
      in if messageTypeId = MsgSetChunkSize then
           w_call (on_conn_of k (on_connection (go_modify (HandleSetChunkSizeMessage msg)))) w
         else if messageTypeId = MsgAcknowledgement then
           w_call (on_conn_of k (on_connection (go_modify (HandleAcknowledgementMessage msg)))) w
         else if messageTypeId = MsgWindowAcknowledgementSize then
           w_call (on_conn_of k (on_connection (go_modify (HandleWindowAcknowledgementSizeMessage msg)))) w
         else if messageTypeId = MsgAudioMessage \<or> messageTypeId = MsgVideoMessage then
           (case sess (conns w k) of
              Some i \<Rightarrow> w_wrap ''on Recv audio/video message'' (onRecvAVMessage (te_order env) i msg messageTypeId) w
            | None \<Rightarrow>
                if clientType (publishInfo (conns w k)) \<noteq> 1
                then Some (Err (ErrNew ''recv audio/video message but client isn't publisher''), w)
                else Some (Ok (), w))
         else if messageTypeId = MsgAMF0CommandMessage \<or> messageTypeId = MsgAMF3CommandMessage then
           w_wrap ''handle command message''
             (w_call (on_conn_of k (handleCommandMessage amf3 (te_wire env) msg messageTypeId))) w
         else if messageTypeId = MSGAMF0DataMessage \<or> messageTypeId = MsgAMF3DataMessage then
           (case sess (conns w k) of
              Some i \<Rightarrow> w_wrap ''on recv data message'' (onRecvDataMessage amf3 (te_order env) i msg messageTypeId) w
            | None \<Rightarrow> Some (Ok (), w))
         else Some (Ok (), w))"

definition onRecvIntegralMessage ::
  "amf_value reader \<Rightarrow> turn_env \<Rightarrow> nat \<Rightarrow> stream \<Rightarrow> (world, unit) wgo" where
  "onRecvIntegralMessage amf3 env k msg w =
     defer_reset k (handled_message k w msg)
       (w_bind (w_wrap ''response ack'' (w_call (on_conn_of k (on_connection ResponseAcknowledgementMessage)))) (\<lambda>_.
        dispatch_message amf3 env k msg)) w"

text \<open>One turn of the receiving loops.\<close>

definition recv_turn :: "amf_value reader \<Rightarrow> turn_env \<Rightarrow> nat \<Rightarrow> (world, unit) wgo" where
  "recv_turn amf3 env k =
     w_bind (w_wrap ''recv intergral message'' (w_call (on_conn_of k (on_connection RecvIntegralMessage)))) (\<lambda>msg.
     w_wrap ''on recv intergral message'' (onRecvIntegralMessage amf3 env k msg))"

section \<open>Publishing\<close>

text \<open>The loop ends with the first error, so it has no value to return; \<open>n\<close> counts the turns.\<close>

partial_function (option) publish_loop ::
  "amf_value reader \<Rightarrow> (nat \<Rightarrow> turn_env) \<Rightarrow> nat \<Rightarrow> nat \<Rightarrow> world \<Rightarrow> (unit res \<times> world) option" where
  "publish_loop amf3 env k n w =
     Option.bind (recv_turn amf3 (env n) k w) (\<lambda>(r, w).
       case r of
         Ok _ \<Rightarrow> publish_loop amf3 env k (Suc n) w
       | Err e \<Rightarrow> Some (Err e, w)
       | Panic p \<Rightarrow> Some (Panic p, w))"

definition softDelSession :: "string \<Rightarrow> (broker, unit) wgo" where
  "softDelSession key b =
     (case softDel_begin key b of
        (Ok i, b) \<Rightarrow> (if offline_room i b then Some (Ok (), softDel_send i b) else None)
      | (Err e, b) \<Rightarrow> Some (Err e, b)
      | (Panic p, b) \<Rightarrow> Some (Panic p, b))"

text \<open>\<open>vhost, _ := parseVhost(c.clientConnectInfo.tcUrl)\<close> and the key made with it.\<close>

definition conn_vhost :: "conn \<Rightarrow> string" where
  "conn_vhost c = (case parseVhost (tcUrl (connectInfo c)) of Ok vhost \<Rightarrow> vhost | _ \<Rightarrow> [])"

definition conn_streamKey :: "conn \<Rightarrow> string" where
  "conn_streamKey c = genStreamKey (conn_vhost c) (ci_app (connectInfo c)) (cp_stream (publishInfo c))"

text \<open>The error of the deferred \<open>softDelSession\<close> is only logged.\<close>

definition publishCycle ::
  "amf_value reader \<Rightarrow> (nat \<Rightarrow> turn_env) \<Rightarrow> nat \<Rightarrow> nat \<Rightarrow> (world, unit) wgo" where
  "publishCycle amf3 env k n w =
     (let c = conns w k;
          key = conn_streamKey c;
          sessionId = ''E21A4829-6AAF-43FF-8405-3DB2B470FA13''
      in case on_broker (createSession k (ci_app (connectInfo c)) (cp_stream (publishInfo c)) (conn_vhost c)
                          key sessionId) w of
           (Err e, w) \<Rightarrow> Some (Err (Wrap ''create session in server's broker'' e), w)
         | (Panic p, w) \<Rightarrow> Some (Panic p, w)
         | (Ok i, w) \<Rightarrow>
             (let w = w\<lparr>conns := (conns w)(k := (conns w k)\<lparr>sess := Some i\<rparr>)\<rparr>
              in Option.bind (publish_loop amf3 env k n w) (\<lambda>(r, w).
                 map_option (\<lambda>(_, b). (r, w\<lparr>w_broker := b\<rparr>)) (softDelSession key (w_broker w)))))"

section \<open>Playing\<close>

text \<open>An operation of player \<open>n\<close> on itself and its connection.\<close>

definition on_player :: "nat \<Rightarrow> (pstate, 'a) go \<Rightarrow> (world, 'a) go" where
  "on_player n m w =
     (let cell = cells w n; k = pl_conn cell
      in case m (pl cell, Connection (conns w k)) of
           (r, p, c) \<Rightarrow> (r, w\<lparr>cells := (cells w)(n := cell\<lparr>pl := p\<rparr>),
                             conns := (conns w)(k := (conns w k)\<lparr>Connection := c\<rparr>)\<rparr>))"

text \<open>
  What happens while a client plays, in order: a turn of the goroutine that receives its messages, or a
  turn of the loop that sends it packets. A receiving turn that fails ends the loop; a sending turn
  waits for a packet.
\<close>

datatype play_turn = ReceiveTurn turn_env | SendTurn play_env

definition send_turn :: "(bytes \<Rightarrow> bytes res) \<Rightarrow> play_env \<Rightarrow> nat \<Rightarrow> (world, unit) wgo" where
  "send_turn reform env n =
     w_bind (w_call (on_player n (flush_env env))) (\<lambda>_ w.
       case packetBuffer (pl (cells w n)) of
         [] \<Rightarrow> if bufferClosed (pl (cells w n)) = 1 then Some (Err (ErrNew ''channel closed by writer''), w) else None
       | pkt # rest \<Rightarrow>
           w_call (on_player n (go_wrap ''sent av packet to player''
                     (sendAvPacket reform (env_pick env) (env_ck env) (env_msg env) pkt)))
             (w\<lparr>cells := (cells w)(n := (cells w n)\<lparr>pl := (pl (cells w n))\<lparr>packetBuffer := rest\<rparr>\<rparr>)\<rparr>))"

primrec play_turns ::
  "amf_value reader \<Rightarrow> (bytes \<Rightarrow> bytes res) \<Rightarrow> nat \<Rightarrow> play_turn list \<Rightarrow> (world, unit) wgo" where
  "play_turns amf3 reform n [] = w_call (go_return ())"
| "play_turns amf3 reform n (t # ts) =
     w_bind (case t of
               ReceiveTurn env \<Rightarrow> (\<lambda>w. recv_turn amf3 env (pl_conn (cells w n)) w)
             | SendTurn env \<Rightarrow> send_turn reform env n) (\<lambda>_.
     play_turns amf3 reform n ts)"

text \<open>What \<open>doPlaying\<close> sends first: the metadata and the sequence headers the session has by then.\<close>

definition send_stored_packets ::
  "(bytes \<Rightarrow> bytes res) \<Rightarrow> (nat \<Rightarrow> nat \<Rightarrow> nat) \<Rightarrow> chunk \<Rightarrow> chunk \<Rightarrow> nat \<Rightarrow> (world, unit) go" where
  "send_stored_packets reform pick ck msg0 n w =
     (case sess_heap (w_broker w) (pl_session (cells w n)) of
        None \<Rightarrow> (Panic NilDereference, w)
      | Some s \<Rightarrow>
          on_player n (go_wrap ''send meta/audio/video packet''
            (sendAvMetaPacket reform pick ck msg0 (metaData s) (audioSeqHeader s) (videoSeqHeader s))) w)"

record play_choice =
  pc_pick :: "nat \<Rightarrow> nat \<Rightarrow> nat"
  pc_ck :: chunk
  pc_msg :: chunk
  pc_turns :: "play_turn list"

text \<open>
  The player's loop ends only with an error or a panic: a cycle that is still running when its turns have
  been taken has not returned, and has the value \<open>None\<close>.
\<close>

definition playCycle ::
  "(nat \<Rightarrow> string) \<Rightarrow> amf_value reader \<Rightarrow> play_choice \<Rightarrow> nat \<Rightarrow> (world, unit) wgo" where
  "playCycle addr amf3 pc k w =
     (let reform = (\<lambda>d. MetaDataReform amf3 d 3)
      in case addSessionPlayer addr k (conn_streamKey (conns w k)) w of
           (Err e, w) \<Rightarrow> Some (Err (Wrap ''add session player in server's broker'' e), w)
         | (Panic p, w) \<Rightarrow> Some (Panic p, w)
         | (Ok n, w) \<Rightarrow>
             Option.bind
               (w_bind (w_call (send_stored_packets reform (pc_pick pc) (pc_ck pc) (pc_msg pc) n)) (\<lambda>_.
                play_turns amf3 reform n (pc_turns pc)) w)
               (\<lambda>(r, w). case r of Ok _ \<Rightarrow> None | _ \<Rightarrow> Some (r, session_delPlayer addr n w)))"

section \<open>The life of a connection\<close>

text \<open>The choices of everything a connection does.\<close>

record life =
  li_timer :: "(hs_conn \<Rightarrow> hs_conn) option"
  li_rand :: "nat \<Rightarrow> nat \<Rightarrow> bytes"
  li_fault :: "(nat \<times> error) option"
  li_env :: "nat \<Rightarrow> turn_env"
  li_play :: play_choice

partial_function (option) recvChunkStream ::
  "(nat \<Rightarrow> string) \<Rightarrow> int \<Rightarrow> amf_value reader \<Rightarrow> life \<Rightarrow> nat \<Rightarrow> nat \<Rightarrow> world \<Rightarrow> (unit res \<times> world) option" where
  "recvChunkStream addr playTimeout amf3 li k n w =
     Option.bind
       (w_bind (recv_turn amf3 (li_env li n) k) (\<lambda>_ w.
          let ct = clientType (publishInfo (conns w k))
          in if ct = 0 then
               Some (if te_elapsed (li_env li n) > playTimeout
                     then Err (ErrNew ''recv publish/play command message timeout'') else Ok (), w)
             else if ct = 1 then w_wrap ''do publish cycle'' (publishCycle amf3 (li_env li) k (Suc n)) w
             else if ct = 2 then w_wrap ''do play cycle'' (playCycle addr amf3 (li_play li) k) w
             else Some (Ok (), w)) w)
       (\<lambda>(r, w). case r of
          Ok _ \<Rightarrow> recvChunkStream addr playTimeout amf3 li k (Suc n) w
        | Err e \<Rightarrow> Some (Err e, w)
        | Panic p \<Rightarrow> Some (Panic p, w))"

text \<open>Errors are logged; a panic is not recovered, so it ends the program.\<close>

definition serve ::
  "(nat \<Rightarrow> string) \<Rightarrow> int \<Rightarrow> amf_value reader \<Rightarrow> life \<Rightarrow> nat \<Rightarrow> (world, unit) wgo" where
  "serve addr playTimeout amf3 li k w =
     (let close = (\<lambda>w. snd (on_conn_of k (on_connection conn_Close) w))
      in case on_conn_of k (handshake (li_timer li) (li_rand li) (li_fault li)) w of
           (Err e, w) \<Rightarrow> Some (Ok (), close w)
         | (Panic p, w) \<Rightarrow> Some (Panic p, close w)
         | (Ok _, w) \<Rightarrow>
             map_option (\<lambda>(r, w). (case r of Panic p \<Rightarrow> Panic p | _ \<Rightarrow> Ok (), close w))
               (recvChunkStream addr playTimeout amf3 li k 0 w))"

end
