(* ===== verification/Server_Config.thy ===== *)
theory Server_Config
  imports Server_World
begin

text \<open>
  The configuration of a server and the connections it accepts (\<open>pkg/rtmp/server/server.go\<close>,
  \<open>config.go\<close>, \<open>logger.go\<close>): the defaults \<open>loadOptions\<close> fills in, the settings of the log, and the
  accept loop, which makes a connection out of what the listener gives it. Reading the configuration
  file is an argument: the value it was unmarshalled into, or the error.
\<close>

section \<open>Configuration\<close>

record log_config =
  lc_Path :: string
  lc_Level :: string
  RotationTime :: int             \<comment> \<open>nanoseconds\<close>
  Age :: int

record config =
  Addr :: string
  cfg_ReadBufSize :: int
  cfg_LocalChunkSize :: u32
  HandshakeTimeout :: int
  PlayorPublishTimeout :: int
  Log :: log_config
  EnablePprof :: bool

definition second :: int where "second = 1000000000"

definition hour :: int where "hour = 3600 * second"

text \<open>
  The age and rotation time the log gets. A \<open>time.Duration\<close> is an \<open>int64\<close>, so the product wraps for an age
  of more than 106751 days; a value of the configuration is in the range of its type.
\<close>

definition int64 :: "int \<Rightarrow> int" where "int64 n = signed_take_bit 63 n"

definition log_maxAge :: "log_config \<Rightarrow> int" where
  "log_maxAge l = (let age = (if Age l \<le> 0 then 7 else Age l) in int64 (int64 (age * 24) * hour))"

lemma log_maxAge_wraps: "Age l = 106752 \<Longrightarrow> log_maxAge l < 0" "Age l = 106751 \<Longrightarrow> 0 < log_maxAge l"
  by (simp_all add: log_maxAge_def int64_def hour_def second_def signed_take_bit_int_eq_self
      signed_take_bit_int_less_exp)

definition log_rotationTime :: "log_config \<Rightarrow> int" where
  "log_rotationTime l = (if RotationTime l \<le> 0 then 24 * hour else RotationTime l)"

record Server =
  configPath :: string
  srv_config :: "config option"
  srv_logger :: "(int \<times> int) option"       \<comment> \<open>maximal age and rotation time of the log\<close>
  srv_broker :: "broker option"
  decodeHdrPool_set :: bool
  encodeHdrPool_set :: bool
  newChunkPool_set :: bool

definition zero_Server :: Server where
  "zero_Server = \<lparr>configPath = [], srv_config = None, srv_logger = None, srv_broker = None,
     decodeHdrPool_set = False, encodeHdrPool_set = False, newChunkPool_set = False\<rparr>"

definition WithConfigPath :: "string \<Rightarrow> Server \<Rightarrow> Server" where
  "WithConfigPath p s = s\<lparr>configPath := p\<rparr>"

text \<open>
  The environment: the directory of the program and the path \<open>config\<close> next to it, reading and
  unmarshalling the file at a path, and the libraries of the log.
\<close>

record server_env =
  env_binPath :: "string res"                      \<comment> \<open>\<open>filepath.Abs(filepath.Dir(os.Args[0]))\<close>\<close>
  env_beside :: "string \<Rightarrow> string \<Rightarrow> string"       \<comment> \<open>\<open>filepath.Join(filepath.Dir(binPath), p)\<close>\<close>
  env_ReadInConfig :: "string \<Rightarrow> error option"
  env_Unmarshal :: "string \<Rightarrow> config res"
  env_rotatelogs :: "string \<Rightarrow> int \<Rightarrow> int \<Rightarrow> error option"
  env_level :: "string \<Rightarrow> error option"

definition getAbsConfigPath :: "server_env \<Rightarrow> string res" where
  "getAbsConfigPath env = res_bind (env_binPath env) (\<lambda>binPath. Ok (env_beside env binPath ''config''))"

definition getAbsLogPath :: "server_env \<Rightarrow> string \<Rightarrow> string res" where
  "getAbsLogPath env p =
     (if take 1 p = ''/'' then Ok p
      else res_bind (env_binPath env) (\<lambda>binPath. Ok (env_beside env binPath p)))"

definition loadConfig :: "server_env \<Rightarrow> string \<Rightarrow> Server \<Rightarrow> Server res" where
  "loadConfig env path s =
     (case env_ReadInConfig env path of
        Some e \<Rightarrow> Err (Wrap ''read in config'' e)
      | None \<Rightarrow> res_bind (wrap_res ''Unmarshal config'' (env_Unmarshal env path))
                  (\<lambda>cfg. Ok (s\<lparr>srv_config := Some cfg\<rparr>)))"

definition initLogger :: "server_env \<Rightarrow> config \<Rightarrow> Server \<Rightarrow> Server res" where
  "initLogger env cfg s =
     (let l = Log cfg
      in res_bind (wrap_res ''get abs log path'' (getAbsLogPath env (lc_Path l))) (\<lambda>logPath.
         case env_rotatelogs env logPath (log_maxAge l) (log_rotationTime l) of
           Some e \<Rightarrow> Err (Wrap ''create log rotator'' e)
         | None \<Rightarrow>
             (case env_level env (lc_Level l) of
                Some e \<Rightarrow> Err (Wrap ''invalid log level'' e)
              | None \<Rightarrow> Ok (s\<lparr>srv_logger := Some (log_maxAge l, log_rotationTime l)\<rparr>))))"

definition config_defaults :: "config \<Rightarrow> config" where
  "config_defaults c =
     (let c = (if Addr c = [] then c\<lparr>Addr := '':1935''\<rparr> else c);
          c = (if cfg_ReadBufSize c \<le> 0 then c\<lparr>cfg_ReadBufSize := 8192\<rparr> else c);
          c = (if cfg_LocalChunkSize c \<le> 0 then c\<lparr>cfg_LocalChunkSize := 60000\<rparr> else c);
          c = (if HandshakeTimeout c \<le> 0 then c\<lparr>HandshakeTimeout := 3 * second\<rparr> else c)
      in if PlayorPublishTimeout c \<le> 0 then c\<lparr>PlayorPublishTimeout := 3 * second\<rparr> else c)"

definition server_loadOptions :: "server_env \<Rightarrow> (Server \<Rightarrow> Server) list \<Rightarrow> Server \<Rightarrow> Server res" where
  "server_loadOptions env opts s0 =
     (let s = fold (\<lambda>opt x. opt x) opts s0
      in res_bind (if configPath s = []
                   then wrap_res ''get abs config path while config path not assigned'' (getAbsConfigPath env)
                   else Ok (configPath s)) (\<lambda>path.
         res_bind (wrap_res ''load config'' (loadConfig env path (s\<lparr>configPath := path\<rparr>))) (\<lambda>s.
         case srv_config s of
           None \<Rightarrow> Panic NilDereference
         | Some cfg \<Rightarrow>
             res_bind (wrap_res ''init logger'' (initLogger env cfg s)) (\<lambda>s.
             let s = s\<lparr>srv_config := Some (config_defaults cfg)\<rparr>
             in res_bind (if srv_broker s = None
                          then res_bind (wrap_res ''create session broker'' (newBroker True))
                                 (\<lambda>b. Ok (s\<lparr>srv_broker := Some b\<rparr>))
                          else Ok s) (\<lambda>s.
                Ok (s\<lparr>decodeHdrPool_set := True, encodeHdrPool_set := True, newChunkPool_set := True\<rparr>))))))"

definition New_Server :: "server_env \<Rightarrow> (Server \<Rightarrow> Server) list \<Rightarrow> Server res" where
  "New_Server env opts = wrap_res ''load options'' (server_loadOptions env opts zero_Server)"

section \<open>Accepting connections\<close>

text \<open>The connection made for an accepted one; \<open>pool\<close> is what the shared pool holds.\<close>

definition accept_conn :: "Server \<Rightarrow> config \<Rightarrow> gslice list \<Rightarrow> bytes \<Rightarrow> error \<Rightarrow> conn res" where
  "accept_conn s cfg pool input fin =
     newServerConn
       [WithServerConnServer True, WithServerConnRawConn input fin,
        WithServerConnReadBufSize (cfg_ReadBufSize cfg), WithServerConnLocalChunkSize (cfg_LocalChunkSize cfg),
        WithServerConnReadHdrPoll (decodeHdrPool_set s),
        (if encodeHdrPool_set s then WithServerConnChunkEncodePool pool else id),
        WithServerConnNewChunkPool (newChunkPool_set s)]"

text \<open>
  The accept loop on what the listener gives it, ended by an error of the listener; each connection is
  stored in the next cell and served by its own goroutine.
\<close>

fun Serve :: "Server \<Rightarrow> config \<Rightarrow> ((gslice list \<times> bytes \<times> error) + error) list \<Rightarrow> nat \<Rightarrow> (world, nat) go" where
  "Serve s cfg [] k w = (Ok k, w)"
| "Serve s cfg (Inr e # rest) k w = (Err (Wrap ''listener accept'' e), w)"
| "Serve s cfg (Inl (pool, input, fin) # rest) k w =
     (case accept_conn s cfg pool input fin of
        Err e \<Rightarrow> (Err (Wrap ''create server conn'' e), w)
      | Panic p \<Rightarrow> (Panic p, w)
      | Ok c \<Rightarrow> Serve s cfg rest (Suc k) (w\<lparr>conns := (conns w)(k := c)\<rparr>))"

definition ListenAndServe ::
  "Server \<Rightarrow> config \<Rightarrow> error option \<Rightarrow> ((gslice list \<times> bytes \<times> error) + error) list \<Rightarrow> nat \<Rightarrow> (world, nat) go" where
  "ListenAndServe s cfg listen_err accepted k =
     (case listen_err of
        Some e \<Rightarrow> go_fail (Wrap ''net listen'' e)
      | None \<Rightarrow> Serve s cfg accepted k)"

end
