(* ===== verification/Server_Relay.thy ===== *)
theory Server_Relay
  imports Server_Config
begin

text \<open>
  From a publisher's socket to a player's: what the messages of a publishing client do to the session's
  players (\<open>recv_turns_relay\<close>), what a player's sending turns put on the wire (\<open>send_turns_ok\<close>), and the
  life of a publisher, to the cleaning of its session.
\<close>

section \<open>Calls that do not wait\<close>

lemma w_bind_Ok: "m s = Some (Ok a, t) \<Longrightarrow> w_bind m f s = f a t"
  by (simp add: w_bind_def)

lemma w_bind_Err: "m s = Some (Err e, t) \<Longrightarrow> w_bind m f s = Some (Err e, t)"
  by (simp add: w_bind_def)

lemma w_bind_Panic: "m s = Some (Panic p, t) \<Longrightarrow> w_bind m f s = Some (Panic p, t)"
  by (simp add: w_bind_def)

lemma w_wrap_simps:
  "m s = Some (Ok a, t) \<Longrightarrow> w_wrap what m s = Some (Ok a, t)"
  "m s = Some (Err e, t) \<Longrightarrow> w_wrap what m s = Some (Err (Wrap what e), t)"
  "m s = Some (Panic p, t) \<Longrightarrow> w_wrap what m s = Some (Panic p, t)"
  by (simp_all add: w_wrap_def)

lemmas w_calls = w_bind_Ok w_bind_Err w_bind_Panic w_wrap_simps w_call_def

section \<open>Fanning out\<close>

text \<open>\<open>Range\<close> visits every key of the map once, in some order.\<close>

definition visits :: "((string \<Rightarrow> nat option) \<Rightarrow> string list) \<Rightarrow> (string \<Rightarrow> nat option) \<Rightarrow> bool" where
  "visits order m \<longleftrightarrow> distinct (order m) \<and> set (order m) = dom m"

definition accepts :: "nat \<Rightarrow> player \<Rightarrow> bool" where
  "accepts k p \<longleftrightarrow> bufferClosed p = 1 \<or> int (length (packetBuffer p)) + int k \<le> packetBufSize p"

definition feed :: "av_packet list \<Rightarrow> player \<Rightarrow> player" where
  "feed pkts p = (if bufferClosed p = 1 then p else p\<lparr>packetBuffer := packetBuffer p @ pkts\<rparr>)"

definition feed_cells :: "nat set \<Rightarrow> av_packet list \<Rightarrow> (nat \<Rightarrow> player_cell) \<Rightarrow> nat \<Rightarrow> player_cell" where
  "feed_cells S pkts f n = (if n \<in> S then (f n)\<lparr>pl := feed pkts (pl (f n))\<rparr> else f n)"

lemma buffPackets_feed: "accepts 1 p \<Longrightarrow> buffPackets pkt p = Some (feed [pkt] p)"
  by (auto simp: accepts_def buffPackets_def feed_def)

lemma feed_feed: "feed ys (feed xs p) = feed (xs @ ys) p"
  by (simp add: feed_def)

lemma feed_cells_feed: "feed_cells S ys (feed_cells S xs f) = feed_cells S (xs @ ys) f"
  by (rule ext) (simp add: feed_cells_def feed_feed)

lemma feed_nil [simp]: "feed [] p = p" "feed_cells S [] f = f"
  by (simp_all add: feed_def feed_cells_def fun_eq_iff)

lemma accepts_feed: "accepts (length xs + k) p \<Longrightarrow> accepts k (feed xs p)"
  by (auto simp: accepts_def feed_def)

lemma fanOut_loop_ok:
  "distinct as \<Longrightarrow> inj_on m (dom m) \<Longrightarrow> \<forall>a \<in> set as. \<forall>n. m a = Some n \<longrightarrow> accepts 1 (pl (cells w n)) \<Longrightarrow>
    fanOut_loop pkt m as w = Some (w\<lparr>cells := feed_cells {n. Some n \<in> m ` set as} [pkt] (cells w)\<rparr>)"
proof (induction as arbitrary: w)
  case Nil
  then show ?case by (simp add: feed_cells_def)
next
  case (Cons a as)
  show ?case
  proof (cases "m a")
    case None
    moreover have "{n. Some n \<in> m ` set (a # as)} = {n. Some n \<in> m ` set as}" using None by force
    ultimately show ?thesis using Cons by simp
  next
    case (Some n)
    let ?w = "w\<lparr>cells := (cells w)(n := (cells w n)\<lparr>pl := feed [pkt] (pl (cells w n))\<rparr>)\<rparr>"
    have other: "n' \<noteq> n" if "b \<in> set as" "m b = Some n'" for b n'
      using that Some Cons.prems(1) inj_onD [OF Cons.prems(2), of b a] by auto
    then have acc: "\<forall>b \<in> set as. \<forall>n'. m b = Some n' \<longrightarrow> accepts 1 (pl (cells ?w n'))"
      using Cons.prems(3) by auto
    have "accepts 1 (pl (cells w n))" using Cons.prems(3) Some by simp
    then have "fanOut_loop pkt m (a # as) w = fanOut_loop pkt m as ?w"
      using Some by (simp add: buffPackets_feed)
    also have "\<dots> = Some (?w\<lparr>cells := feed_cells {n. Some n \<in> m ` set as} [pkt] (cells ?w)\<rparr>)"
      using Cons.IH [OF _ Cons.prems(2) acc] Cons.prems(1) by (simp del: fun_upd_apply)
    also have "feed_cells {n. Some n \<in> m ` set as} [pkt] (cells ?w)
        = feed_cells {n. Some n \<in> m ` set (a # as)} [pkt] (cells w)"
    proof -
      have "n \<notin> {n. Some n \<in> m ` set as}" using other [of _ n] by (metis (mono_tags, lifting) imageE mem_Collect_eq)
      moreover have "{n. Some n \<in> m ` set (a # as)} = insert n {n. Some n \<in> m ` set as}" using Some by auto
      ultimately show ?thesis by (simp add: feed_cells_def fun_eq_iff)
    qed
    finally show ?thesis by (simp del: fun_upd_apply fanOut_loop.simps)
  qed
qed

text \<open>A session whose players can each take \<open>k\<close> more packets.\<close>

definition session_takes :: "nat \<Rightarrow> (string \<Rightarrow> nat option) \<Rightarrow> world \<Rightarrow> bool" where
  "session_takes k P w \<longleftrightarrow> inj_on P (dom P) \<and> (\<forall>n \<in> ran P. accepts k (pl (cells w n)))"

lemma fanOut_ok:
  assumes "visits order (players s)" "sess_heap (w_broker w) i = Some s" "session_takes 1 (players s) w"
  shows "fanOut order pkt i w = Some (Ok (), w\<lparr>cells := feed_cells (ran (players s)) [pkt] (cells w)\<rparr>)"
proof -
  let ?P = "players s"
  have o: "distinct (order ?P)" "set (order ?P) = dom ?P"
    using assms(1,3) by (auto simp: visits_def session_takes_def)
  have "{n. Some n \<in> ?P ` dom ?P} = ran ?P" by (force simp: ran_def image_iff dom_def)
  with fanOut_loop_ok [OF o(1), of ?P w pkt] o(2) assms show ?thesis
    by (auto simp: fanOut_def session_takes_def ran_def)
qed

section \<open>A publisher's turn\<close>

definition relay_packet :: "'a chunk_scheme \<Rightarrow> av_packet" where
  "relay_packet m = snd (DecodeHeader (av_packet_of m (GetChunkMessageTypeID m)))"

definition good_av :: "'a chunk_scheme \<Rightarrow> bool" where
  "good_av m \<longleftrightarrow> GetChunkMessageTypeID m \<in> {MsgAudioMessage, MsgVideoMessage}
     \<and> fst (DecodeHeader (av_packet_of m (GetChunkMessageTypeID m))) = Ok ()"

text \<open>What the session keeps of a packet.\<close>

definition keep_packet :: "av_packet \<Rightarrow> session \<Rightarrow> session" where
  "keep_packet pkt s = (case PacketHeader pkt of None \<Rightarrow> s | Some h \<Rightarrow> keep_seq_header pkt h s)"

lemma DecodeHeader_fields:
  assumes "DecodeHeader pkt = (Ok (), p)"
  shows "\<exists>h. p = pkt\<lparr>PacketHeader := Some h\<rparr>"
  using assms by (auto simp: DecodeHeader_def split: prod.splits res.splits)

lemma relay_packet_fields:
  assumes "good_av m"
  shows "Data (relay_packet m) = ChunkData m" "pkt_Timestamp (relay_packet m) = GetChunkTimestamp m"
    "PacketType (relay_packet m) = (if GetChunkMessageTypeID m = MsgAudioMessage then AudioType else VideoType)"
    "pkt_StreamID (relay_packet m) = GetChunkMessageStreamID m"
proof -
  obtain p where p: "DecodeHeader (av_packet_of m (GetChunkMessageTypeID m)) = (Ok (), p)"
    using assms unfolding good_av_def by (metis prod.collapse)
  with DecodeHeader_fields obtain h where
    "relay_packet m = (av_packet_of m (GetChunkMessageTypeID m))\<lparr>PacketHeader := Some h\<rparr>"
    by (auto simp: relay_packet_def)
  then show "Data (relay_packet m) = ChunkData m" "pkt_Timestamp (relay_packet m) = GetChunkTimestamp m"
    "PacketType (relay_packet m) = (if GetChunkMessageTypeID m = MsgAudioMessage then AudioType else VideoType)"
    "pkt_StreamID (relay_packet m) = GetChunkMessageStreamID m"
    using assms by (auto simp: good_av_def av_packet_of_def Let_def)
qed

lemma keep_players [simp]: "players (keep_packet pkt s) = players s" "publisher (keep_packet pkt s) = publisher s"
  "streamKey (keep_packet pkt s) = streamKey s" "offline (keep_packet pkt s) = offline s"
  by (simp_all add: keep_packet_def keep_seq_header_def split: option.split)

lemma onRecvAVMessage_ok:
  assumes "visits order (players s)" "sess_heap (w_broker w) i = Some s" "session_takes 1 (players s) w" "good_av m"
  shows "onRecvAVMessage order i m (GetChunkMessageTypeID m) w = Some (Ok (),
    w\<lparr>w_broker := upd_sess i (keep_packet (relay_packet m)) (w_broker w),
      cells := feed_cells (ran (players s)) [relay_packet m] (cells w)\<rparr>)"
proof -
  obtain p where p: "DecodeHeader (av_packet_of m (GetChunkMessageTypeID m)) = (Ok (), p)"
    using assms(4) unfolding good_av_def by (metis prod.collapse)
  then have r: "relay_packet m = p" by (simp add: relay_packet_def)
  obtain h where h: "PacketHeader p = Some h" using DecodeHeader_fields [OF p] by auto
  then have k: "keep_seq_header p h = keep_packet p" by (simp add: keep_packet_def fun_eq_iff)
  let ?w = "w\<lparr>w_broker := upd_sess i (keep_packet p) (w_broker w)\<rparr>"
  have "sess_heap (w_broker ?w) i = Some (keep_packet p s)" "session_takes 1 (players (keep_packet p s)) ?w"
    using assms(2,3) by (simp_all add: session_takes_def)
  moreover have "visits order (players (keep_packet p s))" using assms(1) by simp
  ultimately show ?thesis
    using fanOut_ok [of order "keep_packet p s" ?w i p] by (simp add: onRecvAVMessage_def p h k r)
qed

lemma av_packet_of_carried:
  assumes "carries_message r m"
  shows "relay_packet r = relay_packet m" "good_av r = good_av m"
proof -
  have "av_packet_of r t = av_packet_of m t" "GetChunkMessageTypeID r = GetChunkMessageTypeID m" for t
    using assms by (auto simp: carries_message_def av_packet_of_def chunk_getters Let_def)
  then show "relay_packet r = relay_packet m" "good_av r = good_av m"
    by (simp_all add: relay_packet_def good_av_def)
qed

text \<open>Receiving a message on the wire, and resetting it.\<close>

lemma recv_wire:
  assumes "conn_ready L c" "on_wire L m" "rd_pending c = wire_bytes L m @ rest"
  shows "\<exists>r c1. RecvIntegralMessage c = (Ok r, c1) \<and> carries_message r m
    \<and> (let c2 = c1\<lparr>messages := (messages c1)(GetChunkCsid r \<mapsto> Some (stream_Reset r))\<rparr>
       in conn_ready L c2 \<and> rd_pending c2 = rest)"
proof -
  from chunk_codec.recv_encoded [OF assms] obtain r t where
    r: "recv_and_reset c = (Ok r, t)" "carries_message r m" "conn_ready L t" "rd_pending t = rest" by blast
  then obtain c1 where "RecvIntegralMessage c = (Ok r, c1)"
    "t = c1\<lparr>messages := (messages c1)(GetChunkCsid r \<mapsto> Some (stream_Reset r))\<rparr>"
    by (auto simp: recv_and_reset_def reset_message_def go_modify_def go_return_def elim!: go_bind_OkE)
  with r show ?thesis by auto
qed

definition set_connection :: "nat \<Rightarrow> connection \<Rightarrow> world \<Rightarrow> world" where
  "set_connection k cn w = w\<lparr>conns := (conns w)(k := (conns w k)\<lparr>Connection := cn\<rparr>)\<rparr>"

lemma set_connection_simps [simp]:
  "conns (set_connection k cn w) k = (conns w k)\<lparr>Connection := cn\<rparr>"
  "j \<noteq> k \<Longrightarrow> conns (set_connection k cn w) j = conns w j"
  "w_broker (set_connection k cn w) = w_broker w" "cells (set_connection k cn w) = cells w"
  "cell_next (set_connection k cn w) = cell_next w"
  "set_connection k c2 (set_connection k c1 w) = set_connection k c2 w"
  by (simp_all add: set_connection_def)

lemma recv_turn_message:
  assumes "RecvIntegralMessage (Connection (conns w k)) = (Ok r, c1)"
  shows "recv_turn amf3 env k w = w_wrap ''on recv intergral message''
    (defer_reset k (handled_message k (set_connection k c1 w) r) (dispatch_message amf3 env k r)) (set_connection k c1 w)"
proof -
  have "w_wrap ''recv intergral message'' (w_call (on_conn_of k (on_connection RecvIntegralMessage))) w
      = Some (Ok r, set_connection k c1 w)"
    by (simp add: w_calls on_conn_of_def on_connection_def assms set_connection_def)
  moreover have "w_wrap ''response ack'' (w_call (on_conn_of k (on_connection ResponseAcknowledgementMessage))) u
      = Some (Ok (), u)" for u
    by (simp add: w_calls on_conn_of_def on_connection_def ResponseAcknowledgementMessage_def go_return_def)
  ultimately show ?thesis
    by (simp add: recv_turn_def w_calls onRecvIntegralMessage_def defer_reset_def w_wrap_def)
qed

lemma defer_reset_at:
  assumes "m w = Some (r, w1)"
  shows "defer_reset k msg m w = Some (r, set_connection k
    ((Connection (conns w1 k))\<lparr>messages := (messages (Connection (conns w1 k)))(GetChunkCsid msg \<mapsto> Some (stream_Reset msg))\<rparr>) w1)"
  by (simp add: defer_reset_def assms on_conn_of_def on_connection_def set_connection_def)

lemma dispatch_av:
  assumes "sess (conns w k) = Some i" "GetChunkMessageTypeID r \<in> {MsgAudioMessage, MsgVideoMessage}"
  shows "dispatch_message amf3 env k r w
    = w_wrap ''on Recv audio/video message'' (onRecvAVMessage (te_order env) i r (GetChunkMessageTypeID r)) w"
  using assms by (auto simp: dispatch_message_def msg_ids)

lemma handled_av: "GetChunkMessageTypeID r \<in> {MsgAudioMessage, MsgVideoMessage} \<Longrightarrow> handled_message k w r = r"
  by (auto simp: handled_message_def skip_amf3_byte_def msg_ids Let_def)

text \<open>The world after a message of the publisher of session \<open>i\<close>, whose players are \<open>P\<close>.\<close>

lemma recv_turn_av:
  assumes c: "conn_ready L (Connection (conns w k))" "rd_pending (Connection (conns w k)) = wire_bytes L m @ rest"
    and m: "on_wire L m" "good_av m" and i: "sess (conns w k) = Some i" "sess_heap (w_broker w) i = Some s"
    and o: "visits (te_order env) (players s)" "session_takes 1 (players s) w"
  shows "\<exists>cn. recv_turn amf3 env k w = Some (Ok (), (set_connection k cn w)
      \<lparr>w_broker := upd_sess i (keep_packet (relay_packet m)) (w_broker w),
       cells := feed_cells (ran (players s)) [relay_packet m] (cells w)\<rparr>)
    \<and> conn_ready L cn \<and> rd_pending cn = rest"
proof -
  obtain r c1 where r: "RecvIntegralMessage (Connection (conns w k)) = (Ok r, c1)" "carries_message r m"
    and t: "let c2 = c1\<lparr>messages := (messages c1)(GetChunkCsid r \<mapsto> Some (stream_Reset r))\<rparr>
       in conn_ready L c2 \<and> rd_pending c2 = rest"
    using recv_wire [OF c(1) m(1) c(2)] by blast
  let ?w = "set_connection k c1 w"
  have g: "good_av r" "relay_packet r = relay_packet m" using av_packet_of_carried [OF r(2)] m(2) by auto
  then have ty: "GetChunkMessageTypeID r \<in> {MsgAudioMessage, MsgVideoMessage}" by (simp add: good_av_def)
  have "session_takes 1 (players s) ?w" "sess_heap (w_broker ?w) i = Some s" "sess (conns ?w k) = Some i"
    using o(2) i by (simp_all add: session_takes_def)
  from onRecvAVMessage_ok [OF o(1) this(2,1) g(1)] dispatch_av [OF this(3) ty, of amf3 env]
  have "dispatch_message amf3 env k r ?w = Some (Ok (), ?w
      \<lparr>w_broker := upd_sess i (keep_packet (relay_packet m)) (w_broker w),
       cells := feed_cells (ran (players s)) [relay_packet m] (cells w)\<rparr>)"
    by (simp add: w_wrap_simps g(2))
  from defer_reset_at [where m = "dispatch_message amf3 env k r" and w = ?w, OF this, of k r]
  have "recv_turn amf3 env k w = Some (Ok (), (set_connection k
      (c1\<lparr>messages := (messages c1)(GetChunkCsid r \<mapsto> Some (stream_Reset r))\<rparr>) w)
      \<lparr>w_broker := upd_sess i (keep_packet (relay_packet m)) (w_broker w),
       cells := feed_cells (ran (players s)) [relay_packet m] (cells w)\<rparr>)"
    unfolding recv_turn_message [OF r(1)] handled_av [OF ty]
    by (simp add: w_wrap_def set_connection_def)
  with t show ?thesis
    by (intro exI [of _ "c1\<lparr>messages := (messages c1)(GetChunkCsid r \<mapsto> Some (stream_Reset r))\<rparr>"])
      (simp add: Let_def)
qed

section \<open>A publisher's turns\<close>

primrec recv_turns :: "amf_value reader \<Rightarrow> nat \<Rightarrow> turn_env list \<Rightarrow> (world, unit) wgo" where
  "recv_turns amf3 k [] = w_call (go_return ())"
| "recv_turns amf3 k (e # es) = w_bind (recv_turn amf3 e k) (\<lambda>_. recv_turns amf3 k es)"

lemma recv_turns_relay:
  "conn_ready L (Connection (conns w k)) \<Longrightarrow>
    rd_pending (Connection (conns w k)) = concat (map (wire_bytes L) ms) @ rest \<Longrightarrow>
    \<forall>m \<in> set ms. on_wire L m \<and> good_av m \<Longrightarrow> sess (conns w k) = Some i \<Longrightarrow>
    sess_heap (w_broker w) i = Some s \<Longrightarrow> players s = P \<Longrightarrow> session_takes (length ms) P w \<Longrightarrow>
    \<forall>e \<in> set es. visits (te_order e) P \<Longrightarrow> length es = length ms \<Longrightarrow>
    \<exists>cn b. recv_turns amf3 k es w = Some (Ok (), (set_connection k cn w)
        \<lparr>w_broker := b, cells := feed_cells (ran P) (map relay_packet ms) (cells w)\<rparr>)
      \<and> b = fold (\<lambda>m. upd_sess i (keep_packet (relay_packet m))) ms (w_broker w)
      \<and> conn_ready L cn \<and> rd_pending cn = rest"
proof (induction ms arbitrary: w es s)
  case Nil
  then have "set_connection k (Connection (conns w k)) w = w" by (simp add: set_connection_def)
  with Nil show ?case
    by (intro exI [of _ "Connection (conns w k)"]) (simp add: w_call_def go_return_def)
next
  case (Cons m ms)
  then obtain e es' where es: "es = e # es'" "length es' = length ms" by (cases es) auto
  have acc: "accepts (length [relay_packet m] + length ms) (pl (cells w n))" if "n \<in> ran P" for n
    using Cons.prems(7) that by (simp add: session_takes_def)
  have one: "session_takes 1 (players s) w"
    using Cons.prems(6,7) by (auto simp: session_takes_def accepts_def)
  have p: "rd_pending (Connection (conns w k)) = wire_bytes L m @ concat (map (wire_bytes L) ms) @ rest"
    using Cons.prems(2) by simp
  from recv_turn_av [OF Cons.prems(1) p _ _ Cons.prems(4,5) _ one, of e amf3] Cons.prems(3,6,8) es
  obtain c1 where r: "recv_turn amf3 e k w = Some (Ok (), (set_connection k c1 w)
      \<lparr>w_broker := upd_sess i (keep_packet (relay_packet m)) (w_broker w),
       cells := feed_cells (ran (players s)) [relay_packet m] (cells w)\<rparr>)"
    and c1: "conn_ready L c1" "rd_pending c1 = concat (map (wire_bytes L) ms) @ rest" by auto
  let ?w = "(set_connection k c1 w)\<lparr>w_broker := upd_sess i (keep_packet (relay_packet m)) (w_broker w),
       cells := feed_cells (ran P) [relay_packet m] (cells w)\<rparr>"
  have "session_takes (length ms) P ?w"
    using Cons.prems(7) accepts_feed [OF acc] by (auto simp: session_takes_def feed_cells_def)
  then have "\<exists>cn b. recv_turns amf3 k es' ?w = Some (Ok (), (set_connection k cn ?w)
        \<lparr>w_broker := b, cells := feed_cells (ran P) (map relay_packet ms) (cells ?w)\<rparr>)
      \<and> b = fold (\<lambda>m. upd_sess i (keep_packet (relay_packet m))) ms (w_broker ?w)
      \<and> conn_ready L cn \<and> rd_pending cn = rest"
    using Cons.prems c1 es by (intro Cons.IH [where s = "keep_packet (relay_packet m) s"]) simp_all
  with r Cons.prems(6) es show ?case
    by (auto simp: w_bind_Ok feed_cells_feed set_connection_def)
qed

section \<open>A player's turns\<close>

text \<open>The packet buffer of the player does not matter to what it sends.\<close>

definition put_buffer :: "av_packet list \<Rightarrow> player \<Rightarrow> player" where
  "put_buffer b p = p\<lparr>packetBuffer := b\<rparr>"

lemma put_buffer_frame:
  "flushAvPacket now fault small (put_buffer b p, c)
    = (case flushAvPacket now fault small (p, c) of (r, q, d) \<Rightarrow> (r, put_buffer b q, d))"
  "sendAvPacket reform pick ck m pkt (put_buffer b p, c)
    = (case sendAvPacket reform pick ck m pkt (p, c) of (r, q, d) \<Rightarrow> (r, put_buffer b q, d))"
proof -
  show "flushAvPacket now fault small (put_buffer b p, c)
    = (case flushAvPacket now fault small (p, c) of (r, q, d) \<Rightarrow> (r, put_buffer b q, d))"
    by (auto simp: flushAvPacket_def put_buffer_def split: prod.splits res.splits)
  have "packet_message (put_buffer b p) pkt m = packet_message p pkt m"
    by (simp add: packet_message_def send_timestamp_def getBaseTimestamp_def put_buffer_def)
  moreover have "updateBaseTimestamp i t (put_buffer b p) = put_buffer b (updateBaseTimestamp i t p)" for i t
    by (simp add: updateBaseTimestamp_def put_buffer_def Let_def)
  ultimately show "sendAvPacket reform pick ck m pkt (put_buffer b p, c)
    = (case sendAvPacket reform pick ck m pkt (p, c) of (r, q, d) \<Rightarrow> (r, put_buffer b q, d))"
    by (auto simp: sendAvPacket_def Let_def put_buffer_def split: prod.splits res.splits)
qed

lemma flush_env_frame:
  "flush_env env (put_buffer b p, c) = (case flush_env env (p, c) of (r, q, d) \<Rightarrow> (r, put_buffer b q, d))"
  by (auto simp: flush_env_def go_wrap_def put_buffer_frame split: prod.splits)

lemma play_loop_frame:
  "play_loop reform evs (put_buffer b p, c)
    = (case play_loop reform evs (p, c) of (r, q, d) \<Rightarrow> (r, put_buffer b q, d))"
proof (induction reform evs arbitrary: p c rule: play_loop.induct)
  case (4 reform env evs)
  then show ?case by (auto simp: go_bind_def flush_env_frame split: prod.splits res.splits)
next
  case (5 reform env pkt evs)
  then show ?case
    by (auto simp: go_bind_def go_wrap_def flush_env_frame put_buffer_frame split: prod.splits res.splits)
qed (auto simp: go_bind_def go_return_def go_fail_def flush_env_frame split: prod.splits res.splits)

lemma put_buffer_simps [simp]: "packetBuffer (put_buffer b p) = b" "put_buffer b (put_buffer a p) = put_buffer b p"
  by (simp_all add: put_buffer_def)

lemma flush_env_buffer: "flush_env env (p, c) = (r, q, d) \<Longrightarrow> packetBuffer q = packetBuffer p"
  by (auto simp: flush_env_def go_wrap_def flushAvPacket_def split: prod.splits res.splits if_splits)

text \<open>The turns of the loop as the events of \<open>play_loop\<close>.\<close>

definition turn_events :: "play_env list \<Rightarrow> av_packet list \<Rightarrow> play_event list" where
  "turn_events envs pkts = map (\<lambda>(e, pkt). Received e (Some pkt)) (zip envs pkts)"

definition set_player :: "nat \<Rightarrow> player \<Rightarrow> connection \<Rightarrow> world \<Rightarrow> world" where
  "set_player n p c w = (set_connection (pl_conn (cells w n)) c w)\<lparr>cells := (cells w)(n := (cells w n)\<lparr>pl := p\<rparr>)\<rparr>"

lemma on_player_at:
  "m (pl (cells w n), Connection (conns w (pl_conn (cells w n)))) = (r, p, c) \<Longrightarrow>
    on_player n m w = (r, set_player n p c w)"
  by (simp add: on_player_def Let_def set_player_def set_connection_def)

lemma set_player_simps [simp]:
  "pl (cells (set_player n p c w) n) = p" "pl_conn (cells (set_player n p c w) n) = pl_conn (cells w n)"
  "Connection (conns (set_player n p c w) (pl_conn (cells w n))) = c"
  "set_player n p2 c2 (set_player n p c w) = set_player n p2 c2 w"
  "w_broker (set_player n p c w) = w_broker w"
  by (simp_all add: set_player_def) (simp add: set_connection_def)

lemma send_turns_loop:
  "pl (cells w n) = put_buffer (pkts @ later) p \<Longrightarrow> Connection (conns w (pl_conn (cells w n))) = c \<Longrightarrow>
    length envs = length pkts \<Longrightarrow> play_loop reform (turn_events envs pkts) (p, c) = (Ok (), (q, d)) \<Longrightarrow>
    play_turns amf3 reform n (map SendTurn envs) w = Some (Ok (), set_player n (put_buffer later q) d w)"
proof (induction envs arbitrary: pkts w p c)
  case Nil
  then show ?case
    by (simp add: turn_events_def w_call_def go_return_def set_player_def set_connection_def)
      (cases w; auto simp: fun_eq_iff)
next
  case (Cons e envs)
  then obtain pkt pkts' where pk: "pkts = pkt # pkts'" "length envs = length pkts'" by (cases pkts) auto
  from Cons.prems(4) pk obtain p1 c1 p2 c2 where
    f: "flush_env e (p, c) = (Ok (), (p1, c1))"
    and s: "sendAvPacket reform (env_pick e) (env_ck e) (env_msg e) pkt (p1, c1) = (Ok (), (p2, c2))"
    and l: "play_loop reform (turn_events envs pkts') (p2, c2) = (Ok (), (q, d))"
    by (auto simp: turn_events_def elim!: go_bind_OkE)
  let ?w1 = "set_player n (put_buffer (pkts @ later) p1) c1 w"
  let ?w2 = "set_player n (put_buffer (pkts' @ later) p2) c2 w"
  have "on_player n (flush_env e) w = (Ok (), ?w1)"
    by (rule on_player_at) (simp add: Cons.prems(1,2) flush_env_frame f)
  moreover have "on_player n (go_wrap ''sent av packet to player''
                     (sendAvPacket reform (env_pick e) (env_ck e) (env_msg e) pkt))
             (?w1\<lparr>cells := (cells ?w1)(n := (cells ?w1 n)\<lparr>pl := put_buffer (pkts' @ later) p1\<rparr>)\<rparr>) = (Ok (), ?w2)"
    by (subst on_player_at)
      (auto simp: go_wrap_def put_buffer_frame s set_player_def set_connection_def)
  ultimately have "send_turn reform e n w = Some (Ok (), ?w2)"
    using pk by (simp add: send_turn_def w_call_def w_bind_def put_buffer_def)
  moreover have "play_turns amf3 reform n (map SendTurn envs) ?w2 = Some (Ok (), set_player n (put_buffer later q) d ?w2)"
    using pk l by (intro Cons.IH [of _ pkts' p2 c2]) simp_all
  ultimately show ?case by (simp add: w_bind_Ok)
qed

lemma played_turn_events:
  "length envs = length pkts \<Longrightarrow> \<forall>pkt \<in> set pkts. is_av pkt \<Longrightarrow>
    map ChunkData (played p (turn_events envs pkts)) = map Data pkts
    \<and> map GetChunkMessageTypeID (played p (turn_events envs pkts)) = map packet_type_id pkts
    \<and> map GetChunkMessageStreamID (played p (turn_events envs pkts)) = map pkt_StreamID pkts"
proof (induction envs pkts arbitrary: p rule: list_induct2)
  case (Cons e envs pkt pkts)
  moreover have "GetChunkMessageStreamID (packet_message p pkt m) = pkt_StreamID pkt" for m
    by (simp add: packet_message_def chunk_options chunk_getters Let_def split: prod.split)
  ultimately show ?case by (simp add: turn_events_def packet_message_fields)
qed (simp add: turn_events_def)

lemma smooth_turn_events:
  assumes "\<forall>e \<in> set envs. env_fault e = None" "\<forall>pkt \<in> set pkts. is_av pkt \<and> unat (pkt_Timestamp pkt) \<le> m"
  shows "\<forall>ev \<in> set (turn_events envs pkts). smooth m ev"
  using assms by (auto simp: turn_events_def) (metis set_zip_leftD set_zip_rightD)+

lemma relay_packet_av:
  assumes "on_wire L m" "good_av m"
  shows "is_av (relay_packet m)" "packet_type_id (relay_packet m) = GetChunkMessageTypeID m"
proof -
  have "unat (GetChunkMessageLength m) < 2 ^ LENGTH(32)" by (rule unsigned_less)
  then have "0 < length (ChunkData m)" "length (ChunkData m) < 2 ^ 32"
    using assms(1) by (auto simp: on_wire_def fits_wire_def sendable_def word_less_nat_alt)
  with assms(2) show "is_av (relay_packet m)" "packet_type_id (relay_packet m) = GetChunkMessageTypeID m"
    using relay_packet_fields [OF assms(2)]
    by (auto simp: is_av_def good_av_def packet_type_id_def packet_csid_type_def packet_types)
qed

text \<open>A player of the session that can take and send what the publisher is about to send.\<close>

definition listening :: "nat \<Rightarrow> nat \<Rightarrow> world \<Rightarrow> bool" where
  "listening k n w \<longleftrightarrow> pl_conn (cells w n) \<noteq> k \<and> packetBuffer (pl (cells w n)) = []
     \<and> bufferClosed (pl (cells w n)) \<noteq> 1
     \<and> player_inv (pl (cells w n), Connection (conns w (pl_conn (cells w n))))"

section \<open>Properties\<close>

text \<open>C1: what a publisher sends reaches a player. Audio and video messages that arrive on a publisher's
  connection go, turn by turn, into the packet buffers of the session's players, and a listening player's
  turns put exactly these messages into its outgoing stream, in order, with the same payload, type and
  stream id, and with timestamps that never go back.\<close>

theorem relay:
  assumes "conn_ready L (Connection (conns w k))" "rd_pending (Connection (conns w k)) = concat (map (wire_bytes L) ms) @ rest"
    and ms: "\<forall>m \<in> set ms. on_wire L m \<and> good_av m \<and> unat (GetChunkTimestamp m) \<le> M"
    and "sess (conns w k) = Some i" "sess_heap (w_broker w) i = Some s"
    and takes: "session_takes (length ms) (players s) w"
    and es: "\<forall>e \<in> set es. visits (te_order e) (players s)" "length es = length ms"
    and n: "n \<in> ran (players s)" "listening k n w" "unat (basicTimestamp (pl (cells w n))) \<le> M"
    and M: "M + 40 * length ms < 2 ^ 32"
    and envs: "\<forall>e \<in> set envs. env_fault e = None" "length envs = length ms"
  shows "\<exists>w1 w2 sent. recv_turns amf3 k es w = Some (Ok (), w1)
    \<and> rd_pending (Connection (conns w1 k)) = rest
    \<and> play_turns amf3 reform n (map SendTurn envs) w1 = Some (Ok (), w2)
    \<and> outgoing (Connection (conns w2 (pl_conn (cells w n)))) = outgoing (Connection (conns w (pl_conn (cells w n))))
        @ concat (map (wire_bytes (unat (LocalChunkSize (Connection (conns w (pl_conn (cells w n))))))) sent)
    \<and> map ChunkData sent = map ChunkData ms
    \<and> map GetChunkMessageTypeID sent = map GetChunkMessageTypeID ms
    \<and> map GetChunkMessageStreamID sent = map GetChunkMessageStreamID ms
    \<and> sorted (map (\<lambda>x. unat (GetChunkTimestamp x)) sent)"
proof -
  let ?p = "pl (cells w n)" and ?kn = "pl_conn (cells w n)" and ?pkts = "map relay_packet ms"
  let ?c = "Connection (conns w ?kn)"
  obtain cn b where r: "recv_turns amf3 k es w = Some (Ok (), (set_connection k cn w)
        \<lparr>w_broker := b, cells := feed_cells (ran (players s)) ?pkts (cells w)\<rparr>)" and rest: "rd_pending cn = rest"
    using recv_turns_relay [OF assms(1,2) _ assms(4,5) refl takes es] ms by blast
  let ?w1 = "(set_connection k cn w)\<lparr>w_broker := b, cells := feed_cells (ran (players s)) ?pkts (cells w)\<rparr>"
  have kn: "?kn \<noteq> k" "packetBuffer ?p = []" "bufferClosed ?p \<noteq> 1" and inv: "player_inv (?p, ?c)"
    using n(2) by (simp_all add: listening_def)
  have buf: "pl (cells ?w1 n) = put_buffer (?pkts @ []) ?p" "pl_conn (cells ?w1 n) = ?kn"
    "Connection (conns ?w1 (pl_conn (cells ?w1 n))) = ?c"
    using n(1) kn by (simp_all add: feed_cells_def feed_def put_buffer_def)
  have av: "\<forall>pkt \<in> set ?pkts. is_av pkt \<and> unat (pkt_Timestamp pkt) \<le> M"
    using ms relay_packet_av(1) relay_packet_fields(2) by (metis (no_types, lifting) imageE list.set_map)
  have len: "length (turn_events envs ?pkts) = length ms" using envs(2) by (simp add: turn_events_def)
  have M1: "M + 40 * length (turn_events envs ?pkts) < 2 ^ 32" using M len by simp
  obtain q d where l: "play_loop reform (turn_events envs ?pkts) (?p, ?c) = (Ok (), (q, d))"
    and out: "outgoing d = outgoing ?c @ concat (map (wire_bytes (unat (LocalChunkSize ?c)))
        (played ?p (turn_events envs ?pkts)))"
    and sorted: "sorted (map (\<lambda>x. unat (GetChunkTimestamp x)) (played ?p (turn_events envs ?pkts)))"
    using play_loop_ok [OF inv smooth_turn_events [OF envs(1) av] n(3) M1, of reform] by blast
  have e: "length envs = length ?pkts" using envs(2) by simp
  note t = send_turns_loop [OF buf(1,3) e l, of amf3]
  have fields: "map Data ?pkts = map ChunkData ms" "map packet_type_id ?pkts = map GetChunkMessageTypeID ms"
    "map pkt_StreamID ?pkts = map GetChunkMessageStreamID ms"
    using ms by (auto simp: relay_packet_fields relay_packet_av(2))
  have played: "map ChunkData (played ?p (turn_events envs ?pkts)) = map ChunkData ms"
    "map GetChunkMessageTypeID (played ?p (turn_events envs ?pkts)) = map GetChunkMessageTypeID ms"
    "map GetChunkMessageStreamID (played ?p (turn_events envs ?pkts)) = map GetChunkMessageStreamID ms"
    using played_turn_events [OF e, of ?p] av unfolding fields by blast+
  let ?w2 = "set_player n (put_buffer [] q) d ?w1"
  have "rd_pending (Connection (conns ?w1 k)) = rest" using rest by simp
  moreover have "Connection (conns ?w2 ?kn) = d" using buf(2) set_player_simps(3) [of n _ d ?w1] by simp
  ultimately show ?thesis using r t out sorted played
    by (intro exI [of _ ?w1] exI [of _ ?w2] exI [of _ "played ?p (turn_events envs ?pkts)"]) simp
qed

text \<open>A publisher on connection 0, and a player on connection 1.\<close>

definition sample_session :: session where
  "sample_session = zero_session\<lparr>sess_id := ''id'', sess_vhost := ''v'', appName := ''live'', streamName := ''a'',
     publisher := Some 0, players := [''p'' \<mapsto> 0], offline := Some 0, sess_broker := True, streamKey := ''v/live/a''\<rparr>"

definition sample_world :: "bytes \<Rightarrow> world" where
  "sample_world input = \<lparr>
     conns = (\<lambda>_. zero_conn\<lparr>has_server := True, Connection := sample_conn []\<rparr>)
       (0 := zero_conn\<lparr>has_server := True, Connection := sample_conn input, sess := Some 0\<rparr>),
     w_broker = empty_broker\<lparr>sess_heap := [0 \<mapsto> sample_session], sess_next := 1, watches := (\<lambda>_. Finished)(0 := Waiting),
       sessionTotal := 1, sessionMap := [''v/live/a'' \<mapsto> 0]\<rparr>,
     cells = (\<lambda>_. \<lparr>pl = zero_player\<lparr>packetBufSize := 150\<rparr>, pl_conn = 1, pl_session = 0\<rparr>), cell_next = 1\<rparr>"

definition sample_turn :: turn_env where
  "sample_turn = \<lparr>te_wire = \<lparr>w_pick = (\<lambda>_ _. 0), w_ck = zero_chunk, w_order = (\<lambda>_ xs. xs), w_fault = None, w_small = False\<rparr>,
     te_order = (\<lambda>_. [''p'']), te_elapsed = 0\<rparr>"

definition sample_audio :: "u32 \<Rightarrow> bytes \<Rightarrow> chunk" where
  "sample_audio t d = sample_msg 4 t (0x2f # d)"

lemma sample_audio_ok:
  assumes "t < 0xffffff" "length d < 120"
  shows "on_wire 128 (sample_audio t d)" "good_av (sample_audio t d)"
proof -
  have "unat (of_nat (Suc (length d)) :: u32) = Suc (length d)" "0 < (of_nat (Suc (length d)) :: u32)"
    using of_nat_u32 [of "Suc (length d)"] assms(2) by (simp_all del: of_nat_Suc)
  then show "on_wire 128 (sample_audio t d)"
    using assms by (simp add: sample_audio_def sample_msg_def on_wire_def fits_wire_def sendable_def
        header_fits_def whole_chunks_def chunk_getters del: of_nat_Suc)
  have "unat (0x2f :: u8) div 16 = 2" by simp
  then show "good_av (sample_audio t d)"
    by (simp add: good_av_def sample_audio_def sample_msg_def chunk_getters msg_ids DecodeHeader_def
        DecodeMediaTagHeader_def av_packet_of_def packet_types decodeAudioHeader_cases)
qed

theorem relay_witness:
  "\<exists>w1 w2 sent. recv_turns no_amf3 0 [sample_turn, sample_turn]
      (sample_world (wire_bytes 128 (sample_audio 40 [1]) @ wire_bytes 128 (sample_audio 60 [2, 3]))) = Some (Ok (), w1)
    \<and> play_turns no_amf3 Ok 0 (map SendTurn [sample_env 0, sample_env 1]) w1 = Some (Ok (), w2)
    \<and> outgoing (Connection (conns w2 1)) = concat (map (wire_bytes 128) sent)
    \<and> map ChunkData sent = [[0x2f, 1], [0x2f, 2, 3]]"
proof -
  let ?ms = "[sample_audio 40 [1], sample_audio 60 [2, 3]]"
  let ?w = "sample_world (wire_bytes 128 (sample_audio 40 [1]) @ wire_bytes 128 (sample_audio 60 [2, 3]))"
  have c: "conn_ready 128 (Connection (conns ?w 0))" by (simp add: sample_world_def)
  have pend: "rd_pending (Connection (conns ?w 0)) = concat (map (wire_bytes 128) ?ms) @ []"
    by (simp add: sample_world_def sample_conn_def)
  have ms: "\<forall>m \<in> set ?ms. on_wire 128 m \<and> good_av m \<and> unat (GetChunkTimestamp m) \<le> 60"
    by (simp add: sample_audio_ok) (simp add: sample_audio_def sample_msg_def chunk_getters)
  have i: "sess (conns ?w 0) = Some 0" "sess_heap (w_broker ?w) 0 = Some sample_session"
    by (simp_all add: sample_world_def)
  have takes: "session_takes (length ?ms) (players sample_session) ?w"
    by (auto simp: session_takes_def sample_world_def sample_session_def accepts_def zero_player_def)
  have es: "\<forall>e \<in> set [sample_turn, sample_turn]. visits (te_order e) (players sample_session)"
    "length [sample_turn, sample_turn] = length ?ms"
    by (simp_all add: visits_def sample_turn_def sample_session_def)
  have n: "0 \<in> ran (players sample_session)" "listening 0 0 ?w" "unat (basicTimestamp (pl (cells ?w 0))) \<le> 60"
    using sample_player_inv
    by (simp_all add: listening_def sample_world_def sample_session_def zero_player_def player_inv_def base_inv_def)
  have M: "60 + 40 * length ?ms < 2 ^ 32" by simp
  have envs: "\<forall>e \<in> set [sample_env 0, sample_env 1]. env_fault e = None"
    "length [sample_env 0, sample_env 1] = length ?ms" by (simp_all add: sample_env_def)
  have out: "pl_conn (cells ?w 0) = 1" "outgoing (Connection (conns ?w 1)) = []"
    "unat (LocalChunkSize (Connection (conns ?w 1))) = 128"
    by (simp_all add: sample_world_def outgoing_def sample_conn_def buffers_bytes_def)
  have data: "map ChunkData ?ms = [[0x2f, 1], [0x2f, 2, 3]]" by (simp add: sample_audio_def sample_msg_def)
  from relay [OF c pend ms i takes es n M envs, of no_amf3 Ok] show ?thesis
    unfolding out data append_Nil by (elim exE conjE) (intro exI conjI, assumption+)
qed

end
