(* ===== verification/Server_Join.thy ===== *)
theory Server_Join
  imports Server_Relay
begin

text \<open>
  A player that comes late. The session keeps the last sequence headers its publisher sent; a client that
  joins is sent these before anything else, because it cannot decode a frame without them.
\<close>

section \<open>What the session keeps\<close>

text \<open>
  Payloads that configure a decoder: an AAC sequence header, and a key frame that is not an AVC frame with
  another packet type than zero.
\<close>

definition opens_audio :: "bytes \<Rightarrow> bool" where
  "opens_audio d \<longleftrightarrow> 2 \<le> length d \<and> unat (d ! 0) div 16 = 10 \<and> d ! 1 = 0"

definition opens_video :: "bytes \<Rightarrow> bool" where
  "opens_video d \<longleftrightarrow> 5 \<le> length d \<and> unat (d ! 0) div 16 = 1 \<and> (unat (d ! 0) mod 16 = 7 \<longrightarrow> d ! 1 = 0)"

text \<open>The messages of type \<open>t\<close> that open a decoder.\<close>

abbreviation openers :: "RtmpMessageTypeID \<Rightarrow> (bytes \<Rightarrow> bool) \<Rightarrow> 'a chunk_scheme list \<Rightarrow> 'a chunk_scheme list" where
  "openers t opens ms \<equiv> filter (\<lambda>m. GetChunkMessageTypeID m = t \<and> opens (ChunkData m)) ms"

definition last_header :: "RtmpMessageTypeID \<Rightarrow> (bytes \<Rightarrow> bool) \<Rightarrow> 'a chunk_scheme list \<Rightarrow> (RtmpMessageTypeID \<times> bytes) list" where
  "last_header t opens ms = (case openers t opens ms of [] \<Rightarrow> [] | xs \<Rightarrow> [(t, ChunkData (last xs))])"

lemma keep_packet_cases:
  assumes "good_av m"
  shows "keep_packet (relay_packet m) s =
    (if GetChunkMessageTypeID m = MsgAudioMessage \<and> opens_audio (ChunkData m)
     then s\<lparr>audioSeqHeader := Some (relay_packet m)\<rparr>
     else if GetChunkMessageTypeID m = MsgVideoMessage \<and> opens_video (ChunkData m)
     then s\<lparr>videoSeqHeader := Some (relay_packet m)\<rparr> else s)"
proof -
  let ?d = "ChunkData m" and ?t = "GetChunkMessageTypeID m"
  obtain p where p: "DecodeHeader (av_packet_of m ?t) = (Ok (), p)"
    using assms unfolding good_av_def by (metis prod.collapse)
  have ty: "?t = MsgAudioMessage \<or> ?t = MsgVideoMessage" using assms by (auto simp: good_av_def)
  have r: "relay_packet m = p" using p by (simp add: relay_packet_def)
  have pt: "PacketType p = (if ?t = MsgAudioMessage then AudioType else VideoType)"
    using relay_packet_fields(3) [OF assms] r by simp
  show ?thesis
  proof (cases "?t = MsgAudioMessage")
    case True
    with p obtain n t where t: "decodeAudioHeader ?d zero_Tag = (Ok n, t)" "PacketHeader p = Some t"
      by (auto simp: DecodeHeader_def DecodeMediaTagHeader_def av_packet_of_def packet_types msg_ids
          split: prod.splits res.splits)
    have "SoundFormat t = 10 \<and> AACPacketType t = 0 \<longleftrightarrow> opens_audio ?d"
      using t(1) by (auto simp: decodeAudioHeader_def opens_audio_def SoundFormat_def AACPacketType_def Let_def
          word_unat_eq_iff drop_bits zero_Tag_def split: if_splits)
    with True t(2) pt show ?thesis
      by (simp add: keep_packet_def keep_seq_header_def r packet_types msg_ids)
  next
    case False
    with ty p obtain n t where t: "decodeVideoHeader ?d zero_Tag = (Ok n, t)" "PacketHeader p = Some t"
      by (auto simp: DecodeHeader_def DecodeMediaTagHeader_def av_packet_of_def packet_types msg_ids
          split: prod.splits res.splits)
    have l: "5 \<le> length ?d" using t(1) by (auto simp: decodeVideoHeader_def split: if_splits)
    have "IsSequenceHeader t \<longleftrightarrow> opens_video ?d"
      using decodeVideoHeader_fields [OF l t(1)] l
      by (auto simp: opens_video_def IsSequenceHeader_def IsKeyFrame_def word_unat_eq_iff)
    with False ty t(2) pt show ?thesis
      by (simp add: keep_packet_def keep_seq_header_def r packet_types msg_ids)
  qed
qed

lemma kept_headers:
  "\<forall>m \<in> set ms. good_av m \<Longrightarrow> sess_heap b i = Some s \<Longrightarrow>
    \<exists>t. sess_heap (fold (\<lambda>m. upd_sess i (keep_packet (relay_packet m))) ms b) i = Some t
      \<and> sessionMap (fold (\<lambda>m. upd_sess i (keep_packet (relay_packet m))) ms b) = sessionMap b
      \<and> audioSeqHeader t = (case openers MsgAudioMessage opens_audio ms of
            [] \<Rightarrow> audioSeqHeader s | xs \<Rightarrow> Some (relay_packet (last xs)))
      \<and> videoSeqHeader t = (case openers MsgVideoMessage opens_video ms of
            [] \<Rightarrow> videoSeqHeader s | xs \<Rightarrow> Some (relay_packet (last xs)))
      \<and> metaData t = metaData s \<and> players t = players s"
proof (induction ms arbitrary: b s)
  case (Cons m ms)
  let ?s = "keep_packet (relay_packet m) s"
  have "sess_heap (upd_sess i (keep_packet (relay_packet m)) b) i = Some ?s" using Cons.prems by simp
  from Cons.IH [OF _ this] Cons.prems show ?case
    by (auto simp: keep_packet_cases msg_ids split: list.splits)
qed simp

section \<open>What a new player is sent\<close>

lemma send_stored_ok:
  "player_inv (p, c) \<Longrightarrow> unat (basicTimestamp p) \<le> M \<Longrightarrow> M + 40 * length xs < 2 ^ 32 \<Longrightarrow>
    \<forall>pkt \<in> set (List.map_filter (\<lambda>x. fst (snd x)) xs). is_av pkt \<and> unat (pkt_Timestamp pkt) \<le> M \<Longrightarrow>
    \<exists>p1 c1 sent. send_stored reform xs (p, c) = (Ok (), (p1, c1))
      \<and> outgoing c1 = outgoing c @ concat (map (wire_bytes (unat (LocalChunkSize c))) sent)
      \<and> map (\<lambda>m. (GetChunkMessageTypeID m, ChunkData m)) sent
        = map (\<lambda>pkt. (packet_type_id pkt, Data pkt)) (List.map_filter (\<lambda>x. fst (snd x)) xs)"
proof (induction xs arbitrary: p c M)
  case Nil
  then show ?case
    by (intro exI [of _ p] exI [of _ c] exI [of _ "[]"]) (simp add: go_return_def map_filter_simps)
next
  case (Cons x xs)
  obtain what pkt pick ck msg0 where x: "x = (what, pkt, pick, ck, msg0)" by (cases x) auto
  show ?case
  proof (cases pkt)
    case None
    with Cons x show ?thesis by (simp add: map_filter_simps)
  next
    case (Some k)
    let ?m = "packet_message p k msg0"
    have k: "is_av k" "unat (pkt_Timestamp k) \<le> M" using Cons.prems(4) x Some by (simp_all add: map_filter_simps)
    have t: "unat (basicTimestamp p) + 40 < 2 ^ 32" "base_inv p"
      using Cons.prems(1,2,3) by (auto simp: player_inv_def)
    from sendAvPacket_ok [OF Cons.prems(1) k(1) t(1), of reform pick ck msg0] obtain p1 c1 where
      s: "sendAvPacket reform pick ck msg0 k (p, c) = (Ok (), (p1, c1))" "player_inv (p1, c1)"
        "outgoing c1 = outgoing c @ wire_bytes (unat (LocalChunkSize c)) ?m"
        "LocalChunkSize c1 = LocalChunkSize c" "same_base p1 (after_packet p k)" by blast
    have "unat (basicTimestamp p1) \<le> M + 40"
      using after_packet_base(3) [OF t(2,1), of k] s(5) k(2) Cons.prems(2) by (simp add: same_base_def)
    moreover have "\<forall>pkt \<in> set (List.map_filter (\<lambda>x. fst (snd x)) xs). is_av pkt \<and> unat (pkt_Timestamp pkt) \<le> M + 40"
      using Cons.prems(4) x Some by (auto simp: map_filter_simps)
    moreover have "M + 40 + 40 * length xs < 2 ^ 32" using Cons.prems(3) by simp
    ultimately obtain p2 c2 sent where
      r: "send_stored reform xs (p1, c1) = (Ok (), (p2, c2))"
        "outgoing c2 = outgoing c1 @ concat (map (wire_bytes (unat (LocalChunkSize c1))) sent)"
        "map (\<lambda>m. (GetChunkMessageTypeID m, ChunkData m)) sent
          = map (\<lambda>pkt. (packet_type_id pkt, Data pkt)) (List.map_filter (\<lambda>x. fst (snd x)) xs)"
      using Cons.IH [OF s(2)] by blast
    show ?thesis
      using x Some s r k(1)
      by (intro exI [of _ p2] exI [of _ c2] exI [of _ "?m # sent"])
        (simp add: go_bind_def go_wrap_def map_filter_simps packet_message_fields)
  qed
qed

lemma new_player:
  "\<exists>p. newPlayer True [withPlayerPacketBufSize 150, withMergeWriteWaitTime 350000000] = Ok p
    \<and> basicTimestamp p = 0 \<and> bytesCount p = 0 \<and> base_inv p"
  by (simp add: newPlayer_def player_loadOptions_def zero_player_def withPlayerPacketBufSize_def
      withMergeWriteWaitTime_def base_inv_def)

text \<open>A client's connection that has nothing queued and can be written to.\<close>

definition idle_client :: "connection \<Rightarrow> bool" where
  "idle_client c \<longleftrightarrow> writeBuf c = [] \<and> pool_ok 1 c \<and> LocalChunkSize c \<noteq> 0"

definition stored_headers :: "session \<Rightarrow> av_packet list" where
  "stored_headers t = List.map_filter (\<lambda>x. x) [audioSeqHeader t, videoSeqHeader t]"

lemma join_sends:
  assumes i: "sessionMap (w_broker w) (conn_streamKey (conns w j)) = Some i" "sess_heap (w_broker w) i = Some t"
    "metaData t = None" and c: "idle_client (Connection (conns w j))"
    and av: "\<forall>pkt \<in> set (stored_headers t). is_av pkt \<and> unat (pkt_Timestamp pkt) \<le> M" "M + 120 < 2 ^ 32"
  shows "\<exists>n w2 w3 sent. addSessionPlayer addr j (conn_streamKey (conns w j)) w = (Ok n, w2)
    \<and> sess_heap (w_broker w2) i = Some (addPlayer (addr j) n t)
    \<and> send_stored_packets reform pick ck msg n w2 = (Ok (), w3)
    \<and> outgoing (Connection (conns w3 j)) = outgoing (Connection (conns w j))
        @ concat (map (wire_bytes (unat (LocalChunkSize (Connection (conns w j))))) sent)
    \<and> map (\<lambda>m. (GetChunkMessageTypeID m, ChunkData m)) sent
      = map (\<lambda>pkt. (packet_type_id pkt, Data pkt)) (stored_headers t)"
proof -
  let ?c = "Connection (conns w j)" and ?n = "cell_next w"
  obtain p where p: "newPlayer True [withPlayerPacketBufSize 150, withMergeWriteWaitTime 350000000] = Ok p"
    "basicTimestamp p = 0" "bytesCount p = 0" "base_inv p" using new_player by blast
  let ?w2 = "w\<lparr>cells := (cells w)(?n := \<lparr>pl = p, pl_conn = j, pl_session = i\<rparr>), cell_next := Suc ?n,
      w_broker := upd_sess i (addPlayer (addr j) ?n) (w_broker w)\<rparr>"
  have add: "addSessionPlayer addr j (conn_streamKey (conns w j)) w = (Ok ?n, ?w2)"
    using i(1) p(1) by (simp add: addSessionPlayer_def Let_def)
  have inv: "player_inv (p, ?c)"
    using c p by (simp add: player_inv_def idle_client_def queue_ok_def buffers_bytes_def)
  let ?xs = "[(''send onMeta packet to player'', None, pick 0, ck, msg),
        (''send audio sequence header to player'', audioSeqHeader t, pick 1, ck, msg),
        (''send video sequence header to player'', videoSeqHeader t, pick 2, ck, msg)]"
  have stored: "List.map_filter (\<lambda>x. fst (snd x)) ?xs = stored_headers t"
    by (simp add: stored_headers_def map_filter_simps split: option.split)
  have b: "unat (basicTimestamp p) \<le> M" "M + 40 * length ?xs < 2 ^ 32" using p(2) av(2) by simp_all
  from send_stored_ok [OF inv b, of reform] av(1) obtain p1 c1 sent where
    s: "send_stored reform ?xs (p, ?c) = (Ok (), (p1, c1))"
      "outgoing c1 = outgoing ?c @ concat (map (wire_bytes (unat (LocalChunkSize ?c))) sent)"
      "map (\<lambda>m. (GetChunkMessageTypeID m, ChunkData m)) sent
        = map (\<lambda>pkt. (packet_type_id pkt, Data pkt)) (stored_headers t)"
    unfolding stored by blast
  have "on_player ?n (go_wrap ''send meta/audio/video packet''
      (sendAvMetaPacket reform pick ck msg None (audioSeqHeader t) (videoSeqHeader t))) ?w2
    = (Ok (), set_player ?n p1 c1 ?w2)"
    by (rule on_player_at) (use s(1) in \<open>simp add: go_wrap_def sendAvMetaPacket_def\<close>)
  then have "send_stored_packets reform pick ck msg ?n ?w2 = (Ok (), set_player ?n p1 c1 ?w2)"
    using i(2,3) by (simp add: send_stored_packets_def addPlayer_def)
  moreover have "Connection (conns (set_player ?n p1 c1 ?w2) j) = c1"
    using set_player_simps(3) [of ?n p1 c1 ?w2] by simp
  ultimately show ?thesis using add i(2) s(2,3)
    by (intro exI [of _ ?n] exI [of _ ?w2] exI [of _ "set_player ?n p1 c1 ?w2"] exI [of _ sent]) simp
qed

section \<open>Properties\<close>

text \<open>C3: a player that joins late can decode. After a publisher has sent any audio and video messages, a client
  that starts to play the stream joins its session, and before anything else is sent the last audio
  sequence header and then the last video sequence header of these messages, those there were, with the
  payload the publisher sent.\<close>

theorem late_player:
  assumes c: "conn_ready L (Connection (conns w k))" "rd_pending (Connection (conns w k)) = concat (map (wire_bytes L) ms) @ rest"
    and ms: "\<forall>m \<in> set ms. on_wire L m \<and> good_av m \<and> unat (GetChunkTimestamp m) \<le> M" "M + 120 < 2 ^ 32"
    and i: "sess (conns w k) = Some i" "sess_heap (w_broker w) i = Some s"
      "metaData s = None" "audioSeqHeader s = None" "videoSeqHeader s = None"
    and takes: "session_takes (length ms) (players s) w"
    and es: "\<forall>e \<in> set es. visits (te_order e) (players s)" "length es = length ms"
    and j: "j \<noteq> k" "sessionMap (w_broker w) (conn_streamKey (conns w j)) = Some i" "idle_client (Connection (conns w j))"
  shows "\<exists>w1 n w2 w3 sent t. recv_turns amf3 k es w = Some (Ok (), w1)
    \<and> addSessionPlayer addr j (conn_streamKey (conns w j)) w1 = (Ok n, w2)
    \<and> sess_heap (w_broker w2) i = Some t \<and> players t = (players s)(addr j \<mapsto> n)
    \<and> send_stored_packets reform pick ck msg n w2 = (Ok (), w3)
    \<and> outgoing (Connection (conns w3 j)) = outgoing (Connection (conns w j))
        @ concat (map (wire_bytes (unat (LocalChunkSize (Connection (conns w j))))) sent)
    \<and> map (\<lambda>m. (GetChunkMessageTypeID m, ChunkData m)) sent
      = last_header MsgAudioMessage opens_audio ms @ last_header MsgVideoMessage opens_video ms"
proof -
  let ?c = "Connection (conns w j)" and ?key = "conn_streamKey (conns w j)"
  let ?b = "fold (\<lambda>m. upd_sess i (keep_packet (relay_packet m))) ms (w_broker w)"
  let ?A = "openers MsgAudioMessage opens_audio ms" and ?V = "openers MsgVideoMessage opens_video ms"
  have good: "\<forall>m \<in> set ms. on_wire L m \<and> good_av m" "\<forall>m \<in> set ms. good_av m" using ms(1) by auto
  obtain cn where r: "recv_turns amf3 k es w = Some (Ok (), (set_connection k cn w)
        \<lparr>w_broker := ?b, cells := feed_cells (ran (players s)) (map relay_packet ms) (cells w)\<rparr>)"
    using recv_turns_relay [OF c good(1) i(1,2) refl takes es] by blast
  let ?w1 = "(set_connection k cn w)\<lparr>w_broker := ?b, cells := feed_cells (ran (players s)) (map relay_packet ms) (cells w)\<rparr>"
  obtain t where t: "sess_heap ?b i = Some t" "sessionMap ?b = sessionMap (w_broker w)"
    "audioSeqHeader t = (case ?A of [] \<Rightarrow> None | xs \<Rightarrow> Some (relay_packet (last xs)))"
    "videoSeqHeader t = (case ?V of [] \<Rightarrow> None | xs \<Rightarrow> Some (relay_packet (last xs)))"
    "metaData t = None" "players t = players s"
    using kept_headers [OF good(2) i(2)] unfolding i(3-5) by blast
  have mem: "?A \<noteq> [] \<Longrightarrow> last ?A \<in> set ?A" "?V \<noteq> [] \<Longrightarrow> last ?V \<in> set ?V" by (rule last_in_set; simp)+
  have pk: "is_av (relay_packet m) \<and> unat (pkt_Timestamp (relay_packet m)) \<le> M
      \<and> packet_type_id (relay_packet m) = GetChunkMessageTypeID m \<and> Data (relay_packet m) = ChunkData m"
    if "m \<in> set ms" for m
  proof -
    have m: "on_wire L m" "good_av m" "unat (GetChunkTimestamp m) \<le> M" using ms(1) that by auto
    show ?thesis using m(3) relay_packet_av [OF m(1,2)] relay_packet_fields(1,2) [OF m(2)] by simp
  qed
  have stored: "stored_headers t
      = map relay_packet ((if ?A = [] then [] else [last ?A]) @ (if ?V = [] then [] else [last ?V]))"
    using t(3,4) by (simp add: stored_headers_def map_filter_simps split: list.split)
  have av: "\<forall>pkt \<in> set (stored_headers t). is_av pkt \<and> unat (pkt_Timestamp pkt) \<le> M"
    unfolding stored using pk mem by auto
  have sent: "map (\<lambda>pkt. (packet_type_id pkt, Data pkt)) (stored_headers t)
      = last_header MsgAudioMessage opens_audio ms @ last_header MsgVideoMessage opens_video ms"
    unfolding stored last_header_def using pk mem by (auto split: list.split)
  have w1: "conns ?w1 j = conns w j" "sessionMap (w_broker ?w1) (conn_streamKey (conns ?w1 j)) = Some i"
    "sess_heap (w_broker ?w1) i = Some t" "idle_client (Connection (conns ?w1 j))"
    using j t(1,2) by simp_all
  from join_sends [OF w1(2,3) t(5) w1(4) av ms(2), of addr reform pick ck msg] obtain n w2 w3 sent where
    "addSessionPlayer addr j ?key ?w1 = (Ok n, w2)" "sess_heap (w_broker w2) i = Some (addPlayer (addr j) n t)"
    "send_stored_packets reform pick ck msg n w2 = (Ok (), w3)"
    "outgoing (Connection (conns w3 j)) = outgoing ?c @ concat (map (wire_bytes (unat (LocalChunkSize ?c))) sent)"
    "map (\<lambda>m. (GetChunkMessageTypeID m, ChunkData m)) sent
      = last_header MsgAudioMessage opens_audio ms @ last_header MsgVideoMessage opens_video ms"
    unfolding w1(1) sent by blast
  with r t(6) show ?thesis
    by (intro exI [of _ ?w1] exI [of _ n] exI [of _ w2] exI [of _ w3] exI [of _ sent]
        exI [of _ "addPlayer (addr j) n t"]) (simp add: addPlayer_def)
qed

text \<open>A publisher that sent an AAC sequence header and a frame, and a client that joins.\<close>

definition sample_aac :: "bytes \<Rightarrow> chunk" where
  "sample_aac d = sample_msg 4 40 (0xaf # d)"

lemma sample_aac_ok:
  assumes "d = [0, 0x12, 0x10] \<or> d = [1, 0x21]"
  shows "on_wire 128 (sample_aac d)" "good_av (sample_aac d)"
proof -
  show "on_wire 128 (sample_aac d)"
    using assms by (auto simp: sample_aac_def sample_msg_def on_wire_def fits_wire_def sendable_def
        header_fits_def whole_chunks_def chunk_getters)
  have "unat (0xaf :: u8) div 16 = 10" by simp
  then show "good_av (sample_aac d)"
    using assms by (auto simp: good_av_def sample_aac_def sample_msg_def chunk_getters msg_ids DecodeHeader_def
        DecodeMediaTagHeader_def av_packet_of_def packet_types decodeAudioHeader_cases)
qed

definition join_world :: "bytes \<Rightarrow> world" where
  "join_world input = (let w = sample_world input; b = w_broker w in w
     \<lparr>w_broker := b\<lparr>sess_heap := [0 \<mapsto> sample_session], sessionMap := [conn_streamKey (conns w 1) \<mapsto> 0]\<rparr>\<rparr>)"

theorem late_player_witness:
  "\<exists>w1 n w2 w3 sent. recv_turns no_amf3 0 [sample_turn, sample_turn]
      (join_world (wire_bytes 128 (sample_aac [0, 0x12, 0x10]) @ wire_bytes 128 (sample_aac [1, 0x21]))) = Some (Ok (), w1)
    \<and> addSessionPlayer (\<lambda>_. ''q'') 1 (conn_streamKey (conns (join_world []) 1)) w1 = (Ok n, w2)
    \<and> send_stored_packets Ok (\<lambda>_ _. 0) zero_chunk zero_chunk n w2 = (Ok (), w3)
    \<and> outgoing (Connection (conns w3 1)) = concat (map (wire_bytes 128) sent)
    \<and> map ChunkData sent = [[0xaf, 0, 0x12, 0x10]]"
proof -
  let ?ms = "[sample_aac [0, 0x12, 0x10], sample_aac [1, 0x21]]"
  let ?w = "join_world (wire_bytes 128 (sample_aac [0, 0x12, 0x10]) @ wire_bytes 128 (sample_aac [1, 0x21]))"
  have c: "conn_ready 128 (Connection (conns ?w 0))" by (simp add: join_world_def Let_def sample_world_def)
  have pend: "rd_pending (Connection (conns ?w 0)) = concat (map (wire_bytes 128) ?ms) @ []"
    by (simp add: join_world_def Let_def sample_world_def sample_conn_def)
  have ms: "\<forall>m \<in> set ?ms. on_wire 128 m \<and> good_av m \<and> unat (GetChunkTimestamp m) \<le> 40"
    by (simp add: sample_aac_ok) (simp add: sample_aac_def sample_msg_def chunk_getters)
  have i: "sess (conns ?w 0) = Some 0" "sess_heap (w_broker ?w) 0 = Some sample_session" "metaData sample_session = None"
    "audioSeqHeader sample_session = None" "videoSeqHeader sample_session = None"
    by (simp_all add: join_world_def Let_def sample_world_def sample_session_def zero_session_def)
  have takes: "session_takes (length ?ms) (players sample_session) ?w"
    by (auto simp: session_takes_def join_world_def Let_def sample_world_def sample_session_def accepts_def zero_player_def)
  have es: "\<forall>e \<in> set [sample_turn, sample_turn]. visits (te_order e) (players sample_session)"
    "length [sample_turn, sample_turn] = length ?ms"
    by (simp_all add: visits_def sample_turn_def sample_session_def)
  have j: "(1::nat) \<noteq> 0" "sessionMap (w_broker ?w) (conn_streamKey (conns ?w 1)) = Some 0"
    "idle_client (Connection (conns ?w 1))"
    by (simp_all add: join_world_def Let_def sample_world_def idle_client_def sample_conn_def pool_ok_def)
  have same: "conns ?w 1 = conns (join_world []) 1" by (simp add: join_world_def Let_def sample_world_def)
  have L: "unat (LocalChunkSize (Connection (conns (join_world []) 1))) = 128"
    "outgoing (Connection (conns (join_world []) 1)) = []"
    by (simp_all add: join_world_def Let_def sample_world_def sample_conn_def outgoing_def buffers_bytes_def)
  have "last_header MsgAudioMessage opens_audio ?ms @ last_header MsgVideoMessage opens_video ?ms
      = [(MsgAudioMessage, [0xaf, 0, 0x12, 0x10])]"
    by (simp add: last_header_def sample_aac_def sample_msg_def chunk_getters msg_ids opens_audio_def)
  then have h: "map (\<lambda>m. (GetChunkMessageTypeID m, ChunkData m)) sent
      = last_header MsgAudioMessage opens_audio ?ms @ last_header MsgVideoMessage opens_video ?ms \<Longrightarrow>
    map ChunkData sent = [[0xaf, 0, 0x12, 0x10]]" for sent :: "chunk list" by auto
  have M: "(40::nat) + 120 < 2 ^ 32" by simp
  from late_player [OF c pend ms M i takes es j, of no_amf3 "\<lambda>_. ''q''" Ok "\<lambda>_ _. 0" zero_chunk zero_chunk] h
  show ?thesis unfolding same L append_Nil by blast
qed

end
