(* ===== verification/Server_Life.thy ===== *)
theory Server_Life
  imports Server_Relay Server_Responses
begin

text \<open>
  The life of a connection: what the server makes of an accepted connection, how a client that is not
  publishing is treated, that a publisher's loop ends, what it leaves behind, and a message that ends the
  whole program.
\<close>

section \<open>Accepting\<close>

lemma newServerConn_accept:
  assumes "decodeHdrPool_set s" "encodeHdrPool_set s" "newChunkPool_set s"
  shows "\<exists>c. accept_conn s cfg pool input fin = Ok c \<and> conn_Init (Connection c) = (Ok (), Connection c)
    \<and> RemoteChunkSize (Connection c) = 128 \<and> rd_pending (Connection c) = input \<and> EncodeHdrPool (Connection c) = pool
    \<and> handshakeStatus c = 0 \<and> sess c = None \<and> clientType (publishInfo c) = 0"
  using assms
  by (simp add: accept_conn_def newServerConn_def conn_loadOptions_def server_conn_options zero_conn_def
      zero_connection_def on_connection_def conn_Init_def Let_def zero_publishInfo_def zero_ackWindowSize_def)

lemma New_Server_pools:
  assumes "New_Server env opts = Ok s"
  shows "decodeHdrPool_set s" "encodeHdrPool_set s" "newChunkPool_set s"
  using assms
  by (auto simp: New_Server_def server_loadOptions_def Let_def res_bind_def split: res.splits option.splits if_splits)

section \<open>Only the receiver consumes input\<close>

abbreviation keeps_input :: "(connection, 'a) go \<Rightarrow> bool" where
  "keeps_input m \<equiv> (\<forall>p. go_keeps (\<lambda>c. rd_pending c = p) m)"

lemma keeps_input_bind: "keeps_input m \<Longrightarrow> (\<And>a. keeps_input (f a)) \<Longrightarrow> keeps_input (go_bind m f)"
  by (simp add: go_keeps_bind)

lemma keeps_input_wrap: "keeps_input m \<Longrightarrow> keeps_input (go_wrap msg m)"
  by (simp add: go_keeps_wrap)

lemma keeps_input_queue:
  "keeps_input (\<lambda>c1. case header_Encode h headerBuf of
                   (Err e, _) \<Rightarrow> (Err (Wrap what e), c1)
                 | (Panic p, _) \<Rightarrow> (Panic p, c1)
                 | (Ok headerSize, headerBuf) \<Rightarrow>
                     if headerSize \<le> sl_cap headerBuf then
                       go_bind (conn_Write (sl_prefix headerSize headerBuf)) (\<lambda>nw1.
                       go_bind (conn_Write b) (\<lambda>nw2.
                       go_return (nw1 + nw2, chunkSize))) c1
                     else (Panic SliceOutOfRange, c1))"
proof -
  obtain r hb where "header_Encode h headerBuf = (r, hb)" by fastforce
  then show ?thesis
    by (cases r) (auto simp: go_keeps_def go_bind_def conn_Write_def go_return_def)
qed

lemma rd_pending_if:
  "rd_pending (snd a) = p \<Longrightarrow> rd_pending (snd b) = p \<Longrightarrow> rd_pending (snd (if B then a else b)) = p"
  by simp

lemma keeps_input_send_chunk: "keeps_input (send_chunk pick ck msg idx)"
proof -
  have "keeps_input (pool_Get k)" for k by (auto simp: go_keeps_def pool_Get_def)
  note k = keeps_input_bind [OF this keeps_input_queue]
  show ?thesis
    unfolding send_chunk_def Let_def
    by (intro allI go_keepsI rd_pending_if) (simp, rule go_keepsD [OF k [rule_format]])
qed

lemma keeps_input_send_loop: "keeps_input (send_loop pick ck msg idxs u n)"
proof (induction idxs arbitrary: u n)
  case (Cons idx idxs)
  show ?case
  proof (cases "u = 0")
    case False
    have "keeps_input (go_bind (send_chunk pick ck msg idx) (\<lambda>(nw, chunkSize).
           send_loop pick ck msg idxs (GetChunkMessageLength msg - chunkSize) (n + nw)))"
      using Cons by (intro keeps_input_bind keeps_input_send_chunk) (simp split: prod.split)
    with False show ?thesis by simp
  qed simp
qed simp

lemma keeps_input_Send: "keeps_input (SendIntegralMessage pick ck msg)"
  using keeps_input_send_loop by (auto simp: go_keeps_def SendIntegralMessage_def Let_def)

lemma keeps_input_Flush: "keeps_input (conn_Flush fault small)"
  by (auto simp: go_keeps_def conn_Flush_def Let_def split: option.splits)

lemma keeps_input_respond: "keeps_input (respond ch what xs)"
proof -
  have "keeps_input (send_or_nil ch k w m)" for k w m
    by (cases m) (simp_all add: send_or_nil_def keeps_input_wrap keeps_input_Send)
  then have "keeps_input (send_list ch k xs)" for k
    by (induction xs arbitrary: k) (simp_all add: keeps_input_bind)
  moreover have "keeps_input (flush_total ch what n)" for n
    unfolding flush_total_def
    by (intro keeps_input_bind keeps_input_wrap keeps_input_Flush) simp
  ultimately show ?thesis unfolding respond_def by (intro keeps_input_bind)
qed

text \<open>What the handlers of a connection leave alone: its input and its session.\<close>

definition same_life :: "conn \<Rightarrow> conn \<Rightarrow> bool" where
  "same_life c d \<longleftrightarrow> rd_pending (Connection d) = rd_pending (Connection c) \<and> sess d = sess c"

lemma same_life_refl [simp]: "same_life c c"
  by (simp add: same_life_def)

lemma same_life_trans: "same_life c d \<Longrightarrow> same_life d e \<Longrightarrow> same_life c e"
  by (simp add: same_life_def)

lemma same_life_respond: "on_connection (respond ch what xs) c = (r, d) \<Longrightarrow> same_life c d"
  using keeps_input_respond [of ch what xs]
  by (auto simp: on_connection_def same_life_def go_keeps_def split: prod.splits) (metis snd_conv)

lemma same_life_args:
  "connect_args vs c = (r, d) \<Longrightarrow> same_life c d" "same_life c (transaction_args vs c)" "same_life c (stream_args k vs c)"
proof -
  show "connect_args vs c = (r, d) \<Longrightarrow> same_life c d"
    by (induction vs arbitrary: c rule: connect_args.induct)
      (auto simp: go_return_def Let_def set_TransactionID_def same_life_def split: if_splits)
  show "same_life c (transaction_args vs c)"
    by (induction vs c rule: transaction_args.induct) (auto simp: set_TransactionID_def same_life_def)
  show "same_life c (stream_args k vs c)"
    by (induction k vs c rule: stream_args.induct) (auto simp: set_TransactionID_def same_life_def split: if_splits)
qed

lemma go_wrap_state: "go_wrap what m s = (r, t) \<Longrightarrow> \<exists>q. m s = (q, t)"
  by (auto simp: go_wrap_def split: prod.splits)

lemma same_life_dispatch:
  assumes "dispatch_command ch msg cmd vs c = (r, d)"
  shows "same_life c d"
proof -
  have connect: "same_life c d" if "handleConnectCommandMessage ch msg vs c = (q, d)" for q d
  proof -
    obtain q1 c1 where a: "connect_args vs c = (q1, c1)" by fastforce
    have "same_life c1 d" if "go_wrap x (respConnectCommandMessage ch msg) c1 = (q, d)" for x
      using go_wrap_state [OF that] same_life_respond unfolding respConnectCommandMessage_def by blast
    then have "same_life c1 d"
      using that by (auto simp: handleConnectCommandMessage_def go_bind_def a split: res.splits if_splits)
    with same_life_args(1) [OF a] show ?thesis by (rule same_life_trans)
  qed
  have create: "same_life c d" if "handleCreateStreamCommandMessage ch msg vs c = (q, d)" for q d
    using go_wrap_state [OF that [unfolded handleCreateStreamCommandMessage_def]]
      same_life_respond same_life_trans [OF same_life_args(2)]
    unfolding respCreateStreamCommandMessage_def by blast
  have publish: "same_life c d" if "handlePublishCommandMessage ch msg vs c = (q, d)" for q d
  proof (cases "cp_stream (publishInfo (stream_args 0 vs c)) = []")
    case False
    let ?c1 = "(stream_args 0 vs c)\<lparr>publishInfo := (publishInfo (stream_args 0 vs c))\<lparr>clientType := 1\<rparr>\<rparr>"
    from that False obtain q1 where "respPublishCommandMessage ch msg ?c1 = (q1, d)"
      by (auto simp: handlePublishCommandMessage_def Let_def dest: go_wrap_state)
    then have "same_life ?c1 d" unfolding respPublishCommandMessage_def by (rule same_life_respond)
    with same_life_args(3) [of c 0 vs] show ?thesis by (simp add: same_life_def)
  qed (use that same_life_args(3) in \<open>auto simp: handlePublishCommandMessage_def\<close>)
  have play: "same_life c d" if "handlePlayCommandMessage ch msg vs c = (q, d)" for q d
  proof (cases "cp_stream (publishInfo (stream_args 0 vs c)) = []")
    case False
    let ?c1 = "(stream_args 0 vs c)\<lparr>publishInfo := (publishInfo (stream_args 0 vs c))\<lparr>clientType := 2\<rparr>\<rparr>"
    from that False obtain q1 where "respPlayCommandMessage ch msg ?c1 = (q1, d)"
      by (auto simp: handlePlayCommandMessage_def Let_def dest: go_wrap_state)
    then have "same_life ?c1 d" unfolding respPlayCommandMessage_def by (rule same_life_respond)
    with same_life_args(3) [of c 0 vs] show ?thesis by (simp add: same_life_def)
  qed (use that same_life_args(3) in \<open>auto simp: handlePlayCommandMessage_def\<close>)
  show ?thesis
    using assms connect create publish play
    by (auto simp: dispatch_command_def go_return_def split: if_splits dest!: go_wrap_state)
qed

lemma same_life_command:
  assumes "handleCommandMessage amf3 ch msg typeId c = (r, d)"
  shows "same_life c d"
  using assms same_life_dispatch
  by (auto simp: handleCommandMessage_def Let_def go_bind_def go_lift_def go_return_def go_panic_def
      split: res.splits list.splits amf_value.splits)

lemma same_life_data:
  assumes "handleDataMessage amf3 msg typeId c = (r, d)"
  shows "same_life c d"
proof -
  have "same_life c (handleSetDataFrameDataMessage vs c)" for vs c
    by (induction vs c rule: handleSetDataFrameDataMessage.induct) (auto simp: same_life_def)
  with assms show ?thesis
    by (auto simp: handleDataMessage_def Let_def go_bind_def go_lift_def go_return_def go_panic_def go_modify_def
        split: res.splits list.splits amf_value.splits if_splits)
qed

section \<open>A publisher without players\<close>

definition publishing :: "nat \<Rightarrow> string \<Rightarrow> nat \<Rightarrow> world \<Rightarrow> bool" where
  "publishing k key i w \<longleftrightarrow> sess (conns w k) = Some i \<and> sessionMap (w_broker w) key = Some i
     \<and> (\<exists>s. sess_heap (w_broker w) i = Some s \<and> players s = Map.empty \<and> publisher s = Some k \<and> offline s = Some 0)"

text \<open>The input of the publisher's connection.\<close>

abbreviation input_of :: "nat \<Rightarrow> world \<Rightarrow> bytes" where
  "input_of k w \<equiv> rd_pending (Connection (conns w k))"

text \<open>A call that returns, keeps the publisher, and leaves the input.\<close>

definition calm :: "nat \<Rightarrow> string \<Rightarrow> nat \<Rightarrow> world \<Rightarrow> (unit res \<times> world) option \<Rightarrow> bool" where
  "calm k key i w x \<longleftrightarrow> (\<exists>r w1. x = Some (r, w1) \<and> publishing k key i w1 \<and> input_of k w1 = input_of k w)"

lemma calm_wrap: "calm k key i w (m w) \<Longrightarrow> calm k key i w (w_wrap what m w)"
  by (auto simp: calm_def w_wrap_def)

lemma calm_from: "input_of k u = input_of k w \<Longrightarrow> calm k key i u x \<Longrightarrow> calm k key i w x"
  by (auto simp: calm_def)

lemma calm_here: "publishing k key i w \<Longrightarrow> calm k key i w (Some (r, w))"
  by (auto simp: calm_def)

lemma calm_conn:
  assumes "publishing k key i w" "\<And>r d. m (conns w k) = (r, d) \<Longrightarrow> same_life (conns w k) d"
  shows "calm k key i w (w_call (on_conn_of k m) w)"
proof -
  obtain r d where m: "m (conns w k) = (r, d)" by fastforce
  with assms show ?thesis
    by (auto simp: calm_def w_call_def on_conn_of_def publishing_def same_life_def)
qed

lemma calm_session:
  assumes "publishing k key i w" "\<And>s. players (f s) = players s \<and> publisher (f s) = publisher s \<and> offline (f s) = offline s"
    "order Map.empty = []"
  shows "calm k key i w (fanOut order pkt i (w\<lparr>w_broker := upd_sess i f (w_broker w)\<rparr>))"
  using assms by (auto simp: calm_def fanOut_def publishing_def)

lemma calm_av:
  assumes "publishing k key i w" "order Map.empty = []"
  shows "calm k key i w (onRecvAVMessage order i msg t w)"
proof -
  obtain r pkt where d: "DecodeHeader (av_packet_of msg t) = (r, pkt)" by fastforce
  have "calm k key i w (fanOut order pkt i (w\<lparr>w_broker := upd_sess i (keep_seq_header pkt h) (w_broker w)\<rparr>))" for h
    using assms by (intro calm_session) (simp_all add: keep_seq_header_def)
  with d calm_here [OF assms(1)] show ?thesis
    by (cases r) (auto simp: onRecvAVMessage_def split: option.split)
qed

lemma calm_data:
  assumes "publishing k key i w" "order Map.empty = []"
  shows "calm k key i w (onRecvDataMessage amf3 order i msg t w)"
proof -
  obtain s where s: "sess_heap (w_broker w) i = Some s" "publisher s = Some k"
    using assms(1) by (auto simp: publishing_def)
  obtain r c where h: "handleDataMessage amf3 msg t (conns w k) = (r, c)" by fastforce
  let ?w = "w\<lparr>conns := (conns w)(k := c)\<rparr>"
  have l: "same_life (conns w k) c" using same_life_data [OF h] .
  then have p: "publishing k key i ?w" "input_of k ?w = input_of k w"
    using assms(1) by (auto simp: publishing_def same_life_def)
  have call: "w_wrap x (w_call (on_conn_of k (handleDataMessage amf3 msg t))) w = Some (wrap_res x r, ?w)" for x
    by (simp add: w_wrap_def w_call_def on_conn_of_def h)
  have f: "calm k key i ?w (fanOut order pkt i (?w\<lparr>w_broker := upd_sess i (\<lambda>s. s\<lparr>metaData := Some pkt\<rparr>) (w_broker ?w)\<rparr>))" for pkt
    using p(1) assms(2) by (intro calm_session) simp_all
  show ?thesis
  proof (cases r)
    case (Ok u)
    with s call have "onRecvDataMessage amf3 order i msg t w = (let msg = skip_amf3_byte MsgAMF3DataMessage t msg;
          pkt = zero_packet\<lparr>PacketType := MetaData, pkt_StreamID := GetChunkMessageStreamID msg,
                           Data := ChunkData msg, pkt_Timestamp := GetChunkTimestamp msg\<rparr>
        in fanOut order pkt i (?w\<lparr>w_broker := upd_sess i (\<lambda>s. s\<lparr>metaData := Some pkt\<rparr>) (w_broker ?w)\<rparr>))"
      by (simp add: onRecvDataMessage_def w_bind_Ok)
    with calm_from [OF p(2) f] show ?thesis by (simp add: Let_def)
  qed (use s call p in \<open>simp_all add: onRecvDataMessage_def w_bind_def calm_def\<close>)
qed

lemma calm_dispatch:
  assumes "publishing k key i w" "te_order env Map.empty = []"
  shows "calm k key i w (dispatch_message amf3 env k msg w)"
proof -
  have s: "sess (conns w k) = Some i" using assms(1) by (simp add: publishing_def)
  have control: "calm k key i w (w_call (on_conn_of k (on_connection (go_modify f))) w)"
    if "\<And>c. rd_pending (f c) = rd_pending c" for f
    using that by (intro calm_conn [OF assms(1)]) (auto simp: on_connection_def go_modify_def same_life_def)
  have command: "calm k key i w (w_call (on_conn_of k (handleCommandMessage amf3 (te_wire env) msg t)) w)" for t
    by (intro calm_conn [OF assms(1)]) (rule same_life_command)
  show ?thesis
    unfolding dispatch_message_def Let_def s option.case
    using control [of "HandleSetChunkSizeMessage msg"] control [of "HandleAcknowledgementMessage msg"]
      control [of "HandleWindowAcknowledgementSizeMessage msg"] command calm_av [where order = "te_order env", OF assms]
      calm_data [where order = "te_order env", OF assms] calm_here [OF assms(1)]
    by (simp add: calm_wrap HandleSetChunkSizeMessage_def HandleAcknowledgementMessage_def
        HandleWindowAcknowledgementSizeMessage_def)
qed

lemma RecvIntegralMessage_consumes:
  "RecvIntegralMessage c = (Ok r, c1) \<Longrightarrow> length (rd_pending c1) < length (rd_pending c)"
proof (induction c rule: RecvIntegralMessage.induct)
  case (1 c)
  obtain q c2 where q: "recv_chunk c = (q, c2)" by fastforce
  show ?case
  proof (cases q)
    case (Ok m)
    have "length (rd_pending c2) < length (rd_pending c)" using recv_chunk_consumes q Ok by simp
    moreover have "length (rd_pending c1) \<le> length (rd_pending c2)"
    proof (cases m)
      case None
      with 1(2) q Ok have "RecvIntegralMessage c2 = (Ok r, c1)" by (simp add: RecvIntegralMessage.simps [of c])
      with 1(1) q Ok None show ?thesis by (auto simp: less_imp_le)
    next
      case (Some msg)
      with 1(2) q Ok show ?thesis by (simp add: RecvIntegralMessage.simps [of c])
    qed
    ultimately show ?thesis by simp
  qed (use 1(2) q in \<open>simp_all add: RecvIntegralMessage.simps [of c]\<close>)
qed

lemma publisher_turn:
  assumes "publishing k key i w" "te_order env Map.empty = []"
  shows "\<exists>r w1. recv_turn amf3 env k w = Some (r, w1) \<and> publishing k key i w1
    \<and> (r = Ok () \<longrightarrow> length (input_of k w1) < length (input_of k w))"
proof -
  obtain r c1 where r: "RecvIntegralMessage (Connection (conns w k)) = (r, c1)" by fastforce
  let ?w = "set_connection k c1 w"
  have p: "publishing k key i ?w" using assms(1) by (simp add: publishing_def)
  show ?thesis
  proof (cases r)
    case (Ok msg)
    with calm_dispatch [OF p assms(2), of amf3 msg] obtain q w1 where
      d: "dispatch_message amf3 env k msg ?w = Some (q, w1)" "publishing k key i w1" "input_of k w1 = input_of k ?w"
      by (auto simp: calm_def)
    let ?c = "(Connection (conns w1 k))\<lparr>messages := (messages (Connection (conns w1 k)))
      (GetChunkCsid (handled_message k ?w msg) \<mapsto> Some (stream_Reset (handled_message k ?w msg)))\<rparr>"
    have "recv_turn amf3 env k w = Some (wrap_res ''on recv intergral message'' q, set_connection k ?c w1)"
      using recv_turn_message r Ok defer_reset_at [where m = "dispatch_message amf3 env k msg" and w = ?w, OF d(1)]
      by (simp add: w_wrap_def)
    moreover have "publishing k key i (set_connection k ?c w1)" using d(2) by (simp add: publishing_def)
    moreover have "length (input_of k (set_connection k ?c w1)) < length (input_of k w)"
      using d(3) RecvIntegralMessage_consumes [of "Connection (conns w k)" msg c1] r Ok by simp
    ultimately show ?thesis by blast
  next
    case (Err e)
    with r have "recv_turn amf3 env k w = Some (Err (Wrap ''recv intergral message'' e), ?w)"
      by (simp add: recv_turn_def w_bind_def w_wrap_def w_call_def on_conn_of_def on_connection_def set_connection_def)
    with p show ?thesis by simp
  next
    case (Panic x)
    with r have "recv_turn amf3 env k w = Some (Panic x, ?w)"
      by (simp add: recv_turn_def w_bind_def w_wrap_def w_call_def on_conn_of_def on_connection_def set_connection_def)
    with p show ?thesis by simp
  qed
qed

lemma publish_loop_ends:
  "publishing k key i w \<Longrightarrow> \<forall>n. te_order (env n) Map.empty = [] \<Longrightarrow>
    \<exists>r w1. publish_loop amf3 env k n w = Some (r, w1) \<and> publishing k key i w1 \<and> r \<noteq> Ok ()"
proof (induction "length (input_of k w)" arbitrary: w n rule: less_induct)
  case less
  obtain r w1 where t: "recv_turn amf3 (env n) k w = Some (r, w1)" "publishing k key i w1"
    "r = Ok () \<longrightarrow> length (input_of k w1) < length (input_of k w)"
    using publisher_turn [OF less.prems(1)] less.prems(2) by blast
  show ?case
  proof (cases r)
    case (Ok u)
    with t have "length (input_of k w1) < length (input_of k w)" by simp
    from less.hyps [OF this t(2) less.prems(2), of "Suc n"] t(1) Ok show ?thesis
      by (simp add: publish_loop.simps [of amf3 env k n])
  qed (use t in \<open>simp_all add: publish_loop.simps [of amf3 env k n]\<close>)
qed

section \<open>Properties\<close>

text \<open>C7: publishing always comes to an end, and leaves the session to be cleaned up. For a new stream whose
  session no player joins, and whatever the client sends before its connection ends, \<open>publishCycle\<close> does not
  run for ever: it returns an error, never nil, or a handler panics. In both cases the deferred soft
  deletion has run: the session is still stored under the key, without a publisher, and the token for
  \<open>checkOffline\<close> is in the channel.\<close>

theorem publish_cycle_ends:
  assumes new: "sessionMap (w_broker w) (conn_streamKey (conns w k)) = None"
    and names: "ci_app (connectInfo (conns w k)) \<noteq> []" "cp_stream (publishInfo (conns w k)) \<noteq> []"
    and order: "\<forall>n. te_order (env n) Map.empty = []"
  shows "\<exists>r w1 i s. publishCycle amf3 env k n w = Some (r, w1)
    \<and> ((\<exists>e. r = Err e) \<or> (\<exists>p. r = Panic p))
    \<and> sessionMap (w_broker w1) (conn_streamKey (conns w k)) = Some i \<and> sess_heap (w_broker w1) i = Some s
    \<and> publisher s = None \<and> offline s = Some 1 \<and> players s = Map.empty"
proof -
  let ?c = "conns w k" and ?key = "conn_streamKey (conns w k)" and ?sid = "''E21A4829-6AAF-43FF-8405-3DB2B470FA13''"
  have vhost: "conn_vhost ?c = ''127.0.0.1''" by (simp add: conn_vhost_def parseVhost_def)
  have key: "?key \<noteq> []" by (simp add: conn_streamKey_def genStreamKey_def)
  obtain b i where cr: "createSession k (ci_app (connectInfo ?c)) (cp_stream (publishInfo ?c)) (conn_vhost ?c) ?key ?sid (w_broker w)
      = (Ok i, b)"
    and b: "sessionMap b ?key = Some i" "\<exists>s. sess_heap b i = Some s \<and> players s = Map.empty \<and> publisher s = Some k \<and> offline s = Some 0"
    using new names key
    by (simp add: createSession_def createSession_new_def newSession_ok vhost Let_def zero_session_def)
  let ?w = "w\<lparr>w_broker := b, conns := (conns w)(k := ?c\<lparr>sess := Some i\<rparr>)\<rparr>"
  have "publishing k ?key i ?w" using b by (simp add: publishing_def)
  from publish_loop_ends [OF this order, of amf3 n] obtain r w1 where
    l: "publish_loop amf3 env k n ?w = Some (r, w1)" "publishing k ?key i w1" "r \<noteq> Ok ()" by blast
  from l(2) obtain s where s: "sessionMap (w_broker w1) ?key = Some i" "sess_heap (w_broker w1) i = Some s"
    "players s = Map.empty" "offline s = Some 0" by (auto simp: publishing_def)
  let ?b = "softDel_send i (clear_publisher i (w_broker w1))"
  have "softDelSession ?key (w_broker w1) = Some (Ok (), ?b)"
    using s by (simp add: softDelSession_def softDel_begin_def offline_room_def clear_publisher_def)
  then have "publishCycle amf3 env k n w = Some (r, w1\<lparr>w_broker := ?b\<rparr>)"
    using cr l(1) by (simp add: publishCycle_def Let_def on_broker_def)
  moreover have "(\<exists>e. r = Err e) \<or> (\<exists>p. r = Panic p)" using l(3) by (cases r) simp_all
  ultimately show ?thesis using s
    by (intro exI [of _ r] exI [of _ "w1\<lparr>w_broker := ?b\<rparr>"] exI [of _ i]
        exI [of _ "s\<lparr>publisher := None, offline := Some 1\<rparr>"]) (simp add: softDel_send_def clear_publisher_def)
qed

definition fresh_publisher :: "bytes \<Rightarrow> world" where
  "fresh_publisher input = (sample_world [])\<lparr>w_broker := empty_broker,
     conns := (\<lambda>_. zero_conn\<lparr>has_server := True, Connection := sample_conn input,
       connectInfo := zero_connectInfo\<lparr>ci_app := ''live''\<rparr>,
       publishInfo := zero_publishInfo\<lparr>clientType := 1, cp_stream := ''a''\<rparr>\<rparr>)\<rparr>"

theorem publish_cycle_ends_witness:
  "\<exists>r w1 i s. publishCycle no_amf3 (\<lambda>_. sample_turn\<lparr>te_order := \<lambda>_. []\<rparr>) 0 0
      (fresh_publisher (wire_bytes 128 (sample_audio 40 [1]) @ [0xff])) = Some (r, w1)
    \<and> ((\<exists>e. r = Err e) \<or> (\<exists>p. r = Panic p))
    \<and> sess_heap (w_broker w1) i = Some s \<and> publisher s = None \<and> offline s = Some 1"
proof -
  let ?w = "fresh_publisher (wire_bytes 128 (sample_audio 40 [1]) @ [0xff])"
  have "sessionMap (w_broker ?w) (conn_streamKey (conns ?w 0)) = None"
    by (simp add: fresh_publisher_def empty_broker_def)
  moreover have "ci_app (connectInfo (conns ?w 0)) \<noteq> []" "cp_stream (publishInfo (conns ?w 0)) \<noteq> []"
    by (simp_all add: fresh_publisher_def)
  moreover have "\<forall>n. te_order ((\<lambda>_. sample_turn\<lparr>te_order := \<lambda>_. []\<rparr>) n) Map.empty = []" by simp
  ultimately have "\<exists>r w1 i s. publishCycle no_amf3 (\<lambda>_. sample_turn\<lparr>te_order := \<lambda>_. []\<rparr>) 0 0 ?w = Some (r, w1)
    \<and> ((\<exists>e. r = Err e) \<or> (\<exists>p. r = Panic p))
    \<and> sessionMap (w_broker w1) (conn_streamKey (conns ?w 0)) = Some i \<and> sess_heap (w_broker w1) i = Some s
    \<and> publisher s = None \<and> offline s = Some 1 \<and> players s = Map.empty"
    by (rule publish_cycle_ends)
  then show ?thesis by blast
qed

text \<open>C27: a server that starts accepts connections it can serve. Whatever the configuration file says, the server
  has an address, a positive read buffer and positive timeouts, and every accepted connection can be
  answered, expects chunks of 128 bytes, sends chunks of more, and has neither shaken hands nor chosen to
  publish or play.\<close>

theorem accepted_connection_ready:
  assumes "New_Server env opts = Ok s" "srv_config s = Some cfg"
    "\<forall>b \<in> set pool. sl_cap b = 18 \<and> 1 \<le> sl_len b \<and> sl_len b \<le> 18"
  shows "Addr cfg \<noteq> [] \<and> 0 < cfg_ReadBufSize cfg \<and> 0 < HandshakeTimeout cfg \<and> 0 < PlayorPublishTimeout cfg
    \<and> (\<exists>c. accept_conn s cfg pool input fin = Ok c \<and> can_respond 1 (Connection c) \<and> conn_ready 128 (Connection c)
        \<and> rd_pending (Connection c) = input \<and> handshakeStatus c = 0 \<and> sess c = None \<and> clientType (publishInfo c) = 0)"
proof -
  from assms(1,2) obtain cfg0 where "cfg = config_defaults cfg0"
    by (auto simp: New_Server_def server_loadOptions_def Let_def res_bind_def split: res.splits option.splits if_splits)
  then have "Addr cfg \<noteq> [] \<and> 0 < cfg_ReadBufSize cfg \<and> 0 < HandshakeTimeout cfg \<and> 0 < PlayorPublishTimeout cfg"
    by (simp add: config_defaults_def Let_def second_def)
  moreover from newServerConn_accept [OF New_Server_pools [OF assms(1)], of cfg pool input fin] obtain c where
    c: "accept_conn s cfg pool input fin = Ok c" "conn_Init (Connection c) = (Ok (), Connection c)"
      "RemoteChunkSize (Connection c) = 128" "rd_pending (Connection c) = input" "EncodeHdrPool (Connection c) = pool"
      "handshakeStatus c = 0" "sess c = None" "clientType (publishInfo c) = 0" by blast
  have "conn_ready 128 (Connection c)" using conn_ready_Init [OF c(2)] c(3) by simp
  moreover have "can_respond 1 (Connection c)"
    using conn_Init_bounds [OF c(2)] assms(3) c(5) by (simp add: can_respond_def pool_ok_def)
  ultimately show ?thesis using c by blast
qed

definition sample_env_server :: server_env where
  "sample_env_server = \<lparr>env_binPath = Ok ''/srv/bin'', env_beside = (\<lambda>b p. ''/srv/'' @ p), env_ReadInConfig = (\<lambda>_. None),
     env_Unmarshal = (\<lambda>_. Ok \<lparr>Addr = [], cfg_ReadBufSize = 0, cfg_LocalChunkSize = 100, HandshakeTimeout = 0,
       PlayorPublishTimeout = 0, Log = \<lparr>lc_Path = ''log/l'', lc_Level = ''info'', RotationTime = 0, Age = 0\<rparr>, EnablePprof = False\<rparr>),
     env_rotatelogs = (\<lambda>_ _ _. None), env_level = (\<lambda>_. None)\<rparr>"

theorem accepted_connection_ready_witness:
  "\<exists>s cfg c. New_Server sample_env_server [] = Ok s \<and> srv_config s = Some cfg \<and> Addr cfg = '':1935''
    \<and> accept_conn s cfg [] [3] ErrEOF = Ok c \<and> LocalChunkSize (Connection c) = 4096 \<and> can_respond 1 (Connection c)"
proof -
  obtain s cfg where s: "New_Server sample_env_server [] = Ok s" "srv_config s = Some cfg"
    and cfg: "Addr cfg = '':1935''" "cfg_LocalChunkSize cfg = 100"
    by (simp add: New_Server_def server_loadOptions_def sample_env_server_def zero_Server_def getAbsConfigPath_def
        loadConfig_def initLogger_def getAbsLogPath_def newBroker_def broker_loadOptions_def config_defaults_def Let_def)
  have "\<forall>b \<in> set []. sl_cap b = 18 \<and> 1 \<le> sl_len b \<and> sl_len b \<le> 18" by simp
  from accepted_connection_ready [OF s this, of "[3]" ErrEOF] obtain c where
    c: "accept_conn s cfg [] [3] ErrEOF = Ok c" "can_respond 1 (Connection c)" by blast
  have "LocalChunkSize (Connection c) = 4096"
    using c(1) New_Server_pools [OF s(1)] cfg(2)
    by (auto simp: accept_conn_def newServerConn_def conn_loadOptions_def server_conn_options zero_conn_def
      zero_connection_def on_connection_def conn_Init_def Let_def zero_ackWindowSize_def)
  with s cfg c show ?thesis by blast
qed

text \<open>C28: only publishers may send audio and video. A client that has neither published nor joined a session and
  sends an audio or video message is refused with an error, and nothing but its own connection changes.\<close>

theorem av_before_publish:
  assumes "conn_ready L (Connection (conns w k))" "input_of k w = wire_bytes L m @ rest" "on_wire L m"
    "GetChunkMessageTypeID m \<in> {MsgAudioMessage, MsgVideoMessage}"
    "sess (conns w k) = None" "clientType (publishInfo (conns w k)) \<noteq> 1"
  shows "\<exists>e cn. recv_turn amf3 env k w = Some (Err e, set_connection k cn w)
    \<and> cause e = ErrNew ''recv audio/video message but client isn't publisher'' \<and> rd_pending cn = rest"
proof -
  obtain r c1 where r: "RecvIntegralMessage (Connection (conns w k)) = (Ok r, c1)" "carries_message r m"
    and t: "let c2 = c1\<lparr>messages := (messages c1)(GetChunkCsid r \<mapsto> Some (stream_Reset r))\<rparr>
       in conn_ready L c2 \<and> rd_pending c2 = rest"
    using recv_wire [OF assms(1,3,2)] by blast
  let ?w = "set_connection k c1 w" and ?e = "ErrNew ''recv audio/video message but client isn't publisher''"
  let ?c2 = "c1\<lparr>messages := (messages c1)(GetChunkCsid r \<mapsto> Some (stream_Reset r))\<rparr>"
  have ty: "GetChunkMessageTypeID r \<in> {MsgAudioMessage, MsgVideoMessage}"
    using assms(4) r(2) by (auto simp: carries_message_def chunk_getters)
  then have d: "dispatch_message amf3 env k r ?w = Some (Err ?e, ?w)"
    using assms(5,6) by (auto simp: dispatch_message_def msg_ids)
  have "recv_turn amf3 env k w = Some (Err (Wrap ''on recv intergral message'' ?e), set_connection k ?c2 w)"
    using recv_turn_message [OF r(1)] defer_reset_at [where m = "dispatch_message amf3 env k r" and w = ?w, OF d]
    by (simp add: handled_av [OF ty] w_wrap_def)
  moreover have "rd_pending ?c2 = rest" using t by (simp add: Let_def)
  ultimately show ?thesis
    by (intro exI [of _ "Wrap ''on recv intergral message'' ?e"] exI [of _ ?c2]) simp
qed

theorem av_before_publish_witness:
  "\<exists>e cn. recv_turn no_amf3 sample_turn 1 ((sample_world [])\<lparr>conns := (\<lambda>_. zero_conn
      \<lparr>Connection := sample_conn (wire_bytes 128 (sample_audio 40 [1]) @ [7])\<rparr>)\<rparr>)
    = Some (Err e, set_connection 1 cn ((sample_world [])\<lparr>conns := (\<lambda>_. zero_conn
      \<lparr>Connection := sample_conn (wire_bytes 128 (sample_audio 40 [1]) @ [7])\<rparr>)\<rparr>)) \<and> rd_pending cn = [7]"
proof -
  let ?w = "(sample_world [])\<lparr>conns := (\<lambda>_. zero_conn
      \<lparr>Connection := sample_conn (wire_bytes 128 (sample_audio 40 [1]) @ [7])\<rparr>)\<rparr>"
  have "conn_ready 128 (Connection (conns ?w 1))" "input_of 1 ?w = wire_bytes 128 (sample_audio 40 [1]) @ [7]"
    by simp (simp add: sample_conn_def)
  moreover have "on_wire 128 (sample_audio 40 [1])" by (rule sample_audio_ok) simp_all
  moreover have "GetChunkMessageTypeID (sample_audio 40 [1]) \<in> {MsgAudioMessage, MsgVideoMessage}"
    by (simp add: sample_audio_def sample_msg_def chunk_getters msg_ids)
  moreover have "sess (conns ?w 1) = None" "clientType (publishInfo (conns ?w 1)) \<noteq> 1"
    by (simp_all add: zero_conn_def zero_publishInfo_def)
  ultimately have "\<exists>e cn. recv_turn no_amf3 sample_turn 1 ?w = Some (Err e, set_connection 1 cn ?w)
    \<and> cause e = ErrNew ''recv audio/video message but client isn't publisher'' \<and> rd_pending cn = [7]"
    by (rule av_before_publish)
  then show ?thesis by blast
qed

text \<open>C18: one message of a client can end the program. A command message whose body decodes to no value, such as a
  single byte 1, makes \<open>recvChunkStream\<close> panic, and no goroutine recovers from panics.\<close>

theorem empty_command_crash:
  assumes "conn_ready L (Connection (conns w k))" "input_of k w = wire_bytes L m @ rest" "on_wire L m"
    "GetChunkMessageTypeID m = MsgAMF0CommandMessage" "DecodeBatch amf3 (ChunkData m) = Ok ([], ErrEOF)"
  shows "\<exists>w1. recvChunkStream addr t amf3 li k n w = Some (Panic IndexOutOfRange, w1)"
proof -
  obtain r c1 where r: "RecvIntegralMessage (Connection (conns w k)) = (Ok r, c1)" "carries_message r m"
    using recv_wire [OF assms(1,3,2)] by blast
  let ?w = "set_connection k c1 w"
  have r2: "GetChunkMessageTypeID r = MsgAMF0CommandMessage" "ChunkData r = ChunkData m"
    using assms(4) r(2) by (auto simp: carries_message_def chunk_getters)
  have "handleCommandMessage amf3 ch r MsgAMF0CommandMessage c = (Panic IndexOutOfRange, c)" for ch c
    using assms(5) by (simp add: handleCommandMessage_def skip_amf3_byte_def decode_body_def r2 go_panic_def msg_ids)
  then obtain w2 where d: "dispatch_message amf3 (li_env li n) k r ?w = Some (Panic IndexOutOfRange, w2)"
    by (simp add: dispatch_message_def r2 msg_ids w_wrap_def w_call_def on_conn_of_def)
  from recv_turn_message [OF r(1)] defer_reset_at [where m = "dispatch_message amf3 (li_env li n) k r" and w = ?w, OF d]
  obtain w3 where "recv_turn amf3 (li_env li n) k w = Some (Panic IndexOutOfRange, w3)"
    by (simp add: w_wrap_def)
  then show ?thesis by (simp add: recvChunkStream.simps w_bind_Panic)
qed

definition one_byte_command :: chunk where
  "one_byte_command = \<lparr>hdr = \<lparr>basic_header = \<lparr>Fmt = 0, Csid = 3\<rparr>, message_header =
     \<lparr>Timestamp = 0, MessageLength = 1, MessageTypeID = 20, MessageStreamID = 0\<rparr>,
     ExtendedTimestamp = 0\<rparr>, ChunkData = [1]\<rparr>"

definition sample_life :: life where
  "sample_life = \<lparr>li_timer = None, li_rand = (\<lambda>_ n. replicate n 0), li_fault = None, li_env = (\<lambda>_. sample_turn),
     li_play = \<lparr>pc_pick = (\<lambda>_ _. 0), pc_ck = zero_chunk, pc_msg = zero_chunk, pc_turns = []\<rparr>\<rparr>"

theorem empty_command_crash_witness:
  "\<exists>w1. recvChunkStream (\<lambda>_. []) 10 no_amf3 sample_life 0 0 (sample_world (wire_bytes 128 one_byte_command))
    = Some (Panic IndexOutOfRange, w1)"
proof -
  let ?w = "sample_world (wire_bytes 128 one_byte_command)"
  have "conn_ready 128 (Connection (conns ?w 0))" "input_of 0 ?w = wire_bytes 128 one_byte_command @ []"
    by (simp_all add: sample_world_def) (simp add: sample_conn_def)
  moreover have "on_wire 128 one_byte_command"
    by (simp add: one_byte_command_def on_wire_def fits_wire_def sendable_def header_fits_def whole_chunks_def
        chunk_getters)
  moreover have "GetChunkMessageTypeID one_byte_command = MsgAMF0CommandMessage"
    by (simp add: one_byte_command_def chunk_getters msg_ids)
  moreover have "DecodeBatch no_amf3 (ChunkData one_byte_command) = Ok ([], ErrEOF)"
    by (simp add: one_byte_command_def DecodeBatch_def DecodeAmf0_markers DecodeAmf0Boolean_def go_bind_def)
  ultimately show ?thesis by (rule empty_command_crash)
qed

end
