(* ===== verification/Spec2Isabelle.thy ===== *)
theory Spec2Isabelle
  imports Conn_Faults Amf0 Av_Flv Handshake Packet_Buffer Player Ring_Buffer Session_Broker
    Server_Responses Server_Relay Server_Join Server_Life
begin

text \<open>
  Verification of fastlive, an RTMP server in Go: clients publish live streams to it, and it relays them to the
  clients that play them.

  \<^bold>\<open>The program.\<close> \<open>server.go\<close> loads the configuration, listens, and serves each accepted socket in a goroutine
  (\<open>server_conn.go: serve\<close>). A connection first shakes hands (\<open>handshake_server.go\<close>). Then it receives RTMP messages,
  which travel in chunks with compressed headers (\<open>chunk/*.go\<close>, \<open>connection.go\<close>): protocol control messages
  change the connection, command messages in AMF0 are answered (\<open>connect\<close>, \<open>createStream\<close>, \<open>publish\<close>,
  \<open>play\<close>). After \<open>publish\<close> the connection owns a session of the broker (\<open>broker.go\<close>, \<open>session.go\<close>); its audio,
  video and data messages become packets (\<open>packet.go\<close>, \<open>flv/*.go\<close>) that the session puts into the packet buffer
  of each of its players (\<open>player.go\<close>). After \<open>play\<close> the connection is a player: it is sent the stored
  metadata and sequence headers and then the packets of its buffer, and flushes what it queued every 350 ms.

  \<^bold>\<open>The theories.\<close> Each models one part, with its operations in the order of the source, and holds its lemmas.

  \<^item> \<open>Go_Prelude\<close>: machine words, errors and panics as values (\<open>res\<close>), calls as functions from a state to a result
    and a state (\<open>go\<close>, with \<open>go_bind\<close>, \<open>go_wrap\<close>), slices with length and capacity. A call that fails keeps the
    changes it made before.
  \<^item> \<open>Common\<close> (\<open>common.go\<close>): conversions between bytes and numbers, and that they invert each other.
  \<^item> \<open>Chunk_Header\<close>, \<open>Chunk_Message\<close> (\<open>pkg/rtmp/chunk\<close>): basic and message headers with their encoders, chunks, chunk
    streams, and the constructors of messages.
  \<^item> \<open>Conn_State\<close>, \<open>Conn_Recv\<close>, \<open>Conn_Send\<close> (\<open>pkg/rtmp/connection\<close>): the record of a connection and its
    operations, the receive loop and the send loop. \<open>Conn_Roundtrip\<close>: what one end sends the other receives
    (locale \<open>message_codec\<close>, interpreted on the two). \<open>Conn_Faults\<close>: where the two ends or the protocol disagree.
  \<^item> \<open>Sha256\<close>, \<open>Handshake\<close>: the server's handshake in both schemes, with an executable HMAC-SHA256 (locale
    \<open>digest_scheme\<close>, interpreted at both offsets).
  \<^item> \<open>Amf0\<close> (the vendored codec): decoding and encoding of values, batches, and metadata.
  \<^item> \<open>Av_Flv\<close> (\<open>pkg/av\<close>): packets and the first bytes of FLV audio and video tags.
  \<^item> \<open>Session_Broker\<close>: sessions, the broker's map of them, and the goroutine that deletes a session whose publisher
    has left. The step relation \<open>broker_step\<close> has a step for each access to the map or to a shared session, so that
    \<open>createSession\<close> can be interrupted between its lookup and its store, \<open>softDelSession\<close> between its lookup, the
    loss of the publisher and its send, and the timer between its test and the clean-up; \<open>timely\<close> runs are those in
    which no entry of the map is overwritten.
  \<^item> \<open>Player\<close>: timestamps, sending and flushing, and the playing loop. \<open>Packet_Buffer\<close>: the channel between the
    publisher's and the player's goroutine under its mutex, as a step relation of all interleavings.
  \<^item> \<open>Server_Conn\<close>: a client's connection with its handlers and responses. \<open>Server_World\<close>: the state of the whole
    server, the dispatch of a message to session and players, the publishing and playing cycles and the life of a
    connection. \<open>Server_Config\<close>: configuration, defaults, and the accept loop.
  \<^item> \<open>Server_Responses\<close>, \<open>Server_Relay\<close>, \<open>Server_Join\<close>, \<open>Server_Life\<close>: the theorems about these three: what a client
    reads after each command; that what a publisher sends reaches the players; what a late player is sent first;
    that a publisher's cycle ends and what it leaves; what an accepted connection starts with; the crash by an
    empty command.
  \<^item> \<open>Ring_Buffer\<close> (\<open>research/queue\<close>): the bounded queue, refined to a list (locale \<open>bounded_fifo\<close>).

  \<^bold>\<open>What is shown.\<close> The invariants of the receiver's stream table, the broker and the packet buffer; that the receiver and
  the handshake read any input without an index or slice panic, the receiver's nil stream apart; the round trips of messages and
  of command bodies; the responses to the four commands as the client decodes them; the path of a packet from the
  publisher's socket to the player's; termination of receiving, decoding and publishing. Where the code does not do
  what it should, the theorem states what it does: chunk stream ids above 65559, messages of whole chunks, extended
  timestamps, a chunk size of zero, empty commands, sessions that are never deleted, goroutines that block each other.

  \<^bold>\<open>Bounds and fuel.\<close> Decoding of AMF0 recurses on fuel, one more than the bytes left (\<open>DecodeAmf0_fuel\<close>: more never
  changes the result). The loops of the ring buffer have fuel that stands for their number of iterations, and a call that spins is
  one that no fuel ends. \<open>publish_loop\<close> and \<open>recvChunkStream\<close> are partial functions whose result is \<open>None\<close> when they
  never return; \<open>publish_cycle_ends\<close> shows that publishing does not run for ever: it returns an error or a handler
  panics. \<open>playCycle\<close> takes a finite sequence of turns and is \<open>None\<close> when it has not ended by then. Words have the width of the source; Go's
  \<open>int\<close> is \<open>int\<close> where it counts bytes in memory.

  \<^bold>\<open>Arguments of the model.\<close> What the code leaves open is an argument: the buffer or chunk a \<open>sync.Pool\<close> returns, the order
  in which a map is visited, the time, random bytes, when the network fails and with what error, and the AMF3 decoder
  (\<open>reader_ok\<close>: it returns, leaves no more input than there was and does not panic). A \<open>sync.Pool\<close> never drops a buffer here; it may in
  Go, and then makes a full-size one, which the hypotheses \<open>pool_ok\<close> and \<open>can_respond\<close> also cover. The server's
  connections share one pool of header buffers; a connection's \<open>EncodeHdrPool\<close> is what that pool holds while the
  connection runs, so its content at the start is an argument too (\<open>pool\<close> of \<open>accept_conn\<close>), and the theorems hold
  for every content with buffers of the lengths they ask for, whichever connection put them there.

  \<^bold>\<open>Concurrency.\<close> The functions of \<open>Server_World\<close> are those of one goroutine at a time; while a client plays, the turns
  of the goroutine that receives and of the loop that sends are an explicit sequence (\<open>play_turn\<close>). All interleavings are
  considered for the packet buffer and for the broker with its calls and clean-up goroutines; there, the update of the
  session counter is taken together with the change of the map before it. \<open>createSession\<close>, \<open>softDelSession\<close> and
  \<open>checkOffline_fire\<close> as single functions are runs of these steps without an interruption (\<open>create_uninterrupted\<close>,
  \<open>softDel_uninterrupted\<close>, \<open>fire_uninterrupted\<close>). \<open>Ring_Buffer\<close> is about calls without interference.

  \<^bold>\<open>Not modelled.\<close> \<open>research/writev/main.go\<close> and \<open>cmd/main.go\<close> (nothing but calls of the network and of \<open>server.New\<close>),
  what is logged, the pprof server, the file system, viper and zap (arguments of \<open>Server_Config\<close>), and the other
  vendored packages.
\<close>

end
